(* ===== verification/Prelude.thy ===== *)
theory Prelude
  imports Main "HOL-Library.Word" "HOL-Library.Monad_Syntax"
begin

unbundle bit_operations_syntax

text \<open>
  The shared ground of the development: the theorem collections that the component
  theories extend, and the generic lemmas on natural-number arithmetic, lists and
  bytes that more than one component uses. Nothing here models code of the
  repository.

  \<^item> \<open>go_std\<close>: evaluation rules of the modelled Go standard library;
  \<^item> \<open>ip_arith\<close>: address arithmetic (big-endian values of byte slices, prefix masks);
  \<^item> \<open>step_simps\<close>: the unfolding rules of the controllers' steps.
\<close>

named_theorems go_std \<open>evaluation rules of the modelled Go standard library\<close>
named_theorems ip_arith \<open>arithmetic of addresses, masks and prefixes\<close>
named_theorems step_simps \<open>unfolding rules of controller steps\<close>

type_synonym byte = "8 word"

text \<open>A fallible Go call that returns a value and an \<open>error\<close>: \<open>Inl\<close> is a non-nil error.\<close>
type_synonym ('e, 'a) result = "'e + 'a"

section \<open>Arithmetic\<close>

lemma div_mult_eq_minus_mod: "(a::nat) div k * k = a - a mod k"
  by (simp add: minus_mod_eq_div_mult)

lemma pow2_split: "(h::nat) \<le> k \<Longrightarrow> (2::nat) ^ k = 2 ^ h * 2 ^ (k - h)"
  by (simp flip: power_add)

lemma pow2_dvd_pow2: "(h::nat) \<le> k \<Longrightarrow> (2::nat) ^ h dvd 2 ^ k"
  by (rule le_imp_power_dvd)

lemma div_pow2_trans: "(j::nat) \<le> k \<Longrightarrow> (y::nat) div 2 ^ k = y div 2 ^ j div 2 ^ (k - j)"
  by (metis div_mult2_eq pow2_split)

lemma pow2_Suc_pred: "\<exists>q. (2::nat) ^ h = Suc q"
  by (metis not0_implies_Suc power_not_zero zero_neq_numeral)

lemma div_shift_block:
  fixes a v :: nat
  assumes "h \<le> k"
  shows "(a * 2 ^ k + v) div 2 ^ h = a * 2 ^ (k - h) + v div 2 ^ h"
proof -
  from assms have "(2::nat) ^ k = 2 ^ h * 2 ^ (k - h)"
    by (rule pow2_split)
  then have "(a * 2 ^ k + v) div 2 ^ h = (v + 2 ^ h * (a * 2 ^ (k - h))) div 2 ^ h"
    by (simp add: ac_simps)
  also have "\<dots> = a * 2 ^ (k - h) + v div 2 ^ h" by simp
  finally show ?thesis .
qed

lemma div_drop_block:
  fixes a v :: nat
  assumes "v < 2 ^ k"
  shows "(a * 2 ^ k + v) div 2 ^ (k + j) = a div 2 ^ j"
  using assms by (simp add: power_add div_mult2_eq)

text \<open>Two numbers agree on their leading bits iff the second lies in the aligned block of the first.\<close>

lemma div_eq_iff_in_block:
  fixes a b k :: nat
  assumes "0 < k"
  shows "a div k = b div k \<longleftrightarrow> a div k * k \<le> b \<and> b < a div k * k + k"
proof
  assume "a div k = b div k"
  with assms show "a div k * k \<le> b \<and> b < a div k * k + k"
    by (metis add.commute add_less_cancel_left div_mult_mod_eq div_times_less_eq_dividend
        mod_less_divisor)
next
  assume "a div k * k \<le> b \<and> b < a div k * k + k"
  with assms show "a div k = b div k"
    by (metis (no_types, lifting) add.commute div_nat_eqI mult.commute mult_Suc)
qed

section \<open>Aligned blocks\<close>

text \<open>The interval of \<open>k\<close> numbers from \<open>a\<close>: the addresses a CIDR block covers.\<close>

definition block :: "nat \<Rightarrow> nat \<Rightarrow> nat set" where
  "block a k = {a..<a + k}"

lemma mem_block [simp]: "x \<in> block a k \<longleftrightarrow> a \<le> x \<and> x < a + k"
  by (simp add: block_def)

lemma block_nonempty: "0 < k \<Longrightarrow> a \<in> block a k"
  by simp

lemma block_empty [simp]: "block a 0 = {}"
  by (auto simp: block_def)

lemma aligned_mem_block:
  fixes a k x :: nat
  assumes "a mod k = 0" and "0 < k"
  shows "x \<in> block a k \<longleftrightarrow> x div k = a div k"
proof -
  from assms(1) have "a div k * k = a" by auto
  with div_eq_iff_in_block [OF assms(2), of a x] show ?thesis by (simp add: eq_commute)
qed

text \<open>Aligned power-of-two blocks are nested or disjoint.\<close>

lemma aligned_block_cases:
  fixes a b :: nat
  assumes a: "a mod 2 ^ j = 0" and b: "b mod 2 ^ k = 0" and jk: "j \<le> k"
  shows "block a (2 ^ j) \<subseteq> block b (2 ^ k) \<or> block a (2 ^ j) \<inter> block b (2 ^ k) = {}"
proof (cases "a div 2 ^ k = b div 2 ^ k")
  case True
  from b have bk: "b = b div 2 ^ k * 2 ^ k" by (metis add.right_neutral div_mult_mod_eq)
  have m: "a mod 2 ^ k + 2 ^ j \<le> 2 ^ k"
  proof -
    obtain q where q: "a = 2 ^ j * q" using a by auto
    have k: "(2::nat) ^ k = 2 ^ j * 2 ^ (k - j)" using jk by (rule pow2_split)
    have "a mod 2 ^ k = 2 ^ j * (q mod 2 ^ (k - j))"
      unfolding q k by (rule mult_mod_right [symmetric])
    moreover have "q mod 2 ^ (k - j) + 1 \<le> 2 ^ (k - j)"
      by (simp add: Suc_leI)
    then have "2 ^ j * (q mod 2 ^ (k - j) + 1) \<le> 2 ^ j * 2 ^ (k - j)"
      by (rule mult_le_mono2)
    ultimately show ?thesis using k by (simp add: algebra_simps)
  qed
  have "a = b + a mod 2 ^ k"
    using True bk by (metis div_mult_mod_eq)
  with m have "block a (2 ^ j) \<subseteq> block b (2 ^ k)"
    by (auto simp: block_def)
  then show ?thesis ..
next
  case False
  have pos: "0 < (2::nat) ^ n" for n by simp
  have "x div 2 ^ k = a div 2 ^ k" if "x \<in> block a (2 ^ j)" for x
  proof -
    from that have eq: "x div 2 ^ j = a div 2 ^ j"
      by (rule iffD1 [OF aligned_mem_block [OF a pos]])
    have "x div 2 ^ k = x div 2 ^ j div 2 ^ (k - j)"
      by (rule div_pow2_trans [OF jk])
    also have "\<dots> = a div 2 ^ j div 2 ^ (k - j)" by (rule arg_cong [OF eq])
    also have "\<dots> = a div 2 ^ k"
      by (rule div_pow2_trans [OF jk, symmetric])
    finally show ?thesis .
  qed
  moreover have "x div 2 ^ k = b div 2 ^ k" if "x \<in> block b (2 ^ k)" for x
    using that by (rule iffD1 [OF aligned_mem_block [OF b pos]])
  ultimately have "block a (2 ^ j) \<inter> block b (2 ^ k) = {}"
    using False by (metis disjoint_iff)
  then show ?thesis ..
qed

lemma aligned_block_bound:
  fixes a :: nat
  assumes "a mod 2 ^ h = 0" and "a < 2 ^ n" and "h \<le> n"
  shows "a + 2 ^ h \<le> 2 ^ n"
proof -
  obtain q where q: "a = 2 ^ h * q" using assms(1) by auto
  have n: "(2::nat) ^ n = 2 ^ h * 2 ^ (n - h)" using assms(3) by (rule pow2_split)
  from assms(2) have "q < 2 ^ (n - h)" unfolding q n by simp
  then have "2 ^ h * Suc q \<le> 2 ^ h * 2 ^ (n - h)" by (intro mult_le_mono2) simp
  then show ?thesis unfolding q n by simp
qed

lemma aligned_blocks_meet:
  fixes a b :: nat
  assumes "a mod 2 ^ j = 0" and "b mod 2 ^ k = 0" and "x \<in> block a (2 ^ j)" and "x \<in> block b (2 ^ k)"
  shows "a \<in> block b (2 ^ k) \<or> b \<in> block a (2 ^ j)"
proof (cases "j \<le> k")
  case True
  from aligned_block_cases [OF assms(1,2) True] assms(3,4)
  have "block a (2 ^ j) \<subseteq> block b (2 ^ k)" by (metis disjoint_iff)
  moreover have "a \<in> block a (2 ^ j)" by simp
  ultimately show ?thesis by (metis subsetD)
next
  case False
  then have "k \<le> j" by simp
  from aligned_block_cases [OF assms(2,1) this] assms(3,4)
  have "block b (2 ^ k) \<subseteq> block a (2 ^ j)" by (metis disjoint_iff)
  moreover have "b \<in> block b (2 ^ k)" by simp
  ultimately show ?thesis by (metis subsetD)
qed

section \<open>Options and sums\<close>

text \<open>Go's nil error on the right, its non-nil error on the left.\<close>

definition is_err :: "('e, 'a) result \<Rightarrow> bool" where
  "is_err r = (case r of Inl _ \<Rightarrow> True | Inr _ \<Rightarrow> False)"

lemma is_err_simps [simp]: "is_err (Inl e) = True" "is_err (Inr x) = False"
  by (simp_all add: is_err_def)

lemma find_append: "find P (xs @ ys) = (case find P xs of None \<Rightarrow> find P ys | Some x \<Rightarrow> Some x)"
  by (induction xs) auto

end
