(* ===== verification/Go_Std.thy ===== *)
theory Go_Std
  imports Prelude
begin

text \<open>
  The parts of Go and its standard library that the repository's code uses on strings,
  numbers and errors. A Go string is a byte sequence and Isabelle's \<open>string\<close> is a list
  of 8-bit characters, so the two agree byte for byte. Modelled here: the error values
  the program builds and tests (\<open>fmt.Errorf\<close>, \<open>%w\<close> wrapping, \<open>allocatorError\<close>, the
  errors of \<open>net\<close> and \<open>strconv\<close>, and the opaque errors of the Kubernetes client), and
  \<open>strconv.Itoa\<close>, \<open>strconv.Atoi\<close>, \<open>strings.Contains\<close>, \<open>HasPrefix\<close>, \<open>TrimPrefix\<close>,
  \<open>ReplaceAll\<close> and \<open>Split\<close> on one-byte separators, and \<open>int64(math.Pow(2, n))\<close>.
\<close>

section \<open>Errors\<close>

text \<open>\<open>allocatorError\<close> of \<^verbatim>\<open>internal/controller/allocator.go\<close>.\<close>

record allocatorError =
  message :: string
  isExhausted :: bool
  isConflict :: bool

text \<open>
  A Go \<open>error\<close> value. \<open>Errorf\<close> is a message without a wrapped error, \<open>Wrapf p e\<close> is
  \<open>fmt.Errorf("p%w", e)\<close>, \<open>ParseErr\<close> is \<open>net.ParseError\<close>, \<open>NumErr\<close> is \<open>strconv.NumError\<close>.
  \<open>ExtErr\<close> is an error of the Kubernetes libraries: its status reason and its text; what
  the library predicates (\<open>errors.IsNotFound\<close> and its kin) say of it is a parameter of
  the definitions that call them.
\<close>

datatype error =
    Errorf string
  | Wrapf string error
  | ParseErr string string
  | NumErr string string string
  | AllocErr allocatorError
  | ExtErr string string

section \<open>strconv\<close>

definition digit_char :: "nat \<Rightarrow> char" where
  "digit_char d = char_of (48 + d)"

definition is_digit :: "char \<Rightarrow> bool" where
  "is_digit c \<longleftrightarrow> (48::nat) \<le> of_char c \<and> of_char c \<le> (57::nat)"

definition digit_val :: "char \<Rightarrow> nat" where
  "digit_val c = of_char c - 48"

fun nat_str :: "nat \<Rightarrow> string" where
  "nat_str n = (if n < 10 then [digit_char n] else nat_str (n div 10) @ [digit_char (n mod 10)])"

declare nat_str.simps [simp del]

definition Itoa :: "int \<Rightarrow> string" where
  "Itoa i = (if i < 0 then CHR ''-'' # nat_str (nat (- i)) else nat_str (nat i))"

definition digits_val :: "string \<Rightarrow> nat" where
  "digits_val ds = foldl (\<lambda>a c. a * 10 + digit_val c) 0 ds"

text \<open>\<open>strconv.Atoi\<close>: an optional sign and at least one decimal digit; the value fits in 64 bits.\<close>

definition Atoi :: "string \<Rightarrow> (error, int) result" where
  "Atoi s =
     (let (neg, ds) = (case s of
          [] \<Rightarrow> (False, [])
        | c # cs \<Rightarrow> if c = CHR ''-'' then (True, cs) else if c = CHR ''+'' then (False, cs)
                   else (False, s))
      in if ds = [] \<or> \<not> list_all is_digit ds then Inl (NumErr ''Atoi'' s ''invalid syntax'')
         else let n = int (digits_val ds)
              in if neg then (if n \<le> 2 ^ 63 then Inr (- n)
                              else Inl (NumErr ''Atoi'' s ''value out of range''))
                 else (if n < 2 ^ 63 then Inr n
                       else Inl (NumErr ''Atoi'' s ''value out of range'')))"

section \<open>strings\<close>

fun HasPrefix :: "string \<Rightarrow> string \<Rightarrow> bool" where
  "HasPrefix s [] = True"
| "HasPrefix [] (p # ps) = False"
| "HasPrefix (c # s) (p # ps) = (c = p \<and> HasPrefix s ps)"

fun Contains_str :: "string \<Rightarrow> string \<Rightarrow> bool" where
  "Contains_str [] sub = HasPrefix [] sub"
| "Contains_str (c # s) sub = (HasPrefix (c # s) sub \<or> Contains_str s sub)"

definition TrimPrefix :: "string \<Rightarrow> string \<Rightarrow> string" where
  "TrimPrefix s p = (if HasPrefix s p then drop (length p) s else s)"

text \<open>\<open>strings.ReplaceAll\<close> with one-byte old and new strings.\<close>

definition ReplaceAll :: "string \<Rightarrow> char \<Rightarrow> char \<Rightarrow> string" where
  "ReplaceAll s a b = map (\<lambda>c. if c = a then b else c) s"

text \<open>\<open>strings.Split\<close> with a one-byte separator: never empty, keeps empty fields.\<close>

fun Split :: "string \<Rightarrow> char \<Rightarrow> string list" where
  "Split [] sep = [[]]"
| "Split (c # s) sep =
     (if c = sep then [] # Split s sep
      else (case Split s sep of [] \<Rightarrow> [[c]] | f # fs \<Rightarrow> (c # f) # fs))"

section \<open>Error texts\<close>

text \<open>\<open>strconv.Quote\<close> on printable ASCII: quotes and backslashes are escaped.\<close>

definition quote_str :: "string \<Rightarrow> string" where
  "quote_str s = CHR 0x22 # concat (map (\<lambda>c. if c = CHR 0x22 \<or> c = CHR 0x5C then [CHR 0x5C, c] else [c]) s)
     @ [CHR 0x22]"

text \<open>The \<open>Error()\<close> method.\<close>

fun err_text :: "error \<Rightarrow> string" where
  "err_text (Errorf m) = m"
| "err_text (Wrapf p e) = p @ err_text e"
| "err_text (ParseErr ty txt) = ''invalid '' @ ty @ '': '' @ txt"
| "err_text (NumErr f s r) = ''strconv.'' @ f @ '': parsing '' @ quote_str s @ '': '' @ r"
| "err_text (AllocErr a) = message a"
| "err_text (ExtErr r m) = m"

section \<open>math\<close>

text \<open>
  \<open>int64(math.Pow(2, float64(n)))\<close> for the exponents the code uses (at most 32): an exact
  power of two, and the truncation of a fraction, 0, for a negative exponent.
\<close>

definition pow2_int64 :: "int \<Rightarrow> nat" where
  "pow2_int64 n = (if 0 \<le> n then 2 ^ nat n else 0)"

section \<open>Lemmas\<close>

lemma of_char_digit_char: "d < 10 \<Longrightarrow> of_char (digit_char d) = 48 + d"
  by (simp add: digit_char_def)

lemma is_digit_digit_char [simp]: "d < 10 \<Longrightarrow> is_digit (digit_char d)"
  by (simp add: is_digit_def of_char_digit_char)

lemma digit_val_digit_char [simp]: "d < 10 \<Longrightarrow> digit_val (digit_char d) = d"
  by (simp add: digit_val_def of_char_digit_char)

lemma nat_str_digits: "list_all is_digit (nat_str n)"
proof (induction n rule: nat_str.induct)
  case (1 n)
  then show ?case by (cases "n < 10") (simp_all add: nat_str.simps [of n])
qed

lemma nat_str_nonempty [simp]: "nat_str n \<noteq> []"
  by (subst nat_str.simps) simp

lemma digits_val_append [simp]:
  "digits_val (xs @ [c]) = digits_val xs * 10 + digit_val c"
  by (simp add: digits_val_def)

lemma digits_val_nat_str [simp]: "digits_val (nat_str n) = n"
proof (induction n rule: nat_str.induct)
  case (1 n)
  show ?case
  proof (cases "n < 10")
    case True
    then show ?thesis by (simp add: nat_str.simps [of n] digits_val_def)
  next
    case False
    with 1 show ?thesis by (simp add: nat_str.simps [of n])
  qed
qed

lemma nat_str_inject [simp]: "nat_str m = nat_str n \<longleftrightarrow> m = n"
  by (metis digits_val_nat_str)

lemma is_digit_not_special:
  "is_digit c \<Longrightarrow> c \<noteq> CHR ''.'' \<and> c \<noteq> CHR ''/'' \<and> c \<noteq> CHR '':'' \<and> c \<noteq> CHR ''-''
     \<and> c \<noteq> CHR ''+'' \<and> c \<noteq> CHR ''%''"
  by (auto simp: is_digit_def)

lemma nat_str_special:
  assumes "c \<in> {CHR ''.'', CHR ''/'', CHR '':'', CHR ''-'', CHR ''+'', CHR ''%''}"
  shows "c \<notin> set (nat_str n)"
proof
  assume "c \<in> set (nat_str n)"
  with nat_str_digits [of n] have "is_digit c" by (simp add: list_all_iff)
  with assms show False using is_digit_not_special by auto
qed

lemma Itoa_nat: "0 \<le> i \<Longrightarrow> Itoa i = nat_str (nat i)"
  by (simp add: Itoa_def)

lemma Itoa_inject: "Itoa i = Itoa j \<longleftrightarrow> i = j"
proof -
  have hd: "CHR ''-'' # xs \<noteq> nat_str m" for xs m
    using nat_str_special [of "CHR ''-''" m] by (metis insertI1 insertI2 list.set_intros(1))
  show ?thesis using hd by (auto simp: Itoa_def dest: sym)
qed

lemma Atoi_nat_str:
  assumes "n < 2 ^ 63"
  shows "Atoi (nat_str n) = Inr (int n)"
proof (cases "nat_str n")
  case Nil
  then show ?thesis by simp
next
  case (Cons c cs)
  then have "c \<noteq> CHR ''-''" "c \<noteq> CHR ''+''"
    using nat_str_special [of _ n] by auto
  moreover have "list_all is_digit (c # cs)" using nat_str_digits [of n] Cons by simp
  moreover have "digits_val (c # cs) = n" using Cons by (metis digits_val_nat_str)
  moreover have "int n < 2 ^ 63" using assms by (metis of_nat_less_iff of_nat_numeral of_nat_power)
  ultimately show ?thesis unfolding Cons Atoi_def by simp
qed

lemma HasPrefix_append [simp]: "HasPrefix (p @ s) p"
  by (induction p) auto

lemma HasPrefix_iff: "HasPrefix s p \<longleftrightarrow> (\<exists>r. s = p @ r)"
  by (induction s p rule: HasPrefix.induct) auto

lemma Contains_str_iff: "Contains_str s sub \<longleftrightarrow> (\<exists>a b. s = a @ sub @ b)"
proof (induction s)
  case Nil
  show ?case by (cases sub) auto
next
  case (Cons c s)
  show ?case
  proof
    assume "Contains_str (c # s) sub"
    then consider "HasPrefix (c # s) sub" | "Contains_str s sub" by auto
    then show "\<exists>a b. c # s = a @ sub @ b"
    proof cases
      case 1
      then show ?thesis by (metis HasPrefix_iff append_Nil)
    next
      case 2
      then show ?thesis using Cons.IH by (metis append_Cons)
    qed
  next
    assume "\<exists>a b. c # s = a @ sub @ b"
    then obtain a b where ab: "c # s = a @ sub @ b" by blast
    show "Contains_str (c # s) sub"
    proof (cases a)
      case Nil
      with ab have "HasPrefix (c # s) sub" by (metis HasPrefix_append append_Nil)
      then show ?thesis by simp
    next
      case (Cons x xs)
      with ab Cons.IH show ?thesis by auto
    qed
  qed
qed

lemma Contains_str_mid [simp]: "Contains_str (a @ sub @ b) sub"
  by (auto simp: Contains_str_iff)

lemma Contains_str_prefixed: "Contains_str s sub \<Longrightarrow> Contains_str (p @ s) sub"
  by (metis Contains_str_iff append.assoc)

lemma TrimPrefix_append [simp]: "TrimPrefix (p @ s) p = s"
  by (simp add: TrimPrefix_def)

lemma Split_nonempty [simp]: "Split s sep \<noteq> []"
  by (induction s) (auto split: list.splits)

lemma Split_no_sep: "sep \<notin> set s \<Longrightarrow> Split s sep = [s]"
  by (induction s) auto

lemma Split_append: "sep \<notin> set a \<Longrightarrow> Split (a @ sep # b) sep = a # Split b sep"
  by (induction a) auto

lemma pow2_int64_simps [simp]:
  "0 \<le> n \<Longrightarrow> pow2_int64 n = 2 ^ nat n"
  "n < 0 \<Longrightarrow> pow2_int64 n = 0"
  by (simp_all add: pow2_int64_def)

end
