(* ===== verification/Go_Net.thy ===== *)
theory Go_Net
  imports Go_Std
begin

unbundle bit_operations_syntax

text \<open>
  Go's \<open>net\<close> package as the repository uses it: addresses as byte slices of length 4 or
  16, prefix masks, \<open>IPNet.Contains\<close>, \<open>ParseCIDR\<close> for IPv4 and IPv6 text, and the dotted
  form of an IPv4 address. The lemmas read a byte slice as a big-endian number
  (\<open>ipval\<close>): masking clears the low bits, \<open>Contains\<close> compares the leading ones, and
  printing an IPv4 prefix and parsing it again gives the prefix back.
\<close>

type_synonym IP = "byte list"
type_synonym IPMask = "byte list"

record IPNet =
  IPNet_IP :: IP
  IPNet_Mask :: IPMask

section \<open>Addresses and masks\<close>

text \<open>\<open>IP.To4\<close>: the 4-byte form of an IPv4 or IPv4-mapped address; \<open>None\<close> is nil.\<close>

definition To4 :: "IP \<Rightarrow> IP option" where
  "To4 ip =
     (if length ip = 4 then Some ip
      else if length ip = 16 \<and> take 10 ip = replicate 10 0 \<and> ip ! 10 = 255 \<and> ip ! 11 = 255
      then Some (drop 12 ip) else None)"

text \<open>The loop of \<open>CIDRMask\<close>: \<open>l\<close> bytes are left to write and \<open>n\<close> ones to place.\<close>

fun mask_bytes :: "nat \<Rightarrow> nat \<Rightarrow> IPMask" where
  "mask_bytes 0 n = []"
| "mask_bytes (Suc l) n =
     (if 8 \<le> n then 255 # mask_bytes l (n - 8)
      else NOT (drop_bit n 255) # mask_bytes l 0)"

definition CIDRMask :: "int \<Rightarrow> int \<Rightarrow> IPMask option" where
  "CIDRMask ones bits =
     (if bits \<noteq> 32 \<and> bits \<noteq> 128 then None
      else if ones < 0 \<or> ones > bits then None
      else Some (mask_bytes (nat bits div 8) (nat ones)))"

text \<open>\<open>simpleMaskLength\<close>: the number of leading ones, \<open>None\<close> (-1 in Go) when a one follows a zero.\<close>

fun count_ones :: "nat \<Rightarrow> byte \<Rightarrow> nat \<times> byte" where
  "count_ones 0 v = (0, v)"
| "count_ones (Suc f) v =
     (if v AND 128 \<noteq> 0 then (let (n, v') = count_ones f (push_bit 1 v) in (Suc n, v')) else (0, v))"

fun simpleMaskLength :: "IPMask \<Rightarrow> nat option" where
  "simpleMaskLength [] = Some 0"
| "simpleMaskLength (v # m) =
     (if v = 255 then map_option ((+) 8) (simpleMaskLength m)
      else (let (n, v') = count_ones 8 v
            in if v' \<noteq> 0 then None
               else if list_all (\<lambda>b. b = 0) m then Some n else None))"

definition Mask_Size :: "IPMask \<Rightarrow> int \<times> int" where
  "Mask_Size m = (case simpleMaskLength m of None \<Rightarrow> (0, 0) | Some n \<Rightarrow> (int n, 8 * int (length m)))"

definition and_bytes :: "byte list \<Rightarrow> byte list \<Rightarrow> byte list" where
  "and_bytes xs ys = map2 (AND) xs ys"

definition v4InV6Prefix :: "byte list" where
  "v4InV6Prefix = [0, 0, 0, 0, 0, 0, 0, 0, 0, 0, 255, 255]"

text \<open>\<open>IP.Mask\<close>; \<open>None\<close> is nil.\<close>

definition IP_mask :: "IP \<Rightarrow> IPMask \<Rightarrow> IP option" where
  "IP_mask ip m =
     (let m = (if length m = 16 \<and> length ip = 4 \<and> list_all (\<lambda>b. b = 255) (take 12 m)
               then drop 12 m else m);
          ip = (if length m = 4 \<and> length ip = 16 \<and> take 12 ip = v4InV6Prefix
                then drop 12 ip else ip)
      in if length ip \<noteq> length m then None else Some (and_bytes ip m))"

text \<open>\<open>networkNumberAndMask\<close>; \<open>None\<close> is the pair of nils.\<close>

definition networkNumberAndMask :: "IPNet \<Rightarrow> (IP \<times> IPMask) option" where
  "networkNumberAndMask n =
     (let ip = (case To4 (IPNet_IP n) of Some x \<Rightarrow> x | None \<Rightarrow> IPNet_IP n);
          m = IPNet_Mask n
      in if To4 (IPNet_IP n) = None \<and> length ip \<noteq> 16 then None
         else if length m = 4 then (if length ip \<noteq> 4 then None else Some (ip, m))
         else if length m = 16 then (if length ip = 4 then Some (ip, drop 12 m) else Some (ip, m))
         else None)"

definition IPNet_Contains :: "IPNet \<Rightarrow> IP \<Rightarrow> bool" where
  "IPNet_Contains n ip =
     (let (nn, m) = (case networkNumberAndMask n of Some p \<Rightarrow> p | None \<Rightarrow> ([], []));
          ip = (case To4 ip of Some x \<Rightarrow> x | None \<Rightarrow> ip)
      in length ip = length nn \<and> and_bytes nn m = and_bytes ip m)"

section \<open>Parsing\<close>

text \<open>
  \<open>parseIPv4Fields\<close>: the scan state is the current value, the number of its digits, the
  fields stored so far and the previous character (\<open>None\<close> at the start).
\<close>

fun v4_fields :: "nat \<Rightarrow> nat \<Rightarrow> byte list \<Rightarrow> char option \<Rightarrow> string \<Rightarrow> byte list option" where
  "v4_fields val digLen fs prev [] =
     (if length fs < 3 then None else Some (fs @ [of_nat val]))"
| "v4_fields val digLen fs prev (c # s) =
     (if is_digit c then
        (if digLen = 1 \<and> val = 0 then None
         else let val' = val * 10 + digit_val c
              in if val' > 255 then None else v4_fields val' (Suc digLen) fs (Some c) s)
      else if c = CHR ''.'' then
        (if prev = None \<or> s = [] \<or> prev = Some (CHR ''.'') then None
         else if length fs = 3 then None
         else v4_fields 0 0 (fs @ [of_nat val]) (Some c) s)
      else None)"

definition parseIPv4 :: "string \<Rightarrow> IP option" where
  "parseIPv4 s = v4_fields 0 0 [] None s"

definition hex_val :: "char \<Rightarrow> nat option" where
  "hex_val c =
     (let n = of_char c :: nat
      in if 48 \<le> n \<and> n \<le> 57 then Some (n - 48)
         else if 97 \<le> n \<and> n \<le> 102 then Some (n - 97 + 10)
         else if 65 \<le> n \<and> n \<le> 70 then Some (n - 65 + 10)
         else None)"

text \<open>
  The inner loop of \<open>parseIPv6\<close>: reads hex digits, \<open>off\<close> already read with value
  \<open>acc\<close>. \<open>None\<close> on a fifth digit; else the number of digits, the value and the rest.
\<close>

fun hex_group :: "nat \<Rightarrow> nat \<Rightarrow> string \<Rightarrow> (nat \<times> nat \<times> string) option" where
  "hex_group off acc [] = Some (off, acc, [])"
| "hex_group off acc (c # s) =
     (case hex_val c of
        None \<Rightarrow> Some (off, acc, c # s)
      | Some d \<Rightarrow>
          let acc' = acc * 16 + d
          in if off > 3 then None else if acc' > 65535 then None
             else hex_group (Suc off) acc' s)"

text \<open>
  The outer loop of \<open>parseIPv6\<close>: \<open>ip\<close> holds the bytes written so far (\<open>i\<close> is its
  length), \<open>ell\<close> the position of the ellipsis. The result is the bytes, the ellipsis and
  the text that is left when the loop ends. Every round writes two bytes, so nine rounds
  are enough: at most eight run before \<open>i\<close> reaches 16.
\<close>

fun v6_loop :: "nat \<Rightarrow> byte list \<Rightarrow> nat option \<Rightarrow> string \<Rightarrow> (byte list \<times> nat option \<times> string) option" where
  "v6_loop 0 ip ell s = None"
| "v6_loop (Suc fuel) ip ell s =
     (if 16 \<le> length ip then Some (ip, ell, s)
      else case hex_group 0 0 s of
        None \<Rightarrow> None
      | Some (off, acc, r) \<Rightarrow>
          if off = 0 then None
          else if r \<noteq> [] \<and> hd r = CHR ''.'' then
            (if ell = None \<and> length ip \<noteq> 12 then None
             else if length ip + 4 > 16 then None
             else case v4_fields 0 0 [] None s of
                    None \<Rightarrow> None
                  | Some f \<Rightarrow> Some (ip @ f, ell, []))
          else
            let ip' = ip @ [of_nat (acc div 256), of_nat acc]
            in case r of
                 [] \<Rightarrow> Some (ip', ell, [])
               | c # r' \<Rightarrow>
                   if c \<noteq> CHR '':'' then None
                   else case r' of
                     [] \<Rightarrow> None
                   | d # r'' \<Rightarrow>
                       if d = CHR '':'' then
                         (if ell \<noteq> None then None
                          else if r'' = [] then Some (ip', Some (length ip'), [])
                          else v6_loop fuel ip' (Some (length ip')) r'')
                       else v6_loop fuel ip' ell r')"

text \<open>
  \<open>parseIPv6\<close> for an address without a zone: \<open>ParseCIDR\<close> rejects every address with
  one, and \<open>parseIPv6\<close> itself rejects an empty one.
\<close>

definition parseIPv6 :: "string \<Rightarrow> IP option" where
  "parseIPv6 s =
     (if CHR ''%'' \<in> set s then None
      else
        let lead = (HasPrefix s ''::''); s' = (if lead then drop 2 s else s);
            ell = (if lead then Some 0 else None)
        in if lead \<and> s' = [] then Some (replicate 16 0)
           else case v6_loop 9 [] ell s' of
                  None \<Rightarrow> None
                | Some (ip, ell', rest) \<Rightarrow>
                    if rest \<noteq> [] then None
                    else if length ip < 16 then
                      (case ell' of
                         None \<Rightarrow> None
                       | Some e \<Rightarrow> Some (take e ip @ replicate (16 - length ip) 0 @ drop e ip))
                    else (if ell' \<noteq> None then None else Some ip))"

text \<open>
  \<open>netip.ParseAddr\<close>: the first of the characters dot, colon and percent decides the
  family. The result is the family's bit length and the 16-byte form, or 4-byte for IPv4.
\<close>

fun addr_family :: "string \<Rightarrow> char option" where
  "addr_family [] = None"
| "addr_family (c # s) =
     (if c \<in> {CHR ''.'', CHR '':'', CHR ''%''} then Some c else addr_family s)"

definition ParseAddr :: "string \<Rightarrow> (int \<times> IP) option" where
  "ParseAddr s =
     (case addr_family s of
        None \<Rightarrow> None
      | Some c \<Rightarrow>
          if c = CHR ''.'' then map_option (\<lambda>ip. (32, ip)) (parseIPv4 s)
          else if c = CHR '':'' then map_option (\<lambda>ip. (128, ip)) (parseIPv6 s)
          else None)"

text \<open>\<open>dtoi\<close>: decimal to integer, stopping with a failure at 0xFFFFFF.\<close>

fun dtoi_loop :: "nat \<Rightarrow> string \<Rightarrow> (nat \<times> string) option" where
  "dtoi_loop n [] = Some (n, [])"
| "dtoi_loop n (c # s) =
     (if is_digit c then
        (let n' = n * 10 + digit_val c in if n' \<ge> 16777215 then None else dtoi_loop n' s)
      else Some (n, c # s))"

definition dtoi :: "string \<Rightarrow> (nat \<times> string) option" where
  "dtoi s = (case s of [] \<Rightarrow> None | c # _ \<Rightarrow> if is_digit c then dtoi_loop 0 s else None)"

definition ParseCIDR :: "string \<Rightarrow> (error, IP \<times> IPNet) result" where
  "ParseCIDR s =
     (let err = Inl (ParseErr ''CIDR address'' s)
      in if CHR ''/'' \<notin> set s then err
         else
           let addr = takeWhile (\<lambda>c. c \<noteq> CHR ''/'') s;
               mask = tl (dropWhile (\<lambda>c. c \<noteq> CHR ''/'') s)
           in case ParseAddr addr of
                None \<Rightarrow> err
              | Some (bitLen, ip) \<Rightarrow>
                  (case dtoi mask of
                     None \<Rightarrow> err
                   | Some (n, rest) \<Rightarrow>
                       if rest \<noteq> [] \<or> int n > bitLen then err
                       else case CIDRMask (int n) bitLen of
                              None \<Rightarrow> err
                            | Some m \<Rightarrow>
                                let ip16 = (if length ip = 4 then v4InV6Prefix @ ip else ip)
                                in Inr (ip16, \<lparr>IPNet_IP = (case IP_mask ip16 m of None \<Rightarrow> [] | Some x \<Rightarrow> x),
                                               IPNet_Mask = m\<rparr>)))"

section \<open>Printing\<close>

text \<open>\<open>IP.String\<close> of a 4-byte address.\<close>

fun IP_String :: "IP \<Rightarrow> string" where
  "IP_String [] = []"
| "IP_String [b] = nat_str (unat b)"
| "IP_String (b # bs) = nat_str (unat b) @ CHR ''.'' # IP_String bs"

section \<open>Byte slices as numbers\<close>

fun ipval :: "byte list \<Rightarrow> nat" where
  "ipval [] = 0"
| "ipval (b # bs) = unat b * 2 ^ (8 * length bs) + ipval bs"

lemma unat_byte_less [simp]: "unat (b::byte) < 256"
  using unsigned_less [of b] by simp

lemma ipval_less [ip_arith]: "ipval bs < 2 ^ (8 * length bs)"
proof (induction bs)
  case Nil
  show ?case by simp
next
  case (Cons b bs)
  have "unat b * 2 ^ (8 * length bs) + ipval bs < (unat b + 1) * 2 ^ (8 * length bs)"
    using Cons.IH by simp
  also have "\<dots> \<le> 256 * 2 ^ (8 * length bs)"
    using unat_byte_less [of b] by (intro mult_le_mono1) linarith
  finally show ?case by (simp add: power_add)
qed

lemma ipval_append: "ipval (xs @ ys) = ipval xs * 2 ^ (8 * length ys) + ipval ys"
  by (induction xs) (simp_all add: power_add algebra_simps)

lemma ipval_inject:
  "length xs = length ys \<Longrightarrow> ipval xs = ipval ys \<longleftrightarrow> xs = ys"
proof (induction xs ys rule: list_induct2)
  case Nil
  show ?case by simp
next
  case (Cons x xs y ys)
  have d: "(unat b * 2 ^ (8 * length bs) + ipval bs) div 2 ^ (8 * length bs) = unat b"
      "(unat b * 2 ^ (8 * length bs) + ipval bs) mod 2 ^ (8 * length bs) = ipval bs"
    for b :: byte and bs
    using ipval_less [of bs] by simp_all
  show ?case
    using d [of x xs] d [of y ys] Cons by (metis ipval.simps(2) list.inject word_unat_eq_iff)
qed

lemma ipval_replicate_0 [simp]: "ipval (replicate n 0) = 0"
  by (induction n) simp_all

section \<open>Masks\<close>

lemma mask_byte_eq:
  "n \<le> 8 \<Longrightarrow> (b::byte) AND NOT (drop_bit n 255) = push_bit (8 - n) (drop_bit (8 - n) b)"
proof -
  assume n: "n \<le> 8"
  have m: "(255::byte) = - 1" by simp
  show ?thesis
    unfolding m by (rule bit_word_eqI) (use n in \<open>auto simp: bit_simps\<close>)
qed

lemma unat_mask_byte:
  assumes "n \<le> 8"
  shows "unat ((b::byte) AND NOT (drop_bit n 255)) = unat b div 2 ^ (8 - n) * 2 ^ (8 - n)"
proof -
  have "unat b div 2 ^ (8 - n) * 2 ^ (8 - n) < 256"
    using unat_byte_less [of b] by (meson div_times_less_eq_dividend le_less_trans)
  moreover have "unat (push_bit k (drop_bit k b)) = take_bit 8 (push_bit k (drop_bit k (unat b)))" for k
    by (simp only: unsigned_push_bit_eq unsigned_drop_bit_eq) (simp add: take_bit_nat_eq_self)
  ultimately show ?thesis unfolding mask_byte_eq [OF assms]
    by (simp add: push_bit_eq_mult drop_bit_eq_div take_bit_nat_eq_self)
qed

lemma and_255 [simp]: "(b::byte) AND 255 = b"
proof -
  have m: "(255::byte) = - 1" by simp
  show ?thesis unfolding m by simp
qed

lemma length_mask_bytes [simp]: "length (mask_bytes l n) = l"
  by (induction l n rule: mask_bytes.induct) auto

lemma mask_bytes_0: "mask_bytes l 0 = replicate l 0"
  by (induction l) simp_all

lemma length_and_bytes [simp]: "length (and_bytes xs ys) = min (length xs) (length ys)"
  by (simp add: and_bytes_def)

lemma and_bytes_Cons [simp]: "and_bytes (x # xs) (y # ys) = (x AND y) # and_bytes xs ys"
  by (simp add: and_bytes_def)

lemma and_bytes_Nil [simp]: "and_bytes [] ys = []" "and_bytes xs [] = []"
  by (simp_all add: and_bytes_def)

lemma and_bytes_replicate_0: "length xs = n \<Longrightarrow> and_bytes xs (replicate n 0) = replicate n 0"
  by (induction xs arbitrary: n) auto

lemma ipval_masked [ip_arith]:
  assumes "length ip = l" and "n \<le> 8 * l"
  shows "ipval (and_bytes ip (mask_bytes l n))
       = ipval ip div 2 ^ (8 * l - n) * 2 ^ (8 * l - n)"
  using assms
proof (induction l n arbitrary: ip rule: mask_bytes.induct)
  case (1 n)
  then show ?case by simp
next
  case (2 l n)
  then obtain b bs where ip: "ip = b # bs" and len: "length bs = l"
    by (cases ip) auto
  show ?case
  proof (cases "8 \<le> n")
    case True
    let ?h = "8 * l - (n - 8)"
    from True "2.prems" have h: "?h \<le> 8 * l" "8 * Suc l - n = ?h" by auto
    have IH: "ipval (and_bytes bs (mask_bytes l (n - 8))) = ipval bs div 2 ^ ?h * 2 ^ ?h"
      using 2 True len by simp
    have "(2::nat) ^ (8 * l) = 2 ^ (8 * l - ?h) * 2 ^ ?h"
      using h by (simp flip: power_add)
    then have "unat b * 2 ^ (8 * l) + ipval bs div 2 ^ ?h * 2 ^ ?h
        = (unat b * 2 ^ (8 * l - ?h) + ipval bs div 2 ^ ?h) * 2 ^ ?h"
      by (simp add: algebra_simps)
    also have "\<dots> = (unat b * 2 ^ (8 * l) + ipval bs) div 2 ^ ?h * 2 ^ ?h"
      by (simp only: div_shift_block [OF h(1)])
    finally show ?thesis using True IH ip len h by simp
  next
    case False
    have v: "ipval bs < 2 ^ (8 * l)" using ipval_less [of bs] len by simp
    have e: "8 * Suc l - n = 8 * l + (8 - n)" using False by simp
    have "ipval (and_bytes ip (mask_bytes (Suc l) n))
        = unat b div 2 ^ (8 - n) * 2 ^ (8 - n) * 2 ^ (8 * l)"
      using False len ip by (simp add: mask_bytes_0 and_bytes_replicate_0 unat_mask_byte)
    also have "\<dots> = unat b div 2 ^ (8 - n) * 2 ^ (8 * l + (8 - n))"
      by (simp add: power_add)
    also have "\<dots> = (unat b * 2 ^ (8 * l) + ipval bs) div 2 ^ (8 * l + (8 - n)) * 2 ^ (8 * l + (8 - n))"
      by (simp only: div_drop_block [OF v])
    finally show ?thesis using ip len e by simp
  qed
qed

lemma masked_eq_iff [ip_arith]:
  assumes "length a = l" and "length b = l" and "n \<le> 8 * l"
  shows "and_bytes a (mask_bytes l n) = and_bytes b (mask_bytes l n)
     \<longleftrightarrow> ipval a div 2 ^ (8 * l - n) = ipval b div 2 ^ (8 * l - n)"
proof -
  have "and_bytes a (mask_bytes l n) = and_bytes b (mask_bytes l n)
     \<longleftrightarrow> ipval (and_bytes a (mask_bytes l n)) = ipval (and_bytes b (mask_bytes l n))"
    by (rule ipval_inject [symmetric]) (simp add: assms)
  then show ?thesis by (simp add: ipval_masked assms)
qed


lemma less8_cases:
  "(n::nat) < 8 \<Longrightarrow> n = 0 \<or> n = 1 \<or> n = 2 \<or> n = 3 \<or> n = 4 \<or> n = 5 \<or> n = 6 \<or> n = 7"
  by arith

lemma count_ones_numeral:
  "count_ones (numeral k) v =
     (if v AND 128 \<noteq> 0 then (let (n, v') = count_ones (pred_numeral k) (push_bit 1 v) in (Suc n, v'))
      else (0, v))"
  by (simp add: numeral_eq_Suc)

lemma count_ones_mask_byte: "n < 8 \<Longrightarrow> count_ones 8 (NOT (drop_bit n 255)) = (n, 0)"
  by (drule less8_cases) (elim disjE; simp add: count_ones_numeral)

lemma mask_byte_neq_255: "n < 8 \<Longrightarrow> NOT (drop_bit n 255) \<noteq> (255::byte)"
  by (drule less8_cases) (elim disjE; simp)

lemma simpleMaskLength_mask_bytes:
  "n \<le> 8 * l \<Longrightarrow> simpleMaskLength (mask_bytes l n) = Some n"
proof (induction l n rule: mask_bytes.induct)
  case (1 n)
  then show ?case by simp
next
  case (2 l n)
  show ?case
  proof (cases "8 \<le> n")
    case True
    with 2 show ?thesis by simp
  next
    case False
    then show ?thesis
      using count_ones_mask_byte [of n] mask_byte_neq_255 [of n]
      by (simp add: mask_bytes_0 list_all_iff)
  qed
qed

lemma Mask_Size_mask_bytes [ip_arith]:
  "n \<le> 8 * l \<Longrightarrow> Mask_Size (mask_bytes l n) = (int n, 8 * int l)"
  by (simp add: Mask_Size_def simpleMaskLength_mask_bytes)

lemma drop_mask_bytes: "drop j (mask_bytes l n) = mask_bytes (l - j) (n - 8 * j)"
proof (induction l n arbitrary: j rule: mask_bytes.induct)
  case (1 n)
  then show ?case by simp
next
  case (2 l n)
  show ?case
  proof (cases j)
    case 0
    then show ?thesis by simp
  next
    case (Suc j')
    with 2 show ?thesis by (cases "8 \<le> n") (auto simp: algebra_simps)
  qed
qed

section \<open>The effective prefix of a parsed CIDR\<close>

text \<open>The form \<open>Contains\<close> compares: the 4-byte form where there is one.\<close>

definition canon :: "IP \<Rightarrow> IP" where
  "canon ip = (case To4 ip of Some x \<Rightarrow> x | None \<Rightarrow> ip)"

lemma To4_length: "To4 ip = Some x \<Longrightarrow> length x = 4"
  by (auto simp: To4_def split: if_splits)

lemma To4_4 [simp]: "length ip = 4 \<Longrightarrow> To4 ip = Some ip"
  by (simp add: To4_def)

lemma canon_4 [simp]: "length ip = 4 \<Longrightarrow> canon ip = ip"
  by (simp add: canon_def)

lemma canon_canon [simp]: "canon (canon ip) = canon ip"
  by (auto simp: canon_def To4_length split: option.splits)

text \<open>
  \<open>net_form n nn l k\<close>: the network \<open>n\<close> compares as the \<open>l\<close>-byte address \<open>nn\<close> under a
  prefix of length \<open>k\<close>, and \<open>nn\<close> has no bit set beyond the prefix.
\<close>

definition net_form :: "IPNet \<Rightarrow> IP \<Rightarrow> nat \<Rightarrow> nat \<Rightarrow> bool" where
  "net_form n nn l k \<longleftrightarrow>
     networkNumberAndMask n = Some (nn, mask_bytes l k) \<and> nn = canon (IPNet_IP n)
     \<and> length nn = l \<and> (l = 4 \<or> l = 16) \<and> k \<le> 8 * l \<and> ipval nn mod 2 ^ (8 * l - k) = 0"

lemma Contains_net_form [ip_arith]:
  assumes "net_form n nn l k"
  shows "IPNet_Contains n ip \<longleftrightarrow>
    length (canon ip) = l \<and> ipval (canon ip) \<in> block (ipval nn) (2 ^ (8 * l - k))"
proof -
  from assms have nn: "networkNumberAndMask n = Some (nn, mask_bytes l k)" "length nn = l"
    and k: "k \<le> 8 * l" and al: "ipval nn mod 2 ^ (8 * l - k) = 0"
    by (auto simp: net_form_def)
  have "IPNet_Contains n ip \<longleftrightarrow> length (canon ip) = l
      \<and> and_bytes nn (mask_bytes l k) = and_bytes (canon ip) (mask_bytes l k)"
    by (simp add: IPNet_Contains_def nn canon_def Let_def)
  also have "\<dots> \<longleftrightarrow> length (canon ip) = l
      \<and> ipval (canon ip) div 2 ^ (8 * l - k) = ipval nn div 2 ^ (8 * l - k)"
    using masked_eq_iff [of nn l "canon ip" k] nn k by auto
  also have "\<dots> \<longleftrightarrow> length (canon ip) = l \<and> ipval (canon ip) \<in> block (ipval nn) (2 ^ (8 * l - k))"
    using aligned_mem_block [OF al, of "ipval (canon ip)"] by simp
  finally show ?thesis .
qed

lemma v4_fields_length:
  "v4_fields val dl fs prev s = Some r \<Longrightarrow> length fs \<le> 3 \<Longrightarrow> length r = 4"
  by (induction val dl fs prev s rule: v4_fields.induct) (auto split: if_splits simp: Let_def)

lemma parseIPv4_length: "parseIPv4 s = Some ip \<Longrightarrow> length ip = 4"
  by (auto simp: parseIPv4_def dest: v4_fields_length)

lemma v6_loop_length:
  "v6_loop f ip e s = Some (ip', e', r) \<Longrightarrow> length ip \<le> 16 \<Longrightarrow> even (length ip)
     \<Longrightarrow> (\<forall>x. e = Some x \<longrightarrow> x \<le> length ip)
     \<Longrightarrow> length ip' \<le> 16 \<and> (\<forall>x. e' = Some x \<longrightarrow> x \<le> length ip')"
proof (induction f arbitrary: ip e s ip' e' r)
  case 0
  then show ?case by simp
next
  case (Suc f)
  show ?case
  proof (cases "16 \<le> length ip")
    case True
    with Suc.prems show ?thesis by auto
  next
    case False
    with Suc.prems(3) have l: "length ip + 2 \<le> 16" by presburger
    from False Suc.prems(1) obtain off acc t where "hex_group 0 0 s = Some (off, acc, t)"
      by (auto split: option.splits)
    with Suc.prems False l show ?thesis
      by (auto split: if_splits option.splits list.splits simp: Let_def
          dest!: Suc.IH v4_fields_length)
  qed
qed

text \<open>
  The round bound of \<open>v6_loop\<close> is enough: with more rounds than two-byte groups left,
  extra rounds change nothing.
\<close>

lemma v6_loop_enough:
  "even (length ip) \<Longrightarrow> 16 - length ip < 2 * f \<Longrightarrow> v6_loop (f + g) ip e s = v6_loop f ip e s"
proof (induction f arbitrary: ip e s)
  case 0
  then show ?case by simp
next
  case (Suc f)
  show ?case
  proof (cases "16 \<le> length ip")
    case True
    then show ?thesis by simp
  next
    case False
    with Suc.prems have "16 - (length ip + 2) < 2 * f" by presburger
    with Suc have IH: "v6_loop (f + g) (ip @ [x, y]) e' s' = v6_loop f (ip @ [x, y]) e' s'" for x y e' s'
      by simp
    from False show ?thesis
      by (simp add: IH Let_def split: option.split list.split)
  qed
qed

lemma parseIPv6_length: "parseIPv6 s = Some ip \<Longrightarrow> length ip = 16"
  by (auto simp: parseIPv6_def Let_def split: if_splits option.splits dest!: v6_loop_length)

lemma ParseAddr_length: "ParseAddr s = Some (b, ip) \<Longrightarrow> b = 8 * int (length ip) \<and> (length ip = 4 \<or> length ip = 16)"
  by (auto simp: ParseAddr_def split: option.splits if_splits
      dest: parseIPv4_length parseIPv6_length)

text \<open>What \<open>ParseCIDR\<close> returns: an \<open>l\<close>-byte address masked to its first \<open>k\<close> bits.\<close>

definition parsed_net :: "IPNet \<Rightarrow> nat \<Rightarrow> nat \<Rightarrow> bool" where
  "parsed_net n l k \<longleftrightarrow>
     (l = 4 \<or> l = 16) \<and> k \<le> 8 * l \<and> IPNet_Mask n = mask_bytes l k
     \<and> length (IPNet_IP n) = l \<and> and_bytes (IPNet_IP n) (mask_bytes l k) = IPNet_IP n"

lemma and_bytes_idem: "and_bytes (and_bytes xs ys) ys = and_bytes xs ys"
  by (induction xs arbitrary: ys) (auto simp: and_bytes_def zip_Cons1 ac_simps split: list.splits)

lemma IP_mask_v4:
  "length ip = 4 \<Longrightarrow> length m = 4 \<Longrightarrow> IP_mask (v4InV6Prefix @ ip) m = Some (and_bytes ip m)"
  by (simp add: IP_mask_def v4InV6Prefix_def Let_def)

lemma IP_mask_v6:
  "length ip = 16 \<Longrightarrow> length m = 16 \<Longrightarrow> IP_mask ip m = Some (and_bytes ip m)"
  by (simp add: IP_mask_def Let_def)

lemma ParseCIDR_parsed_net:
  assumes "ParseCIDR s = Inr (ip, n)"
  obtains l k where "parsed_net n l k"
proof -
  from assms obtain b raw k where p: "ParseAddr (takeWhile (\<lambda>c. c \<noteq> CHR ''/'') s) = Some (b, raw)"
    and k: "int k \<le> b"
    and n: "\<exists>m. CIDRMask (int k) b = Some m \<and> IPNet_Mask n = m
        \<and> IPNet_IP n = (case IP_mask (if length raw = 4 then v4InV6Prefix @ raw else raw) m of None \<Rightarrow> [] | Some x \<Rightarrow> x)"
    by (auto simp: ParseCIDR_def Let_def not_less split: if_splits option.splits prod.splits)
  from ParseAddr_length [OF p] have b: "b = 8 * int (length raw)" and l: "length raw = 4 \<or> length raw = 16"
    by auto
  have m: "CIDRMask (int k) b = Some (mask_bytes (length raw) k)"
    using l k b by (auto simp: CIDRMask_def)
  have ip: "IPNet_IP n = and_bytes raw (mask_bytes (length raw) k)"
    using n m l by (auto simp: IP_mask_v4 IP_mask_v6)
  have mk: "IPNet_Mask n = mask_bytes (length raw) k"
    using n m by auto
  have "parsed_net n (length raw) k"
    using l k b mk ip by (auto simp: parsed_net_def and_bytes_idem)
  then show ?thesis by (rule that)
qed

lemma and_bytes_drop: "drop j (and_bytes xs ys) = and_bytes (drop j xs) (drop j ys)"
  by (simp add: and_bytes_def drop_map drop_zip)

lemma masked_aligned:
  assumes "length xs = l" and "k \<le> 8 * l" and "and_bytes xs (mask_bytes l k) = xs"
  shows "ipval xs mod 2 ^ (8 * l - k) = 0"
  using ipval_masked [OF assms(1,2)] assms(3) by (metis mod_mult_self2_is_0)

lemma nth_mask_bytes_255:
  assumes "i < l" and "mask_bytes l k ! i = 255"
  shows "8 * (i + 1) \<le> k"
proof (rule ccontr)
  assume "\<not> 8 * (i + 1) \<le> k"
  then have lt: "k - 8 * i < 8" by simp
  obtain l' where l': "l - i = Suc l'" using assms(1) by (metis Suc_diff_Suc)
  have "mask_bytes l k ! i = hd (drop i (mask_bytes l k))"
    using assms(1) by (simp add: hd_drop_conv_nth)
  also have "\<dots> = NOT (drop_bit (k - 8 * i) 255)"
    using lt by (simp add: drop_mask_bytes l')
  finally show False using assms(2) mask_byte_neq_255 [OF lt] by simp
qed

text \<open>A masked address that is still IPv4-mapped has a prefix of at least 96 bits.\<close>

lemma mapped_prefix:
  assumes "parsed_net n 16 k" and "To4 (IPNet_IP n) \<noteq> None"
  shows "96 \<le> k"
proof -
  from assms have len: "length (IPNet_IP n) = 16" and b: "IPNet_IP n ! 11 = 255"
    and m: "and_bytes (IPNet_IP n) (mask_bytes 16 k) = IPNet_IP n"
    by (auto simp: parsed_net_def To4_def split: if_splits)
  have "and_bytes (IPNet_IP n) (mask_bytes 16 k) ! 11 = IPNet_IP n ! 11 AND mask_bytes 16 k ! 11"
    using len by (simp add: and_bytes_def)
  with m b have "mask_bytes 16 k ! 11 = 255" by (metis and_255 and.commute)
  from nth_mask_bytes_255 [OF _ this] show ?thesis by simp
qed

lemma parsed_net_form:
  assumes "parsed_net n l k"
  shows "net_form n (canon (IPNet_IP n)) (length (canon (IPNet_IP n)))
    (if To4 (IPNet_IP n) = None \<or> l = 4 then k else k - 96)"
proof (cases "l = 4")
  case True
  with assms show ?thesis using masked_aligned [of "IPNet_IP n" 4 k]
    by (auto simp: net_form_def parsed_net_def networkNumberAndMask_def)
next
  case False
  with assms have l: "l = 16" and k: "k \<le> 128" and m: "IPNet_Mask n = mask_bytes 16 k"
    and len: "length (IPNet_IP n) = 16"
    and al: "and_bytes (IPNet_IP n) (mask_bytes 16 k) = IPNet_IP n"
    by (auto simp: parsed_net_def)
  show ?thesis
  proof (cases "To4 (IPNet_IP n)")
    case None
    then show ?thesis
      using l k m len al masked_aligned [OF len _ al]
      by (simp add: net_form_def networkNumberAndMask_def canon_def)
  next
    case (Some x)
    then have x: "x = drop 12 (IPNet_IP n)" "length x = 4"
      using len by (auto simp: To4_def split: if_splits)
    have "and_bytes x (mask_bytes 4 (k - 96)) = x"
      using al and_bytes_drop [of 12 "IPNet_IP n" "mask_bytes 16 k"]
      by (simp add: x(1) drop_mask_bytes)
    then have "ipval x mod 2 ^ (8 * 4 - (k - 96)) = 0"
      by (rule masked_aligned [OF x(2), rotated]) (use k in simp)
    then show ?thesis
      using Some x(2) m k l by (simp add: net_form_def networkNumberAndMask_def canon_def drop_mask_bytes)
  qed
qed


section \<open>Printing and parsing IPv4 prefixes\<close>

lemma last_nat_str_digit: "is_digit (last (nat_str n))"
  using nat_str_digits [of n] by (simp add: list_all_iff)

lemma v4_fields_nat_str:
  "n \<le> 255 \<Longrightarrow> v4_fields 0 0 fs prev (nat_str n @ rest)
     = v4_fields n (length (nat_str n)) fs (Some (last (nat_str n))) rest"
proof (induction n arbitrary: rest rule: nat_str.induct)
  case (1 n)
  show ?case
  proof (cases "n < 10")
    case True
    with 1 show ?thesis by (simp add: nat_str.simps [of n])
  next
    case False
    have m: "n mod 10 < 10" by simp
    have d: "n div 10 * 10 + n mod 10 = n" by simp
    have nz: "n div 10 \<noteq> 0" using False by simp
    have l: "nat_str n = nat_str (n div 10) @ [digit_char (n mod 10)]"
      using False by (subst nat_str.simps) simp
    have "v4_fields 0 0 fs prev (nat_str n @ rest)
        = v4_fields 0 0 fs prev (nat_str (n div 10) @ digit_char (n mod 10) # rest)"
      using False by (simp add: nat_str.simps [of n])
    also have "\<dots> = v4_fields (n div 10) (length (nat_str (n div 10))) fs
        (Some (last (nat_str (n div 10)))) (digit_char (n mod 10) # rest)"
      using 1 False by simp
    also have "\<dots> = v4_fields n (length (nat_str n)) fs (Some (last (nat_str n))) rest"
      using "1.prems" m d nz by (simp add: l Let_def)
    finally show ?thesis .
  qed
qed

lemma v4_fields_dot:
  assumes "is_digit c" and "length fs < 3" and "s \<noteq> []"
  shows "v4_fields v dl fs (Some c) (CHR ''.'' # s) = v4_fields 0 0 (fs @ [of_nat v]) (Some (CHR ''.'')) s"
proof -
  have "\<not> is_digit (CHR ''.'')" by (simp add: is_digit_def)
  with assms show ?thesis using is_digit_not_special [of c] by simp
qed

lemma unat_byte_le [simp]: "unat (b::byte) \<le> 255"
  using unat_byte_less [of b] by linarith

lemma IP_String_nonempty: "ip \<noteq> [] \<Longrightarrow> IP_String ip \<noteq> []"
  by (cases ip rule: IP_String.cases) auto

lemma v4_fields_IP_String:
  "ip \<noteq> [] \<Longrightarrow> length fs + length ip = 4
     \<Longrightarrow> v4_fields 0 0 fs prev (IP_String ip) = Some (fs @ ip)"
proof (induction ip arbitrary: fs prev rule: IP_String.induct)
  case 1
  then show ?case by simp
next
  case (2 b)
  then show ?case
    using v4_fields_nat_str [of "unat b" fs prev "[]"] by simp
next
  case (3 b c bs)
  have "v4_fields 0 0 fs prev (IP_String (b # c # bs))
      = v4_fields (unat b) (length (nat_str (unat b))) fs (Some (last (nat_str (unat b))))
          (CHR ''.'' # IP_String (c # bs))"
    using v4_fields_nat_str [of "unat b" fs prev] by simp
  also have "\<dots> = v4_fields 0 0 (fs @ [b]) (Some (CHR ''.'')) (IP_String (c # bs))"
    using "3.prems" by (subst v4_fields_dot) (simp_all add: last_nat_str_digit IP_String_nonempty)
  also have "\<dots> = Some (fs @ b # c # bs)"
    using "3.IH" [of "fs @ [b]"] "3.prems" by simp
  finally show ?case .
qed

lemma parseIPv4_IP_String: "length ip = 4 \<Longrightarrow> parseIPv4 (IP_String ip) = Some ip"
  using v4_fields_IP_String [of ip "[]" None] by (cases ip) (simp_all add: parseIPv4_def)

lemma IP_String_chars:
  "c \<in> set (IP_String ip) \<Longrightarrow> is_digit c \<or> c = CHR ''.''"
proof (induction ip rule: IP_String.induct)
  case (2 b)
  then show ?case using nat_str_digits [of "unat b"] by (auto simp: list_all_iff)
next
  case (3 b c bs)
  then show ?case using nat_str_digits [of "unat b"] by (auto simp: list_all_iff)
qed simp

lemma addr_family_digits:
  "list_all is_digit ds \<Longrightarrow> addr_family (ds @ s) = addr_family s"
  by (induction ds) (auto dest: is_digit_not_special)

lemma addr_family_IP_String: "2 \<le> length ip \<Longrightarrow> addr_family (IP_String ip) = Some (CHR ''.'')"
  by (cases ip rule: IP_String.cases) (auto simp: addr_family_digits nat_str_digits)

lemma ParseAddr_IP_String: "length ip = 4 \<Longrightarrow> ParseAddr (IP_String ip) = Some (32, ip)"
  by (simp add: ParseAddr_def addr_family_IP_String parseIPv4_IP_String)

lemma dtoi_loop_nat_str:
  "n < 16777215 \<Longrightarrow> dtoi_loop 0 (nat_str n @ rest) = dtoi_loop n rest"
proof (induction n arbitrary: rest rule: nat_str.induct)
  case (1 n)
  show ?case
  proof (cases "n < 10")
    case True
    then show ?thesis by (simp add: nat_str.simps [of n] Let_def)
  next
    case False
    have m: "n mod 10 < 10" and d: "n div 10 * 10 + n mod 10 = n" by simp_all
    show ?thesis
      using 1 False m d by (simp add: nat_str.simps [of n] Let_def)
  qed
qed

lemma dtoi_nat_str:
  assumes "n < 16777215"
  shows "dtoi (nat_str n) = Some (n, [])"
proof (cases "nat_str n")
  case Nil
  then show ?thesis by simp
next
  case (Cons c cs)
  then have "is_digit c" using nat_str_digits [of n] by simp
  with Cons dtoi_loop_nat_str [OF assms, of "[]"] show ?thesis by (simp add: dtoi_def)
qed

definition v4_net :: "IP \<Rightarrow> nat \<Rightarrow> IPNet" where
  "v4_net ip k = \<lparr>IPNet_IP = and_bytes ip (mask_bytes 4 k), IPNet_Mask = mask_bytes 4 k\<rparr>"

lemma ParseCIDR_print:
  assumes "length ip = 4" and "k \<le> 32"
  shows "ParseCIDR (IP_String ip @ ''/'' @ nat_str k) = Inr (v4InV6Prefix @ ip, v4_net ip k)"
proof -
  have ns: "c \<noteq> CHR ''/''" if "c \<in> set (IP_String ip)" for c
    using IP_String_chars [OF that] by (auto dest: is_digit_not_special)
  have t: "takeWhile (\<lambda>c. c \<noteq> CHR ''/'') (IP_String ip @ CHR ''/'' # nat_str k) = IP_String ip"
    using ns by (subst takeWhile_append2) auto
  have d: "dropWhile (\<lambda>c. c \<noteq> CHR ''/'') (IP_String ip @ CHR ''/'' # nat_str k) = CHR ''/'' # nat_str k"
    using ns by (subst dropWhile_append2) auto
  show ?thesis
    using assms t d
    by (simp add: ParseCIDR_def Let_def ParseAddr_IP_String dtoi_nat_str CIDRMask_def IP_mask_v4 v4_net_def)
qed

lemma parsed_net_v4_net: "length ip = 4 \<Longrightarrow> k \<le> 32 \<Longrightarrow> parsed_net (v4_net ip k) 4 k"
  by (simp add: parsed_net_def v4_net_def and_bytes_idem)

end
