(* ===== verification/Netutil.thy ===== *)
theory Netutil
  imports Go_Net
begin

unbundle bit_operations_syntax

text \<open>
  \<^verbatim>\<open>internal/netutil/netutil.go\<close>: overlap of two CIDRs and the last address of a
  network. The lemmas give the last address its value (base plus block size minus one)
  and show that the overlap test is exactly "some address belongs to both networks" for
  CIDRs of one family.
\<close>

section \<open>Code\<close>

text \<open>
  The loop of \<open>CalculateLastIP\<close>, on the bytes from the least significant one:
  \<open>hostBits\<close> bits are still to be set.
\<close>

fun last_ip_rev :: "byte list \<Rightarrow> nat \<Rightarrow> byte list" where
  "last_ip_rev [] hostBits = []"
| "last_ip_rev (b # bs) hostBits =
     (let byteHostBits = (if hostBits < 8 then hostBits else 8);
          b' = (if byteHostBits > 0 then b OR of_nat (2 ^ byteHostBits - 1) else b);
          hostBits' = hostBits - byteHostBits
      in if hostBits' = 0 then b' # bs else b' # last_ip_rev bs hostBits')"

definition CalculateLastIP :: "IPNet \<Rightarrow> IP" where
  "CalculateLastIP network =
     (let (ones, bits) = Mask_Size (IPNet_Mask network);
          hostBits = nat (bits - ones);
          ip = (if length (IPNet_IP network) = 16 \<and> To4 (IPNet_IP network) \<noteq> None
                then the (To4 (IPNet_IP network)) else IPNet_IP network)
      in rev (last_ip_rev (rev ip) hostBits))"

definition CIDROverlaps :: "string \<Rightarrow> string \<Rightarrow> bool" where
  "CIDROverlaps cidr1 cidr2 =
     (case (ParseCIDR cidr1, ParseCIDR cidr2) of
        (Inr (_, ipNet1), Inr (_, ipNet2)) \<Rightarrow>
          let bits1 = snd (Mask_Size (IPNet_Mask ipNet1));
              bits2 = snd (Mask_Size (IPNet_Mask ipNet2));
              ip1IsV4 = (To4 (IPNet_IP ipNet1) \<noteq> None);
              ip2IsV4 = (To4 (IPNet_IP ipNet2) \<noteq> None)
          in if bits1 \<noteq> bits2 then False
             else if ip1IsV4 \<noteq> ip2IsV4 then False
             else if IPNet_Contains ipNet1 (IPNet_IP ipNet2) \<or> IPNet_Contains ipNet2 (IPNet_IP ipNet1)
             then True
             else let lastIP1 = CalculateLastIP ipNet1; lastIP2 = CalculateLastIP ipNet2
                  in IPNet_Contains ipNet1 lastIP2 \<or> IPNet_Contains ipNet2 lastIP1
      | _ \<Rightarrow> False)"

section \<open>The last address\<close>

text \<open>Little-endian value of a byte list: the order in which the loop walks.\<close>

fun leval :: "byte list \<Rightarrow> nat" where
  "leval [] = 0"
| "leval (b # bs) = unat b + 256 * leval bs"

lemma leval_append: "leval (xs @ ys) = leval xs + 2 ^ (8 * length xs) * leval ys"
  by (induction xs) (simp_all add: power_add algebra_simps)

lemma leval_rev: "leval (rev xs) = ipval xs"
  by (induction xs) (simp_all add: leval_append)

lemma ipval_rev: "ipval (rev xs) = leval xs"
  using leval_rev [of "rev xs"] by simp

lemma unat_or_low:
  assumes "k \<le> 8" and "unat (b::byte) mod 2 ^ k = 0"
  shows "unat (b OR of_nat (2 ^ k - 1)) = unat b + (2 ^ k - 1)"
proof -
  have m: "(of_nat (2 ^ k - 1) :: byte) = mask k"
    by (simp add: mask_eq_exp_minus_1 of_nat_diff)
  have "unat (take_bit k b) = 0"
    using assms(2) by (simp only: unsigned_take_bit_eq) (simp add: take_bit_eq_mod)
  then have dis: "b AND mask k = 0" by (simp add: unat_0_iff take_bit_eq_mask)
  then have "b OR mask k = b + mask k"
    by (rule disjunctive_add_eq_or [symmetric])
  moreover have "unat (mask k :: byte) = 2 ^ k - 1"
    using less8_cases [of k] assms(1) by (cases "k = 8") (auto simp: mask_eq_exp_minus_1)
  moreover have "unat b + (2 ^ k - 1) < 256"
  proof -
    obtain q where q: "unat b = 2 ^ k * q" using assms(2) by auto
    have e: "(256::nat) = 2 ^ k * 2 ^ (8 - k)" using pow2_split [OF assms(1)] by simp
    with q unat_byte_less [of b] have "q < 2 ^ (8 - k)" by simp
    then have "2 ^ k * (q + 1) \<le> 2 ^ k * 2 ^ (8 - k)" by (intro mult_le_mono2) simp
    with q e have "unat b + 2 ^ k \<le> 256" by simp
    then show ?thesis by (simp add: less_eq_Suc_le Suc_diff_1 add.commute) 
  qed
  ultimately show ?thesis unfolding m by (simp add: unat_word_ariths)
qed

lemma length_last_ip_rev [simp]: "length (last_ip_rev bs h) = length bs"
  by (induction bs h rule: last_ip_rev.induct) (simp_all add: Let_def)

lemma leval_last_ip_rev:
  "leval bs mod 2 ^ h = 0 \<Longrightarrow> h \<le> 8 * length bs \<Longrightarrow> leval (last_ip_rev bs h) = leval bs + (2 ^ h - 1)"
proof (induction bs h rule: last_ip_rev.induct)
  case (1 h)
  then show ?case by simp
next
  case (2 b bs h)
  show ?case
  proof (cases "h < 8")
    case True
    have "(2::nat) ^ 8 = 2 ^ h * 2 ^ (8 - h)" using True by (intro pow2_split) simp
    then have e: "(256::nat) = 2 ^ h * 2 ^ (8 - h)" by simp
    have "leval (b # bs) mod 2 ^ h = (unat b + 2 ^ h * (2 ^ (8 - h) * leval bs)) mod 2 ^ h"
      by (simp only: leval.simps e mult.assoc)
    then have "unat b mod 2 ^ h = 0" using "2.prems"(1) by simp
    then have "unat (b OR of_nat (2 ^ h - 1)) = unat b + (2 ^ h - 1)"
      using True by (intro unat_or_low) simp_all
    moreover obtain q where "(2::nat) ^ h = Suc q" using pow2_Suc_pred by blast
    ultimately show ?thesis
      using True by (cases "h = 0") (simp_all add: Let_def del: of_nat_diff of_nat_power)
  next
    case False
    then have h: "h = 8 + (h - 8)" by simp
    have "2 ^ h dvd leval (b # bs)" using "2.prems"(1) by (simp add: dvd_eq_mod_eq_0)
    moreover have "(2::nat) ^ h = 256 * 2 ^ (h - 8)" by (subst h) (simp add: power_add)
    ultimately have d: "256 * 2 ^ (h - 8) dvd unat b + 256 * leval bs" by simp
    then have "256 dvd unat b + 256 * leval bs" by (rule dvd_mult_left)
    then have b0: "unat b = 0"
      using unat_byte_less [of b] by (metis dvd_add_left_iff dvd_triv_left nat_dvd_not_less not_gr_zero)
    with d have al: "leval bs mod 2 ^ (h - 8) = 0" by simp
    have "h - 8 \<le> 8 * length bs" using "2.prems"(2) by simp
    have o: "unat (b OR 255) = 255"
      using unat_or_low [of 8 b] b0 by simp
    show ?thesis
    proof (cases "h = 8")
      case True
      with o b0 show ?thesis by (simp add: Let_def)
    next
      case n8: False
      have IH: "leval (last_ip_rev bs (h - 8)) = leval bs + (2 ^ (h - 8) - 1)"
        using "2.IH" False n8 al "2.prems"(2) by simp
      obtain q where q: "(2::nat) ^ (h - 8) = Suc q" using pow2_Suc_pred by blast
      have p: "(2::nat) ^ h = 256 * Suc q"
        by (subst h) (simp add: power_add q)
      show ?thesis using False n8 IH o b0 by (simp add: Let_def p q)
    qed
  qed
qed

lemma CalculateLastIP_parsed:
  assumes "parsed_net n l k"
  obtains nn l' k' where "net_form n nn l' k'" and "length (CalculateLastIP n) = l'"
    and "ipval (CalculateLastIP n) = ipval nn + (2 ^ (8 * l' - k') - 1)"
    and "l' = (if To4 (IPNet_IP n) = None then l else 4)"
proof -
  let ?nn = "canon (IPNet_IP n)"
  let ?k = "if To4 (IPNet_IP n) = None \<or> l = 4 then k else k - 96"
  from assms have k: "k \<le> 8 * l" and m: "IPNet_Mask n = mask_bytes l k"
    and len: "length (IPNet_IP n) = l" and l: "l = 4 \<or> l = 16"
    by (auto simp: parsed_net_def)
  have form: "net_form n ?nn (length ?nn) ?k" by (rule parsed_net_form [OF assms])
  have l': "length ?nn = (if To4 (IPNet_IP n) = None then l else 4)"
    using len by (auto simp: canon_def To4_length)
  have c: "(if length (IPNet_IP n) = 16 \<and> To4 (IPNet_IP n) \<noteq> None
              then the (To4 (IPNet_IP n)) else IPNet_IP n) = ?nn"
    using l len by (auto simp: canon_def)
  have h: "8 * l - k = 8 * length ?nn - ?k"
    using l l' mapped_prefix [of n k] assms len by auto
  have e: "CalculateLastIP n = rev (last_ip_rev (rev ?nn) (8 * length ?nn - ?k))"
    using k h unfolding CalculateLastIP_def m Mask_Size_mask_bytes [OF k] c
    by (simp add: Let_def nat_diff_distrib nat_mult_distrib)
  have "ipval ?nn mod 2 ^ (8 * length ?nn - ?k) = 0"
    using form by (simp add: net_form_def)
  then have "ipval (CalculateLastIP n) = ipval ?nn + (2 ^ (8 * length ?nn - ?k) - 1)"
    unfolding e ipval_rev by (subst leval_last_ip_rev) (simp_all add: leval_rev)
  then show ?thesis
    using that [OF form] l' by (simp add: e)
qed

section \<open>Overlap\<close>

lemma net_forms_overlap:
  assumes n1: "net_form n1 nn1 l k1" and n2: "net_form n2 nn2 l k2"
    and ip: "IPNet_Contains n1 ip" "IPNet_Contains n2 ip"
  shows "IPNet_Contains n1 (IPNet_IP n2) \<or> IPNet_Contains n2 (IPNet_IP n1)"
proof -
  have nn: "canon (IPNet_IP n1) = nn1" "canon (IPNet_IP n2) = nn2" "length nn1 = l" "length nn2 = l"
    and al: "ipval nn1 mod 2 ^ (8 * l - k1) = 0" "ipval nn2 mod 2 ^ (8 * l - k2) = 0"
    using n1 n2 by (auto simp: net_form_def)
  have "ipval (canon ip) \<in> block (ipval nn1) (2 ^ (8 * l - k1))"
    and "ipval (canon ip) \<in> block (ipval nn2) (2 ^ (8 * l - k2))"
    using ip Contains_net_form [OF n1] Contains_net_form [OF n2] by auto
  from aligned_blocks_meet [OF al this] show ?thesis
    using Contains_net_form [OF n1, of "IPNet_IP n2"] Contains_net_form [OF n2, of "IPNet_IP n1"] nn
    by auto
qed

text \<open>The meaning of the test: both CIDRs parse, in one family, and some address is in both networks.\<close>

definition share_address :: "string \<Rightarrow> string \<Rightarrow> bool" where
  "share_address c1 c2 \<longleftrightarrow>
     (\<exists>i1 n1 i2 n2. ParseCIDR c1 = Inr (i1, n1) \<and> ParseCIDR c2 = Inr (i2, n2)
        \<and> length (IPNet_Mask n1) = length (IPNet_Mask n2)
        \<and> (To4 (IPNet_IP n1) = None \<longleftrightarrow> To4 (IPNet_IP n2) = None)
        \<and> (\<exists>ip. IPNet_Contains n1 ip \<and> IPNet_Contains n2 ip))"

lemma CIDROverlaps_parsed:
  assumes p1: "ParseCIDR c1 = Inr (i1, n1)" and p2: "ParseCIDR c2 = Inr (i2, n2)"
    and len: "length (IPNet_Mask n1) = length (IPNet_Mask n2)"
    and v4: "To4 (IPNet_IP n1) = None \<longleftrightarrow> To4 (IPNet_IP n2) = None"
  shows "CIDROverlaps c1 c2 \<longleftrightarrow> (\<exists>ip. IPNet_Contains n1 ip \<and> IPNet_Contains n2 ip)"
proof -
  obtain l1 k1 where q1: "parsed_net n1 l1 k1" by (rule ParseCIDR_parsed_net [OF p1])
  obtain l2 k2 where q2: "parsed_net n2 l2 k2" by (rule ParseCIDR_parsed_net [OF p2])
  have ll: "l1 = l2" using q1 q2 len by (auto simp: parsed_net_def)
  have bits: "snd (Mask_Size (IPNet_Mask n1)) = snd (Mask_Size (IPNet_Mask n2))"
    using q1 q2 ll by (auto simp: parsed_net_def Mask_Size_mask_bytes)
  obtain nn1 m1 h1 where f1: "net_form n1 nn1 m1 h1"
    and last1: "length (CalculateLastIP n1) = m1"
      "ipval (CalculateLastIP n1) = ipval nn1 + (2 ^ (8 * m1 - h1) - 1)"
    and m1: "m1 = (if To4 (IPNet_IP n1) = None then l1 else 4)"
    by (rule CalculateLastIP_parsed [OF q1])
  obtain nn2 m2 h2 where f2: "net_form n2 nn2 m2 h2"
    and last2: "length (CalculateLastIP n2) = m2"
      "ipval (CalculateLastIP n2) = ipval nn2 + (2 ^ (8 * m2 - h2) - 1)"
    and m2: "m2 = (if To4 (IPNet_IP n2) = None then l2 else 4)"
    by (rule CalculateLastIP_parsed [OF q2])
  have mm: "m1 = m2" using m1 m2 ll v4 by simp
  have self1: "IPNet_Contains n1 (IPNet_IP n1)" and self2: "IPNet_Contains n2 (IPNet_IP n2)"
    using Contains_net_form [OF f1, of "IPNet_IP n1"] Contains_net_form [OF f2, of "IPNet_IP n2"] f1 f2
    by (auto simp: net_form_def)
  have self_last: "IPNet_Contains n (CalculateLastIP n)"
    if f: "net_form n nn m h" and l: "length (CalculateLastIP n) = m"
      and v: "ipval (CalculateLastIP n) = ipval nn + (2 ^ (8 * m - h) - 1)"
      and c: "IPNet_Contains n' (CalculateLastIP n)" and f': "net_form n' nn' m h'" for n nn m h n' nn' h'
  proof -
    have "length (canon (CalculateLastIP n)) = m"
      using c Contains_net_form [OF f'] by simp
    then have "canon (CalculateLastIP n) = CalculateLastIP n"
      using l f by (auto simp: canon_def net_form_def To4_length split: option.splits)
    moreover obtain q where "(2::nat) ^ (8 * m - h) = Suc q" using pow2_Suc_pred by blast
    ultimately show ?thesis using Contains_net_form [OF f] l v by simp
  qed
  have "CIDROverlaps c1 c2 \<longleftrightarrow>
      IPNet_Contains n1 (IPNet_IP n2) \<or> IPNet_Contains n2 (IPNet_IP n1)
      \<or> IPNet_Contains n1 (CalculateLastIP n2) \<or> IPNet_Contains n2 (CalculateLastIP n1)"
    using v4 bits by (auto simp: CIDROverlaps_def p1 p2 Let_def)
  moreover have "IPNet_Contains n2 (CalculateLastIP n2)" if "IPNet_Contains n1 (CalculateLastIP n2)"
    by (rule self_last [OF f2 last2 that]) (use f1 mm in simp)
  moreover have "IPNet_Contains n1 (CalculateLastIP n1)" if "IPNet_Contains n2 (CalculateLastIP n1)"
    by (rule self_last [OF f1 last1 that]) (use f2 mm in simp)
  ultimately show ?thesis
    using self1 self2 net_forms_overlap [OF f1] f2 mm by blast
qed

lemma CIDROverlaps_share: "CIDROverlaps c1 c2 \<longleftrightarrow> share_address c1 c2"
proof
  assume o: "CIDROverlaps c1 c2"
  have "\<exists>a. ParseCIDR c1 = Inr a" "\<exists>b. ParseCIDR c2 = Inr b"
    using o by (cases "ParseCIDR c1"; cases "ParseCIDR c2"; auto simp: CIDROverlaps_def)+
  then obtain i1 n1 i2 n2 where p: "ParseCIDR c1 = Inr (i1, n1)" "ParseCIDR c2 = Inr (i2, n2)"
    by (metis surj_pair)
  obtain l1 k1 where q1: "parsed_net n1 l1 k1" by (rule ParseCIDR_parsed_net [OF p(1)])
  obtain l2 k2 where q2: "parsed_net n2 l2 k2" by (rule ParseCIDR_parsed_net [OF p(2)])
  have v4: "To4 (IPNet_IP n1) = None \<longleftrightarrow> To4 (IPNet_IP n2) = None"
    and b: "snd (Mask_Size (IPNet_Mask n1)) = snd (Mask_Size (IPNet_Mask n2))"
    using o p by (auto simp: CIDROverlaps_def Let_def split: if_splits)
  have len: "length (IPNet_Mask n1) = length (IPNet_Mask n2)"
    using b q1 q2 by (auto simp: parsed_net_def Mask_Size_mask_bytes)
  show "share_address c1 c2"
    using CIDROverlaps_parsed [OF p len v4] o p len v4 by (auto simp: share_address_def)
next
  assume "share_address c1 c2"
  then obtain i1 n1 i2 n2 ip where p: "ParseCIDR c1 = Inr (i1, n1)" "ParseCIDR c2 = Inr (i2, n2)"
    and r: "length (IPNet_Mask n1) = length (IPNet_Mask n2)"
      "To4 (IPNet_IP n1) = None \<longleftrightarrow> To4 (IPNet_IP n2) = None"
      "IPNet_Contains n1 ip \<and> IPNet_Contains n2 ip"
    unfolding share_address_def by (elim exE conjE) (rule that; simp)
  show "CIDROverlaps c1 c2"
    using CIDROverlaps_parsed [OF p r(1,2)] r(3) by metis
qed

lemma CIDROverlaps_sym: "CIDROverlaps c1 c2 \<longleftrightarrow> CIDROverlaps c2 c1"
  unfolding CIDROverlaps_share share_address_def by metis

section \<open>Properties\<close>

text \<open>
  C16. \<open>CIDROverlaps\<close> is exact: it answers true if and only if both strings parse as CIDRs
  of one family (same mask width, both or neither IPv4-mapped) and there is an address
  that both networks contain.
\<close>

theorem CIDROverlaps_iff_share_address: "CIDROverlaps c1 c2 \<longleftrightarrow> share_address c1 c2"
  by (rule CIDROverlaps_share)

end
