(* ===== verification/Bitmap.thy ===== *)
theory Bitmap
  imports Netutil
begin

unbundle bit_operations_syntax

text \<open>
  \<^verbatim>\<open>internal/controller/bitmap.go\<close>: the bitmap of a pool, one bit per address
  (\<open>*big.Int\<close> is an unbounded \<open>int\<close>, \<open>Bit\<close> and \<open>SetBit\<close> are \<open>bit\<close> and
  \<open>set_bit\<close>). A method with a pointer receiver returns the updated map; every error path
  of the source leaves the receiver as it was, so an error carries no map. The lemmas
  relate the bitmap to a set of addresses: marking a CIDR adds its block, the scan finds
  the lowest free aligned block, and neither the byte-wise subtraction of
  \<open>getCIDRBitRange\<close> nor the carry-free addition of \<open>AllocateNextAvailable\<close> wraps.
\<close>

section \<open>Code\<close>

record CIDRMap =
  baseIP :: IP
  prefixLen :: int
  bits :: int
  maxSize :: int
  minSize :: int

definition NewCIDRMap :: "string \<Rightarrow> (error, CIDRMap) result" where
  "NewCIDRMap cidr =
     (case ParseCIDR cidr of
        Inl err \<Rightarrow> Inl (Wrapf ''invalid CIDR format: '' err)
      | Inr (_, ipNet) \<Rightarrow>
          (case To4 (IPNet_IP ipNet) of
             None \<Rightarrow> Inl (Errorf ''IPv6 not supported in this version'')
           | Some ip4 \<Rightarrow>
               let pl = fst (Mask_Size (IPNet_Mask ipNet))
               in if pl > 28 then Inl (Errorf ''prefix length must be at most /28'')
                  else if pl < 12 then Inl (Errorf ''prefix length must be at least /12'')
                  else Inr \<lparr>baseIP = ip4, prefixLen = pl, bits = 0, maxSize = 28, minSize = 16\<rparr>))"

text \<open>The pool's mask is nil when \<open>CIDRMask\<close> rejects the length; \<open>IPNet.Contains\<close> sees an empty slice.\<close>

definition map_contains :: "CIDRMap \<Rightarrow> IPNet \<Rightarrow> bool" where
  "map_contains c ipNet =
     (let poolMask = (case CIDRMask (prefixLen c) 32 of None \<Rightarrow> [] | Some m \<Rightarrow> m);
          poolNet = \<lparr>IPNet_IP = baseIP c, IPNet_Mask = poolMask\<rparr>
      in IPNet_Contains poolNet (IPNet_IP ipNet))"

text \<open>The subtraction \<open>ipNet.IP[i]-c.baseIP[i]\<close> is on bytes and wraps.\<close>

definition getCIDRBitRange :: "CIDRMap \<Rightarrow> IPNet \<Rightarrow> nat \<times> nat" where
  "getCIDRBitRange c ipNet =
     (let targetPrefix = fst (Mask_Size (IPNet_Mask ipNet));
          offset = foldl (\<lambda>offset i. offset * 256 + unat (IPNet_IP ipNet ! i - baseIP c ! i)) 0 [0, 1, 2, 3];
          sz = pow2_int64 (32 - targetPrefix)
      in (offset, sz))"

text \<open>The checking loop: \<open>True\<close> when none of the \<open>n\<close> bits from \<open>s\<close> is set.\<close>

fun range_free :: "int \<Rightarrow> nat \<Rightarrow> nat \<Rightarrow> bool" where
  "range_free b s 0 = True"
| "range_free b s (Suc n) = (if bit b s then False else range_free b (Suc s) n)"

text \<open>The marking loop.\<close>

fun set_range :: "int \<Rightarrow> nat \<Rightarrow> nat \<Rightarrow> int" where
  "set_range b s 0 = b"
| "set_range b s (Suc n) = set_range (set_bit s b) (Suc s) n"

definition MarkAllocated :: "CIDRMap \<Rightarrow> string \<Rightarrow> (error, CIDRMap) result" where
  "MarkAllocated c cidr =
     (case ParseCIDR cidr of
        Inl err \<Rightarrow> Inl (Wrapf ''invalid CIDR format: '' err)
      | Inr (_, ipNet) \<Rightarrow>
          if \<not> map_contains c ipNet
          then Inl (Errorf (''CIDR '' @ cidr @ '' is outside the pool range''))
          else let (startIndex, sz) = getCIDRBitRange c ipNet
               in if \<not> range_free (bits c) startIndex sz
                  then Inl (Errorf (''CIDR '' @ cidr @ '' or portion of it is already allocated''))
                  else Inr (c\<lparr>bits := set_range (bits c) startIndex sz\<rparr>))"

text \<open>The loop over blocks: \<open>n\<close> blocks are left, \<open>i\<close> is the current one.\<close>

fun find_block :: "int \<Rightarrow> nat \<Rightarrow> nat \<Rightarrow> nat \<Rightarrow> nat option" where
  "find_block b blockSize i 0 = None"
| "find_block b blockSize i (Suc n) =
     (if range_free b (i * blockSize) blockSize then Some i else find_block b blockSize (Suc i) n)"

text \<open>The address loop, from the last byte to the first; byte addition wraps and does not carry.\<close>

fun add_offset_rev :: "byte list \<Rightarrow> nat \<Rightarrow> byte list" where
  "add_offset_rev [] offset = []"
| "add_offset_rev (b # bs) offset = (b + of_nat (offset mod 256)) # add_offset_rev bs (offset div 256)"

definition block_cidr :: "CIDRMap \<Rightarrow> int \<Rightarrow> nat \<Rightarrow> string" where
  "block_cidr c sz startBit =
     IP_String (rev (add_offset_rev (rev (baseIP c)) startBit)) @ ''/'' @ Itoa sz"

definition AllocateNextAvailable :: "CIDRMap \<Rightarrow> int \<Rightarrow> (error, string \<times> CIDRMap) result" where
  "AllocateNextAvailable c sz =
     (if sz < minSize c \<or> sz > maxSize c
      then Inl (Errorf (''size must be between '' @ Itoa (minSize c) @ '' and '' @ Itoa (maxSize c)))
      else
        let blockSize = pow2_int64 (32 - sz);
            totalBlocks = pow2_int64 (sz - prefixLen c)
        in case find_block (bits c) blockSize 0 totalBlocks of
             None \<Rightarrow> Inl (Errorf (''no available CIDR blocks of size /'' @ Itoa sz))
           | Some i \<Rightarrow>
               let cidr = block_cidr c sz (i * blockSize)
               in (case MarkAllocated c cidr of
                     Inl err \<Rightarrow> Inl err
                   | Inr c' \<Rightarrow> Inr (cidr, c')))"

fun count_free :: "int \<Rightarrow> nat \<Rightarrow> nat \<Rightarrow> nat \<Rightarrow> nat" where
  "count_free b blockSize i 0 = 0"
| "count_free b blockSize i (Suc n) =
     (if range_free b (i * blockSize) blockSize then 1 else 0) + count_free b blockSize (Suc i) n"

definition GetFreeBlockCount :: "CIDRMap \<Rightarrow> string \<rightharpoonup> nat" where
  "GetFreeBlockCount c =
     map_of (map (\<lambda>sz. (Itoa sz,
                          count_free (bits c) (pow2_int64 (32 - sz)) 0 (pow2_int64 (sz - prefixLen c))))
                 [minSize c..maxSize c])"

text \<open>The marking loop of \<open>CalculatePoolStatus\<close>; its state is the map and the set of counted CIDRs.\<close>

fun mark_all :: "CIDRMap \<Rightarrow> string set \<Rightarrow> string list \<Rightarrow> CIDRMap \<times> string set" where
  "mark_all m uniq [] = (m, uniq)"
| "mark_all m uniq (cidr # rest) =
     (if cidr \<in> uniq then mark_all m uniq rest
      else case MarkAllocated m cidr of
             Inr m' \<Rightarrow> mark_all m' (insert cidr uniq) rest
           | Inl err \<Rightarrow>
               if Contains_str (err_text err) ''already allocated''
               then mark_all m (insert cidr uniq) rest
               else mark_all m (insert cidr uniq - {cidr}) rest)"

definition CalculatePoolStatus :: "string \<Rightarrow> string list \<Rightarrow> (error, nat \<times> (string \<rightharpoonup> nat)) result" where
  "CalculatePoolStatus poolCIDR allocations =
     (case NewCIDRMap poolCIDR of
        Inl err \<Rightarrow> Inl (Wrapf ''failed to create CIDR map: '' err)
      | Inr m \<Rightarrow>
          let (m', uniq) = mark_all m {} allocations
          in Inr (card uniq, GetFreeBlockCount m'))"

definition ParseCIDRSize :: "string \<Rightarrow> (error, int) result" where
  "ParseCIDRSize cidr =
     (let parts = Split cidr (CHR ''/'')
      in if length parts \<noteq> 2 then Inl (Errorf (''invalid CIDR format: '' @ cidr))
         else case Atoi (parts ! 1) of
                Inl err \<Rightarrow> Inl (Wrapf ''invalid prefix length: '' err)
              | Inr n \<Rightarrow> Inr n)"

section \<open>Interfaces\<close>

text \<open>
  A bit set with a range test and a range update, as seen through the set of its members;
  and a first-fit scan over consecutive blocks of \<open>k\<close> members, built on the range test.
\<close>

locale bitset =
  fixes elems :: "'b \<Rightarrow> nat set"
    and free :: "'b \<Rightarrow> nat \<Rightarrow> nat \<Rightarrow> bool"
    and mark :: "'b \<Rightarrow> nat \<Rightarrow> nat \<Rightarrow> 'b"
  assumes free_iff: "free b s n \<longleftrightarrow> elems b \<inter> block s n = {}"
    and elems_mark: "elems (mark b s n) = elems b \<union> block s n"
begin

lemma free_mark_other: "block s n \<inter> block t k = {} \<Longrightarrow> free (mark b t k) s n = free b s n"
  by (auto simp: free_iff elems_mark)

lemma not_free_mark: "0 < n \<Longrightarrow> \<not> free (mark b s n) s n"
  using block_nonempty [of n s] by (simp add: free_iff elems_mark del: mem_block) blast

lemma free_sub: "free b s n \<Longrightarrow> block t k \<subseteq> block s n \<Longrightarrow> free b t k"
  by (auto simp: free_iff)

end

locale first_fit = bitset elems free mark
  for elems :: "'b \<Rightarrow> nat set" and free mark +
  fixes find :: "'b \<Rightarrow> nat \<Rightarrow> nat \<Rightarrow> nat \<Rightarrow> nat option"
    and count :: "'b \<Rightarrow> nat \<Rightarrow> nat \<Rightarrow> nat \<Rightarrow> nat"
  assumes find_0: "find b k i 0 = None"
    and find_Suc: "find b k i (Suc n) = (if free b (i * k) k then Some i else find b k (Suc i) n)"
    and count_0: "count b k i 0 = 0"
    and count_Suc: "count b k i (Suc n) = (if free b (i * k) k then 1 else 0) + count b k (Suc i) n"
begin

lemma find_None: "find b k i n = None \<longleftrightarrow> (\<forall>j\<in>{i..<i + n}. \<not> free b (j * k) k)"
proof (induction n arbitrary: i)
  case 0
  show ?case by (simp add: find_0)
next
  case (Suc n)
  have "{i..<i + Suc n} = insert i {Suc i..<Suc i + n}" by auto
  with Suc show ?case by (simp add: find_Suc)
qed

lemma find_Some:
  assumes "find b k i n = Some j"
  shows "i \<le> j \<and> j < i + n \<and> free b (j * k) k \<and> (\<forall>l\<in>{i..<j}. \<not> free b (l * k) k)"
  using assms
proof (induction n arbitrary: i)
  case 0
  then show ?case by (simp add: find_0)
next
  case (Suc n)
  show ?case
  proof (cases "free b (i * k) k")
    case True
    with Suc.prems show ?thesis by (simp add: find_Suc)
  next
    case False
    with Suc have "Suc i \<le> j \<and> j < Suc i + n \<and> free b (j * k) k \<and> (\<forall>l\<in>{Suc i..<j}. \<not> free b (l * k) k)"
      using Suc.IH [of "Suc i"] by (simp add: find_Suc)
    moreover then have "{i..<j} = insert i {Suc i..<j}" by auto
    ultimately show ?thesis using False by simp
  qed
qed

lemma count_card: "count b k i n = card {j \<in> {i..<i + n}. free b (j * k) k}"
proof (induction n arbitrary: i)
  case 0
  show ?case by (simp add: count_0)
next
  case (Suc n)
  have "{j \<in> {i..<i + Suc n}. free b (j * k) k}
      = (if free b (i * k) k then insert i {j \<in> {Suc i..<Suc i + n}. free b (j * k) k}
         else {j \<in> {Suc i..<Suc i + n}. free b (j * k) k})"
    by (auto simp: le_Suc_eq) (metis Suc_leI le_neq_implies_less)+
  with Suc show ?case by (simp add: count_Suc)
qed

end

lemma range_free_iff: "range_free b s n \<longleftrightarrow> {i. bit b i} \<inter> block s n = {}"
proof (induction b s n rule: range_free.induct)
  case (1 b s)
  show ?case by simp
next
  case (2 b s n)
  have "block s (Suc n) = insert s (block (Suc s) n)" by (auto simp: block_def)
  with 2 show ?case by auto
qed

lemma set_range_bits: "{i. bit (set_range b s n) i} = {i. bit b i} \<union> block s n"
proof (induction b s n rule: set_range.induct)
  case (1 b s)
  show ?case by simp
next
  case (2 b s n)
  have "block s (Suc n) = insert s (block (Suc s) n)" by (auto simp: block_def)
  moreover have "{i. bit (set_bit s b) i} = insert s {i. bit b i}"
    by (auto simp: bit_simps)
  ultimately show ?case using 2 by simp
qed

interpretation bm: first_fit "\<lambda>b. {i. bit b i}" range_free set_range find_block count_free
  by unfold_locales (simp_all add: range_free_iff set_range_bits)

section \<open>Well-formed maps and their address sets\<close>

definition wf_map :: "CIDRMap \<Rightarrow> bool" where
  "wf_map c \<longleftrightarrow> length (baseIP c) = 4 \<and> 12 \<le> prefixLen c \<and> prefixLen c \<le> 28
     \<and> ipval (baseIP c) mod 2 ^ nat (32 - prefixLen c) = 0 \<and> minSize c = 16 \<and> maxSize c = 28"

definition pool_addrs :: "CIDRMap \<Rightarrow> nat set" where
  "pool_addrs c = block (ipval (baseIP c)) (2 ^ nat (32 - prefixLen c))"

definition used_addrs :: "CIDRMap \<Rightarrow> nat set" where
  "used_addrs c = (+) (ipval (baseIP c)) ` {i. bit (bits c) i}"

text \<open>\<open>v4_cidr s a k\<close>: the text \<open>s\<close> is an IPv4 CIDR with network address \<open>a\<close> and prefix length \<open>k\<close>.\<close>

definition v4_cidr :: "string \<Rightarrow> nat \<Rightarrow> nat \<Rightarrow> bool" where
  "v4_cidr s a k \<longleftrightarrow> (\<exists>ip n. ParseCIDR s = Inr (ip, n) \<and> parsed_net n 4 k \<and> ipval (IPNet_IP n) = a)"

lemma v4_cidr_fun: "v4_cidr s a k \<Longrightarrow> v4_cidr s a' k' \<Longrightarrow> a' = a \<and> k' = k"
proof -
  assume "v4_cidr s a k" "v4_cidr s a' k'"
  then obtain n where "parsed_net n 4 k" "parsed_net n 4 k'" "ipval (IPNet_IP n) = a" "ipval (IPNet_IP n) = a'"
    by (auto simp: v4_cidr_def)
  moreover then have "Mask_Size (mask_bytes 4 k) = Mask_Size (mask_bytes 4 k')" "k \<le> 32" "k' \<le> 32"
    by (auto simp: parsed_net_def)
  ultimately show ?thesis by (simp add: Mask_Size_mask_bytes)
qed

lemma v4_cidr_aligned: "v4_cidr s a k \<Longrightarrow> a mod 2 ^ (32 - k) = 0 \<and> k \<le> 32"
  using masked_aligned [of _ 4] by (fastforce simp: v4_cidr_def parsed_net_def)

lemma v4_cidr_print:
  assumes "length ip = 4" and "k \<le> 32" and "ipval ip mod 2 ^ (32 - k) = 0"
  shows "v4_cidr (IP_String ip @ ''/'' @ nat_str k) (ipval ip) k"
proof -
  have "ipval (and_bytes ip (mask_bytes 4 k)) = ipval ip"
    using assms ipval_masked [of ip 4 k] by (metis div_mult_mod_eq add_0_right mult_numeral_1_right numeral_times_numeral semiring_norm(11) semiring_norm(13))
  then show ?thesis
    using ParseCIDR_print [OF assms(1,2)] parsed_net_v4_net [OF assms(1,2)]
    by (auto simp: v4_cidr_def v4_net_def)
qed

section \<open>Byte arithmetic does not wrap inside a pool\<close>

lemma word_and_le: "(a::byte) AND b \<le> a"
  by (simp add: word_le_nat_alt unsigned_and_eq and_nat_def nat_le_iff AND_upper1)

lemma unat_sub_and: "unat ((a::byte) - (a AND b)) + unat (a AND b) = unat a"
  using word_and_le [of a b] by (simp add: unat_sub word_le_nat_alt)

lemma ipval_sub_masked:
  "length m = length ip \<Longrightarrow> ipval (map2 (-) ip (and_bytes ip m)) + ipval (and_bytes ip m) = ipval ip"
proof (induction ip m rule: list_induct2')
  case (4 a ip b m)
  have "(unat (a - (a AND b)) + unat (a AND b)) * 2 ^ (8 * length ip) = unat a * 2 ^ (8 * length ip)"
    by (simp only: unat_sub_and)
  with 4 show ?case by (simp add: algebra_simps)
qed simp_all

lemma leval_bytes: "leval (add_offset_rev (replicate n 0) x) = x mod 2 ^ (8 * n)"
proof (induction n arbitrary: x)
  case 0
  show ?case by simp
next
  case (Suc n)
  have "x mod (256 * 2 ^ (8 * n)) = 256 * (x div 256 mod 2 ^ (8 * n)) + x mod 256"
    by (simp add: mod_mult2_eq)
  moreover have "unat (of_nat (x mod 256) :: byte) = x mod 256"
    by (simp add: unat_of_nat)
  ultimately show ?case using Suc [of "x div 256"] by (simp add: power_add)
qed

lemma length_add_offset_rev [simp]: "length (add_offset_rev bs x) = length bs"
  by (induction bs x rule: add_offset_rev.induct) simp_all

lemma add_offset_rev_leval:
  "length ds = length bs \<Longrightarrow> add_offset_rev bs (leval ds) = map2 (+) bs ds"
proof (induction bs ds rule: list_induct2')
  case (4 b bs d ds)
  have "(unat d + 256 * leval ds) mod 256 = unat d" "(unat d + 256 * leval ds) div 256 = leval ds"
    using unat_byte_less [of d] by simp_all
  with 4 show ?case by simp
qed simp_all

text \<open>The address with value \<open>x\<close>: every value below \<open>2 ^ 32\<close> has one.\<close>

definition ip_of :: "nat \<Rightarrow> IP" where
  "ip_of x = rev (add_offset_rev (replicate 4 0) x)"

lemma length_ip_of [simp]: "length (ip_of x) = 4"
  by (simp add: ip_of_def)

lemma ipval_ip_of: "x < 2 ^ 32 \<Longrightarrow> ipval (ip_of x) = x"
  using leval_bytes [of 4 x] by (simp add: ip_of_def ipval_rev)

lemma ip_of_ipval: "length ip = 4 \<Longrightarrow> ip_of (ipval ip) = ip"
  using ipval_less [of ip] by (intro iffD1 [OF ipval_inject]) (simp_all add: ipval_ip_of)

text \<open>An address whose network part is the base has the base as its masked form.\<close>

lemma masked_base:
  assumes "length ip = 4" and "length base = 4" and "p \<le> 32"
    and "ipval base mod 2 ^ (32 - p) = 0" and "ipval ip \<in> block (ipval base) (2 ^ (32 - p))"
  shows "and_bytes ip (mask_bytes 4 p) = base"
proof -
  have "ipval ip div 2 ^ (32 - p) = ipval base div 2 ^ (32 - p)"
    by (rule iffD1 [OF aligned_mem_block [OF assms(4)] assms(5)]) simp
  moreover have "ipval base div 2 ^ (32 - p) * 2 ^ (32 - p) = ipval base"
    using assms(4) by auto
  ultimately have "ipval (and_bytes ip (mask_bytes 4 p)) = ipval base"
    using ipval_masked [of ip 4 p] assms(1,3) by simp
  then show ?thesis using assms(1,2) by (subst (asm) ipval_inject) simp_all
qed

lemma sub_base:
  assumes "length ip = 4" and "length base = 4" and "p \<le> 32"
    and "ipval base mod 2 ^ (32 - p) = 0" and "ipval ip \<in> block (ipval base) (2 ^ (32 - p))"
  shows "ipval (map2 (-) ip base) + ipval base = ipval ip"
  using ipval_sub_masked [of "mask_bytes 4 p" ip] masked_base [OF assms] assms(1) by simp

lemma map2_rev: "length xs = length ys \<Longrightarrow> map2 f (rev xs) (rev ys) = rev (map2 f xs ys)"
  by (simp add: zip_rev rev_map)

lemma map2_add_sub: "length a = length b \<Longrightarrow> map2 (+) b (map2 (-) a b) = (a :: byte list)"
  by (induction a b rule: list_induct2) simp_all

lemma add_offset_base:
  assumes "length base = 4" and "p \<le> 32" and "ipval base mod 2 ^ (32 - p) = 0"
    and "off < 2 ^ (32 - p)" and "ipval base + off < 2 ^ 32"
  shows "rev (add_offset_rev (rev base) off) = ip_of (ipval base + off)"
proof -
  let ?ip = "ip_of (ipval base + off)"
  have v: "ipval ?ip = ipval base + off" using assms(5) by (rule ipval_ip_of)
  then have "ipval (map2 (-) ?ip base) + ipval base = ipval base + off"
    using sub_base [OF length_ip_of assms(1-3)] assms(4) by (metis le_add1 mem_block nat_add_left_cancel_less)
  then have off: "leval (rev (map2 (-) ?ip base)) = off" by (simp add: leval_rev)
  have "add_offset_rev (rev base) off = map2 (+) (rev base) (rev (map2 (-) ?ip base))"
    using add_offset_rev_leval [of "rev (map2 (-) ?ip base)" "rev base"] off assms(1) by simp
  also have "\<dots> = rev (map2 (+) base (map2 (-) ?ip base))"
    using assms(1) by (intro map2_rev) simp
  finally show ?thesis using assms(1) map2_add_sub [of ?ip base] by simp
qed

section \<open>The operations on address sets\<close>

lemma wf_mapD:
  assumes "wf_map c"
  obtains p where "prefixLen c = int p" and "12 \<le> p" and "p \<le> 28" and "length (baseIP c) = 4"
    and "ipval (baseIP c) mod 2 ^ (32 - p) = 0" and "minSize c = 16" and "maxSize c = 28"
    and "pool_addrs c = block (ipval (baseIP c)) (2 ^ (32 - p))"
proof
  from assms show "prefixLen c = int (nat (prefixLen c))" by (simp add: wf_map_def)
  from assms have "nat (32 - prefixLen c) = 32 - nat (prefixLen c)"
    by (simp add: wf_map_def nat_diff_distrib)
  with assms show "ipval (baseIP c) mod 2 ^ (32 - nat (prefixLen c)) = 0"
    and "pool_addrs c = block (ipval (baseIP c)) (2 ^ (32 - nat (prefixLen c)))"
    by (simp_all add: wf_map_def pool_addrs_def)
qed (use assms in \<open>auto simp: wf_map_def\<close>)

lemma pool_addrs_bound: "wf_map c \<Longrightarrow> x \<in> pool_addrs c \<Longrightarrow> x < 2 ^ 32"
proof -
  assume wf: "wf_map c" and x: "x \<in> pool_addrs c"
  obtain p where p: "p \<le> 28" "length (baseIP c) = 4" "ipval (baseIP c) mod 2 ^ (32 - p) = 0"
    and pool: "pool_addrs c = block (ipval (baseIP c)) (2 ^ (32 - p))" using wf by (rule wf_mapD)
  have "ipval (baseIP c) + 2 ^ (32 - p) \<le> 2 ^ 32"
    using p ipval_less [of "baseIP c"] by (intro aligned_block_bound) simp_all
  with x show ?thesis unfolding pool by simp
qed

lemma used_addrs_free:
  "used_addrs c \<inter> block (ipval (baseIP c) + s) n = {} \<longleftrightarrow> range_free (bits c) s n"
  unfolding range_free_iff by (auto simp: used_addrs_def block_def)

lemma used_addrs_set_range:
  "used_addrs (c\<lparr>bits := set_range (bits c) s n\<rparr>) = used_addrs c \<union> block (ipval (baseIP c) + s) n"
proof -
  have "block (ipval (baseIP c) + s) n = (+) (ipval (baseIP c)) ` block s n"
    by (simp add: block_def ac_simps)
  then show ?thesis by (simp add: used_addrs_def set_range_bits image_Un)
qed

lemma pool_addrs_bits [simp]: "pool_addrs (c\<lparr>bits := b\<rparr>) = pool_addrs c"
  by (simp add: pool_addrs_def)

lemma wf_map_bits [simp]: "wf_map (c\<lparr>bits := b\<rparr>) = wf_map c"
  by (simp add: wf_map_def)

lemma map_contains_wf:
  assumes wf: "wf_map c"
  shows "map_contains c n \<longleftrightarrow> length (canon (IPNet_IP n)) = 4 \<and> ipval (canon (IPNet_IP n)) \<in> pool_addrs c"
proof -
  obtain p where p: "prefixLen c = int p" "p \<le> 28" "length (baseIP c) = 4"
      "ipval (baseIP c) mod 2 ^ (32 - p) = 0"
    and pool: "pool_addrs c = block (ipval (baseIP c)) (2 ^ (32 - p))" using wf by (rule wf_mapD)
  let ?n = "\<lparr>IPNet_IP = baseIP c, IPNet_Mask = mask_bytes 4 p\<rparr>"
  have "net_form ?n (baseIP c) 4 p"
    using p by (simp add: net_form_def networkNumberAndMask_def)
  moreover have "CIDRMask (prefixLen c) 32 = Some (mask_bytes 4 p)"
    using p by (simp add: CIDRMask_def)
  ultimately show ?thesis
    by (simp add: map_contains_def Contains_net_form pool del: mem_block)
qed

lemma getCIDRBitRange_wf:
  assumes wf: "wf_map c" and n: "parsed_net n 4 k" and a: "ipval (IPNet_IP n) \<in> pool_addrs c"
  shows "getCIDRBitRange c n = (ipval (IPNet_IP n) - ipval (baseIP c), 2 ^ (32 - k))"
proof -
  obtain p where p: "p \<le> 28" "length (baseIP c) = 4" "ipval (baseIP c) mod 2 ^ (32 - p) = 0"
    and pool: "pool_addrs c = block (ipval (baseIP c)) (2 ^ (32 - p))" using wf by (rule wf_mapD)
  from n have l: "length (IPNet_IP n) = 4" and m: "Mask_Size (IPNet_Mask n) = (int k, 32)" and k: "k \<le> 32"
    by (auto simp: parsed_net_def Mask_Size_mask_bytes)
  have "ipval (map2 (-) (IPNet_IP n) (baseIP c)) + ipval (baseIP c) = ipval (IPNet_IP n)"
    using sub_base [OF l p(2) _ p(3)] p(1) a unfolding pool by simp
  moreover obtain a0 a1 a2 a3 where "IPNet_IP n = [a0, a1, a2, a3]"
    using l by (auto simp: length_Suc_conv eval_nat_numeral)
  moreover obtain b0 b1 b2 b3 where "baseIP c = [b0, b1, b2, b3]"
    using p(2) by (auto simp: length_Suc_conv eval_nat_numeral)
  ultimately show ?thesis
    using k by (simp add: getCIDRBitRange_def m nat_diff_distrib pow2_int64_def)
qed

lemma MarkAllocated_v4:
  assumes wf: "wf_map c" and s: "v4_cidr s a k"
  shows "MarkAllocated c s =
    (if a \<notin> pool_addrs c then Inl (Errorf (''CIDR '' @ s @ '' is outside the pool range''))
     else if used_addrs c \<inter> block a (2 ^ (32 - k)) \<noteq> {}
     then Inl (Errorf (''CIDR '' @ s @ '' or portion of it is already allocated''))
     else Inr (c\<lparr>bits := set_range (bits c) (a - ipval (baseIP c)) (2 ^ (32 - k))\<rparr>))"
proof -
  from s obtain ip n where ps: "ParseCIDR s = Inr (ip, n)" and n: "parsed_net n 4 k"
    and a: "ipval (IPNet_IP n) = a" by (auto simp: v4_cidr_def)
  have l: "length (IPNet_IP n) = 4" using n by (simp add: parsed_net_def)
  show ?thesis
  proof (cases "a \<in> pool_addrs c")
    case True
    then have "ipval (baseIP c) \<le> a" by (simp add: pool_addrs_def)
    then have "used_addrs c \<inter> block a (2 ^ (32 - k)) = {}
        \<longleftrightarrow> range_free (bits c) (a - ipval (baseIP c)) (2 ^ (32 - k))"
      using used_addrs_free [of c "a - ipval (baseIP c)"] by simp
    with True show ?thesis
      using getCIDRBitRange_wf [OF wf n] a l by (simp add: MarkAllocated_def ps map_contains_wf [OF wf])
  next
    case False
    with a l show ?thesis by (simp add: MarkAllocated_def ps map_contains_wf [OF wf])
  qed
qed

lemma MarkAllocated_v4_Inr:
  assumes wf: "wf_map c" and s: "v4_cidr s a k" and m: "MarkAllocated c s = Inr c'"
  shows "a \<in> pool_addrs c \<and> used_addrs c \<inter> block a (2 ^ (32 - k)) = {}
    \<and> used_addrs c' = used_addrs c \<union> block a (2 ^ (32 - k)) \<and> pool_addrs c' = pool_addrs c
    \<and> baseIP c' = baseIP c \<and> wf_map c'"
proof -
  from m have a: "a \<in> pool_addrs c" and f: "used_addrs c \<inter> block a (2 ^ (32 - k)) = {}"
    and c': "c' = c\<lparr>bits := set_range (bits c) (a - ipval (baseIP c)) (2 ^ (32 - k))\<rparr>"
    by (auto simp: MarkAllocated_v4 [OF wf s] simp del: mem_block split: if_splits)
  moreover from a have "ipval (baseIP c) + (a - ipval (baseIP c)) = a" by (simp add: pool_addrs_def)
  ultimately show ?thesis using wf by (simp add: used_addrs_set_range)
qed

section \<open>New maps\<close>

definition new_map :: "nat \<Rightarrow> nat \<Rightarrow> CIDRMap" where
  "new_map a k = \<lparr>baseIP = ip_of a, prefixLen = int k, bits = 0, maxSize = 28, minSize = 16\<rparr>"

lemma v4_cidr_range: "v4_cidr s a k \<Longrightarrow> a < 2 ^ 32"
proof -
  assume "v4_cidr s a k"
  then obtain n :: IPNet where "length (IPNet_IP n) = 4" "ipval (IPNet_IP n) = a"
    by (auto simp: v4_cidr_def parsed_net_def)
  with ipval_less [of "IPNet_IP n"] show ?thesis by simp
qed

lemma NewCIDRMap_v4:
  assumes "v4_cidr s a k"
  shows "NewCIDRMap s =
    (if k > 28 then Inl (Errorf ''prefix length must be at most /28'')
     else if k < 12 then Inl (Errorf ''prefix length must be at least /12'')
     else Inr (new_map a k))"
proof -
  from assms obtain ip n where "ParseCIDR s = Inr (ip, n)" "parsed_net n 4 k" "ipval (IPNet_IP n) = a"
    by (auto simp: v4_cidr_def)
  moreover then have "IPNet_IP n = ip_of a" "k \<le> 32" "IPNet_Mask n = mask_bytes 4 k"
    using ip_of_ipval by (auto simp: parsed_net_def)
  ultimately show ?thesis by (simp add: NewCIDRMap_def new_map_def Mask_Size_mask_bytes)
qed

lemma NewCIDRMap_Inr:
  assumes "NewCIDRMap s = Inr c"
  obtains a k where "v4_cidr s a k" and "12 \<le> k" and "k \<le> 28" and "c = new_map a k"
proof -
  from assms obtain ip n where ps: "ParseCIDR s = Inr (ip, n)" and v4: "To4 (IPNet_IP n) \<noteq> None"
    and pl: "fst (Mask_Size (IPNet_Mask n)) \<le> 28"
    by (auto simp: NewCIDRMap_def Let_def split: sum.splits option.splits if_splits)
  obtain l k where n: "parsed_net n l k" by (rule ParseCIDR_parsed_net [OF ps])
  then have k: "k \<le> 28" and l: "l = 4 \<or> l = 16"
    using pl by (auto simp: parsed_net_def Mask_Size_mask_bytes)
  have "l = 4" using mapped_prefix [of n k] n v4 k l by auto
  with n ps have s: "v4_cidr s (ipval (IPNet_IP n)) k" by (auto simp: v4_cidr_def)
  then show ?thesis
    using assms that [OF s] k by (auto simp: NewCIDRMap_v4 [OF s] split: if_splits)
qed

lemma new_map_wf:
  assumes "v4_cidr s a k" and "12 \<le> k" and "k \<le> 28"
  shows "wf_map (new_map a k)" and "used_addrs (new_map a k) = {}"
    and "pool_addrs (new_map a k) = block a (2 ^ (32 - k))"
  using v4_cidr_aligned [OF assms(1)] ipval_ip_of [OF v4_cidr_range [OF assms(1)]] assms(2,3)
  by (simp_all add: wf_map_def new_map_def used_addrs_def pool_addrs_def nat_diff_distrib)

section \<open>First fit\<close>

text \<open>\<open>fits c k a\<close>: the aligned block of prefix length \<open>k\<close> at \<open>a\<close> lies in the pool and is free.\<close>

definition fits :: "CIDRMap \<Rightarrow> nat \<Rightarrow> nat \<Rightarrow> bool" where
  "fits c k a \<longleftrightarrow> a mod 2 ^ (32 - k) = 0 \<and> block a (2 ^ (32 - k)) \<subseteq> pool_addrs c
     \<and> block a (2 ^ (32 - k)) \<inter> used_addrs c = {}"

lemma card_block [simp]: "card (block a k) = k"
  by (simp add: block_def)

lemma block_subset: "0 < k \<Longrightarrow> block a k \<subseteq> block b n \<longleftrightarrow> b \<le> a \<and> a + k \<le> b + n"
  by (simp add: block_def)

lemma pool_slots:
  assumes wf: "wf_map c" and k: "k \<le> 28"
  shows "a mod 2 ^ (32 - k) = 0 \<and> block a (2 ^ (32 - k)) \<subseteq> pool_addrs c \<longleftrightarrow>
    (\<exists>i < pow2_int64 (int k - prefixLen c). a = ipval (baseIP c) + i * 2 ^ (32 - k))"
proof -
  let ?b = "ipval (baseIP c)" and ?h = "2 ^ (32 - k) :: nat"
  obtain p where p: "prefixLen c = int p" "p \<le> 28" "?b mod 2 ^ (32 - p) = 0"
    and pool: "pool_addrs c = block ?b (2 ^ (32 - p))" using wf by (rule wf_mapD)
  show ?thesis
  proof (cases "p \<le> k")
    case True
    then have e: "(2::nat) ^ (32 - p) = ?h * 2 ^ (k - p)"
      using k by (simp flip: power_add)
    then have "?h dvd ?b" using p(3) by (metis dvd_mult_left mod_0_imp_dvd)
    then obtain q where q: "?b = ?h * q" ..
    have slots: "pow2_int64 (int k - prefixLen c) = 2 ^ (k - p)"
      using True p(1) by (simp add: nat_diff_distrib flip: of_nat_diff)
    have "(a mod ?h = 0 \<and> ?b \<le> a \<and> a + ?h \<le> ?b + ?h * 2 ^ (k - p)) \<longleftrightarrow>
        (\<exists>i < 2 ^ (k - p). a = ?b + i * ?h)" (is "?L \<longleftrightarrow> ?R")
    proof
      assume ?L
      then obtain r where r: "a = ?h * r" by auto
      with \<open>?L\<close> q have "?h * q \<le> ?h * r" "?h * (r + 1) \<le> ?h * (q + 2 ^ (k - p))"
        by (simp_all add: algebra_simps)
      then have "q \<le> r" "r + 1 \<le> q + 2 ^ (k - p)"
        by (simp_all only: mult_le_cancel1) simp_all
      then have "r - q < 2 ^ (k - p) \<and> a = ?b + (r - q) * ?h"
        unfolding r q by (simp add: algebra_simps)
      then show ?R by blast
    next
      assume ?R
      then obtain i where i: "i < 2 ^ (k - p)" "a = ?b + i * ?h" by blast
      then have "?h * (i + 1) \<le> ?h * 2 ^ (k - p)" by (intro mult_le_mono2) simp
      with i q show ?L by (simp add: algebra_simps)
    qed
    then show ?thesis unfolding pool slots e by (simp add: block_subset)
  next
    case False
    then have "\<not> block a ?h \<subseteq> pool_addrs c"
      using card_mono [of "pool_addrs c" "block a ?h"] p k unfolding pool
      by (auto simp: block_def)
    with False p(1) show ?thesis by simp
  qed
qed

lemma block_cidr_wf:
  assumes wf: "wf_map c" and k: "k \<le> 28" and a: "a = ipval (baseIP c) + s" and in_pool: "a \<in> pool_addrs c"
    and al: "a mod 2 ^ (32 - k) = 0"
  shows "block_cidr c (int k) s = IP_String (ip_of a) @ ''/'' @ nat_str k"
    and "v4_cidr (block_cidr c (int k) s) a k"
proof -
  obtain p where p: "p \<le> 28" "length (baseIP c) = 4" "ipval (baseIP c) mod 2 ^ (32 - p) = 0"
    and pool: "pool_addrs c = block (ipval (baseIP c)) (2 ^ (32 - p))" using wf by (rule wf_mapD)
  have lt: "a < 2 ^ 32" using wf in_pool by (rule pool_addrs_bound)
  have "rev (add_offset_rev (rev (baseIP c)) s) = ip_of a"
    unfolding a using p in_pool lt by (intro add_offset_base) (simp_all add: a pool)
  then show e: "block_cidr c (int k) s = IP_String (ip_of a) @ ''/'' @ nat_str k"
    by (simp add: block_cidr_def Itoa_nat)
  show "v4_cidr (block_cidr c (int k) s) a k"
    using v4_cidr_print [of "ip_of a" k] k al ipval_ip_of [OF lt] unfolding e by simp
qed

lemma fits_slots:
  assumes wf: "wf_map c" and k: "k \<le> 28"
  shows "fits c k a \<longleftrightarrow> (\<exists>i < pow2_int64 (int k - prefixLen c).
     a = ipval (baseIP c) + i * 2 ^ (32 - k) \<and> range_free (bits c) (i * 2 ^ (32 - k)) (2 ^ (32 - k)))"
proof -
  have "block (ipval (baseIP c) + s) n \<inter> used_addrs c = {} \<longleftrightarrow> range_free (bits c) s n" for s n
    using used_addrs_free [of c s n] by (simp add: Int_commute)
  with pool_slots [OF wf k, of a] show ?thesis unfolding fits_def by metis
qed

lemma AllocateNextAvailable_first_fit:
  assumes wf: "wf_map c" and k: "16 \<le> k" "k \<le> 28" and a: "fits c k a" and least: "\<And>b. fits c k b \<Longrightarrow> a \<le> b"
  shows "AllocateNextAvailable c (int k) =
    Inr (IP_String (ip_of a) @ ''/'' @ nat_str k,
         c\<lparr>bits := set_range (bits c) (a - ipval (baseIP c)) (2 ^ (32 - k))\<rparr>)"
proof -
  let ?h = "2 ^ (32 - k) :: nat" and ?n = "pow2_int64 (int k - prefixLen c)"
  have min: "minSize c = 16" "maxSize c = 28" using wf by (simp_all add: wf_map_def)
  have bs: "pow2_int64 (32 - int k) = ?h" using k by (simp add: nat_diff_distrib)
  from a obtain i where i: "i < ?n" "a = ipval (baseIP c) + i * ?h" "range_free (bits c) (i * ?h) ?h"
    unfolding fits_slots [OF wf k(2)] by blast
  have "find_block (bits c) ?h 0 ?n \<noteq> None" using i by (auto simp: bm.find_None)
  then obtain j where f: "find_block (bits c) ?h 0 ?n = Some j" by blast
  from bm.find_Some [OF f] have j: "j < ?n" "range_free (bits c) (j * ?h) ?h"
    and less: "\<forall>l\<in>{0..<j}. \<not> range_free (bits c) (l * ?h) ?h" by simp_all
  have "fits c k (ipval (baseIP c) + j * ?h)"
    unfolding fits_slots [OF wf k(2)] using j by blast
  then have "i * ?h \<le> j * ?h" using least i(2) add_le_cancel_left by metis
  then have "i \<le> j" by simp
  moreover have "\<not> i < j" using less i(3) by auto
  ultimately have ij: "j = i" by simp
  have al: "a mod ?h = 0" and sub: "block a ?h \<subseteq> pool_addrs c" and fr: "used_addrs c \<inter> block a ?h = {}"
    using a by (auto simp: fits_def)
  have "a \<in> block a ?h" by simp
  then have ap: "a \<in> pool_addrs c" using sub by (rule rev_subsetD)
  note bc = block_cidr_wf [OF wf k(2) i(2) ap al]
  show ?thesis
    using k MarkAllocated_v4 [OF wf bc(2)] ap fr
    by (simp add: AllocateNextAvailable_def min bs f ij bc(1) Itoa_nat)
qed

lemma AllocateNextAvailable_none:
  assumes wf: "wf_map c" and k: "16 \<le> k" "k \<le> 28" and none: "\<And>a. \<not> fits c k a"
  shows "AllocateNextAvailable c (int k) = Inl (Errorf (''no available CIDR blocks of size /'' @ nat_str k))"
proof -
  let ?h = "2 ^ (32 - k) :: nat" and ?n = "pow2_int64 (int k - prefixLen c)"
  have "minSize c = 16" "maxSize c = 28" using wf by (simp_all add: wf_map_def)
  moreover have "pow2_int64 (32 - int k) = ?h" using k by (simp add: nat_diff_distrib)
  moreover have "find_block (bits c) ?h 0 ?n = None"
    using none unfolding fits_slots [OF wf k(2)] bm.find_None by auto
  ultimately show ?thesis using k by (simp add: AllocateNextAvailable_def Itoa_nat)
qed

lemma AllocateNextAvailable_range:
  "wf_map c \<Longrightarrow> sz < 16 \<or> sz > 28 \<Longrightarrow>
   AllocateNextAvailable c sz = Inl (Errorf (''size must be between '' @ Itoa 16 @ '' and '' @ Itoa 28))"
  by (auto simp: AllocateNextAvailable_def wf_map_def)

text \<open>The two outcomes of an allocation on a well-formed map.\<close>

lemma AllocateNextAvailable_cases:
  assumes wf: "wf_map c" and k: "16 \<le> k" "k \<le> 28"
  obtains (none) "\<And>a. \<not> fits c k a"
      and "AllocateNextAvailable c (int k) = Inl (Errorf (''no available CIDR blocks of size /'' @ nat_str k))"
  | (some) a s c' where "AllocateNextAvailable c (int k) = Inr (s, c')" and "fits c k a"
      and "\<And>b. fits c k b \<Longrightarrow> a \<le> b" and "v4_cidr s a k"
      and "used_addrs c' = used_addrs c \<union> block a (2 ^ (32 - k))"
      and "pool_addrs c' = pool_addrs c" and "wf_map c'"
proof (cases "\<exists>a. fits c k a")
  case False
  then show ?thesis using none AllocateNextAvailable_none [OF wf k] by blast
next
  case True
  define a where "a = (LEAST a. fits c k a)"
  have a: "fits c k a" unfolding a_def using True by (rule LeastI_ex)
  have least: "a \<le> b" if "fits c k b" for b unfolding a_def using that by (rule Least_le)
  have "a \<in> block a (2 ^ (32 - k))" by simp
  then have ap: "a \<in> pool_addrs c" and al: "a mod 2 ^ (32 - k) = 0"
    using a unfolding fits_def by (metis subsetD)+
  then have b: "a = ipval (baseIP c) + (a - ipval (baseIP c))" by (simp add: pool_addrs_def)
  have "v4_cidr (IP_String (ip_of a) @ ''/'' @ nat_str k) a k"
    using block_cidr_wf [OF wf k(2) b ap al] by simp
  moreover have "used_addrs (c\<lparr>bits := set_range (bits c) (a - ipval (baseIP c)) (2 ^ (32 - k))\<rparr>)
      = used_addrs c \<union> block a (2 ^ (32 - k))"
    unfolding used_addrs_set_range using b by simp
  ultimately show ?thesis
    using some [OF AllocateNextAvailable_first_fit [OF wf k a least] a least] wf by simp
qed

section \<open>Counting\<close>

lemma map_of_Itoa: "z \<in> set xs \<Longrightarrow> map_of (map (\<lambda>sz. (Itoa sz, f sz)) xs) (Itoa z) = Some (f z)"
  by (induction xs) (auto simp: Itoa_inject)

lemma map_of_Itoa_None: "z \<notin> set xs \<Longrightarrow> map_of (map (\<lambda>sz. (Itoa sz, f sz)) xs) (Itoa z) = None"
  by (induction xs) (auto simp: Itoa_inject)

lemma GetFreeBlockCount_wf:
  assumes wf: "wf_map c" and k: "16 \<le> k" "k \<le> 28"
  shows "GetFreeBlockCount c (nat_str k) = Some (card {a. fits c k a})"
proof -
  let ?h = "2 ^ (32 - k) :: nat" and ?n = "pow2_int64 (int k - prefixLen c)"
  let ?S = "{j \<in> {0..<0 + ?n}. range_free (bits c) (j * ?h) ?h}"
  have in_sizes: "int k \<in> set [16..28]" using k by (simp only: set_upto) simp
  have min: "minSize c = 16" "maxSize c = 28" using wf by (simp_all add: wf_map_def)
  have bs: "pow2_int64 (32 - int k) = ?h" using k by (simp add: nat_diff_distrib)
  have "{a. fits c k a} = (\<lambda>i. ipval (baseIP c) + i * ?h) ` ?S"
    unfolding fits_slots [OF wf k(2)] by auto
  moreover have "inj_on (\<lambda>i. ipval (baseIP c) + i * ?h) ?S" by (rule inj_onI) simp
  ultimately have "card {a. fits c k a} = count_free (bits c) ?h 0 ?n"
    by (simp only: card_image bm.count_card)
  moreover have "GetFreeBlockCount c (Itoa (int k)) = Some (count_free (bits c) ?h 0 ?n)"
    unfolding GetFreeBlockCount_def min using in_sizes by (subst map_of_Itoa) (simp_all only: bs)
  ultimately show ?thesis by (simp add: Itoa_nat)
qed

text \<open>The addresses an IPv4 CIDR text covers.\<close>

definition cidr_addrs :: "string \<Rightarrow> nat set" where
  "cidr_addrs s = {x. \<exists>a k. v4_cidr s a k \<and> x \<in> block a (2 ^ (32 - k))}"

lemma cidr_addrs_v4: "v4_cidr s a k \<Longrightarrow> cidr_addrs s = block a (2 ^ (32 - k))"
  unfolding cidr_addrs_def by (auto simp del: mem_block dest: v4_cidr_fun)

lemma v4_in_block: "(a::nat) \<in> block a (2 ^ (32 - k))"
  by simp

definition in_pool :: "CIDRMap \<Rightarrow> string \<Rightarrow> bool" where
  "in_pool c s \<longleftrightarrow> (\<exists>ip n. ParseCIDR s = Inr (ip, n) \<and> map_contains c n)"

lemma in_pool_v4: "wf_map c \<Longrightarrow> v4_cidr s a k \<Longrightarrow> in_pool c s \<longleftrightarrow> a \<in> pool_addrs c"
  by (auto simp: in_pool_def v4_cidr_def map_contains_wf parsed_net_def simp del: mem_block)

lemma map_contains_bits [simp]: "map_contains (c\<lparr>bits := b\<rparr>) n = map_contains c n"
  by (simp add: map_contains_def)

lemma in_pool_bits [simp]: "in_pool (c\<lparr>bits := b\<rparr>) s = in_pool c s"
  by (simp add: in_pool_def)

lemma Contains_str_chars: "Contains_str s sub \<Longrightarrow> set sub \<subseteq> set s"
  by (auto simp: Contains_str_iff)

text \<open>
  The text test of \<open>CalculatePoolStatus\<close>: a CIDR text without the letter y cannot make
  another error look like the one for an allocated block.
\<close>

lemma MarkAllocated_text:
  assumes y: "CHR ''y'' \<notin> set s"
  shows "case MarkAllocated c s of
      Inr c' \<Rightarrow> in_pool c s \<and> (\<exists>b. c' = c\<lparr>bits := b\<rparr>)
    | Inl e \<Rightarrow> Contains_str (err_text e) ''already allocated'' \<longleftrightarrow> in_pool c s"
proof -
  have no: "\<not> Contains_str t ''already allocated''" if "CHR ''y'' \<notin> set t" for t
    using Contains_str_chars [of t "''already allocated''"] that by auto
  have yes: "Contains_str (''CIDR '' @ s @ '' or portion of it is already allocated'') ''already allocated''"
    unfolding Contains_str_iff
    by (rule exI [of _ "''CIDR '' @ s @ '' or portion of it is ''"]) (rule exI [of _ "[]"], simp)
  have parse_text: "e = ParseErr ''CIDR address'' s" if "ParseCIDR s = Inl e" for e
    using that by (auto simp: ParseCIDR_def Let_def split: if_splits option.splits)
  show ?thesis
  proof (cases "ParseCIDR s")
    case (Inl e)
    have "MarkAllocated c s = Inl (Wrapf ''invalid CIDR format: '' e)" and "\<not> in_pool c s"
      by (simp_all add: MarkAllocated_def in_pool_def Inl)
    moreover have "CHR ''y'' \<notin> set (err_text (Wrapf ''invalid CIDR format: '' e))"
      using y parse_text [OF Inl] by simp
    ultimately show ?thesis using no by simp
  next
    case (Inr r)
    obtain ip n where r: "r = (ip, n)" by (cases r)
    have ip: "in_pool c s \<longleftrightarrow> map_contains c n" by (auto simp: in_pool_def Inr r)
    obtain st sz where g: "getCIDRBitRange c n = (st, sz)" by (cases "getCIDRBitRange c n")
    have "CHR ''y'' \<notin> set (''CIDR '' @ s @ '' is outside the pool range'')" using y by simp
    then show ?thesis using yes no ip by (auto simp: MarkAllocated_def Inr r g)
  qed
qed

lemma mark_all_count:
  assumes "\<And>s. s \<in> set cs \<Longrightarrow> CHR ''y'' \<notin> set s"
  shows "snd (mark_all c u cs) = u \<union> {s \<in> set cs. in_pool c s}"
  using assms
proof (induction cs arbitrary: c u)
  case Nil
  show ?case by simp
next
  case (Cons s cs)
  have y: "CHR ''y'' \<notin> set s" and ys: "\<And>t. t \<in> set cs \<Longrightarrow> CHR ''y'' \<notin> set t" using Cons.prems by auto
  note IH = Cons.IH [OF ys] and m = MarkAllocated_text [OF y, of c]
  show ?case
  proof (cases "s \<in> u")
    case True
    then show ?thesis using IH by auto
  next
    case False
    show ?thesis
    proof (cases "MarkAllocated c s")
      case (Inl e)
      with m False show ?thesis using IH [of c] by auto
    next
      case (Inr c')
      with m obtain b where "in_pool c s" "c' = c\<lparr>bits := b\<rparr>" by auto
      with Inr False show ?thesis using IH [of c'] by auto
    qed
  qed
qed

lemma MarkAllocated_disjoint:
  assumes wf: "wf_map c" and s: "v4_cidr s a k" and a: "a \<in> pool_addrs c"
    and dis: "cidr_addrs s \<inter> used_addrs c = {}"
  obtains c' where "MarkAllocated c s = Inr c'" and "used_addrs c' = used_addrs c \<union> cidr_addrs s"
    and "pool_addrs c' = pool_addrs c" and "wf_map c'"
proof -
  from dis have "used_addrs c \<inter> block a (2 ^ (32 - k)) = {}"
    unfolding cidr_addrs_v4 [OF s] by (simp only: Int_commute)
  with a obtain c' where c': "MarkAllocated c s = Inr c'" by (auto simp: MarkAllocated_v4 [OF wf s])
  from MarkAllocated_v4_Inr [OF wf s c'] show ?thesis
    using that [OF c'] unfolding cidr_addrs_v4 [OF s] by blast
qed

lemma mark_all_used:
  assumes "wf_map c" and "used_addrs c = \<Union> (cidr_addrs ` u)"
    and "\<And>s. s \<in> set cs \<Longrightarrow> \<exists>a k. v4_cidr s a k \<and> a \<in> pool_addrs c"
    and "\<And>s t. s \<in> u \<union> set cs \<Longrightarrow> t \<in> u \<union> set cs \<Longrightarrow> s \<noteq> t \<Longrightarrow> cidr_addrs s \<inter> cidr_addrs t = {}"
  shows "used_addrs (fst (mark_all c u cs)) = \<Union> (cidr_addrs ` (u \<union> set cs))
    \<and> wf_map (fst (mark_all c u cs)) \<and> pool_addrs (fst (mark_all c u cs)) = pool_addrs c"
  using assms
proof (induction cs arbitrary: c u)
  case Nil
  then show ?case by simp
next
  case (Cons s cs)
  show ?case
  proof (cases "s \<in> u")
    case True
    then have "u \<union> set (s # cs) = u \<union> set cs" by auto
    then show ?thesis using Cons.IH [of c u] Cons.prems True by simp
  next
    case False
    from Cons.prems(3) [of s] obtain a k where s: "v4_cidr s a k" "a \<in> pool_addrs c" by auto
    have "cidr_addrs s \<inter> cidr_addrs t = {}" if "t \<in> u" for t
      using Cons.prems(4) [of s t] False that by auto
    then have "cidr_addrs s \<inter> used_addrs c = {}" unfolding Cons.prems(2) by blast
    from MarkAllocated_disjoint [OF Cons.prems(1) s this] obtain c' where c': "MarkAllocated c s = Inr c'"
      "used_addrs c' = used_addrs c \<union> cidr_addrs s" "pool_addrs c' = pool_addrs c" "wf_map c'" .
    have "used_addrs c' = \<Union> (cidr_addrs ` insert s u)" using c'(2) Cons.prems(2) by auto
    moreover have "insert s u \<union> set cs = u \<union> set (s # cs)" by auto
    ultimately show ?thesis
      using Cons.IH [of c' "insert s u"] Cons.prems(3,4) c' False by simp
  qed
qed

section \<open>Overlap of IPv4 CIDRs\<close>

lemma CIDROverlaps_v4:
  assumes s: "v4_cidr s a k" and t: "v4_cidr t b j"
  shows "CIDROverlaps s t \<longleftrightarrow> cidr_addrs s \<inter> cidr_addrs t \<noteq> {}"
proof -
  from s obtain i1 n1 where p1: "ParseCIDR s = Inr (i1, n1)" "parsed_net n1 4 k" "ipval (IPNet_IP n1) = a"
    by (auto simp: v4_cidr_def)
  from t obtain i2 n2 where p2: "ParseCIDR t = Inr (i2, n2)" "parsed_net n2 4 j" "ipval (IPNet_IP n2) = b"
    by (auto simp: v4_cidr_def)
  have l: "length (IPNet_IP n1) = 4" "length (IPNet_IP n2) = 4"
    "length (IPNet_Mask n1) = length (IPNet_Mask n2)"
    using p1(2) p2(2) by (auto simp: parsed_net_def)
  have f1: "net_form n1 (IPNet_IP n1) 4 k" and f2: "net_form n2 (IPNet_IP n2) 4 j"
    using parsed_net_form [OF p1(2)] parsed_net_form [OF p2(2)] l by simp_all
  have c: "IPNet_Contains n1 ip \<and> IPNet_Contains n2 ip \<longleftrightarrow>
      length (canon ip) = 4 \<and> ipval (canon ip) \<in> cidr_addrs s \<inter> cidr_addrs t" for ip
    using Contains_net_form [OF f1, of ip] Contains_net_form [OF f2, of ip]
    unfolding p1(3) p2(3) cidr_addrs_v4 [OF s] cidr_addrs_v4 [OF t] by (auto simp del: mem_block)
  have "CIDROverlaps s t \<longleftrightarrow> (\<exists>ip. IPNet_Contains n1 ip \<and> IPNet_Contains n2 ip)"
    by (rule CIDROverlaps_parsed [OF p1(1) p2(1) l(3)]) (simp add: l)
  also have "\<dots> \<longleftrightarrow> cidr_addrs s \<inter> cidr_addrs t \<noteq> {}"
  proof
    assume "cidr_addrs s \<inter> cidr_addrs t \<noteq> {}"
    then obtain x where x: "x \<in> cidr_addrs s \<inter> cidr_addrs t" by blast
    have "a + 2 ^ (32 - k) \<le> 2 ^ 32"
      using v4_cidr_aligned [OF s] v4_cidr_range [OF s] by (intro aligned_block_bound) simp_all
    with x have "x < 2 ^ 32" by (simp add: cidr_addrs_v4 [OF s])
    then have "ipval (canon (ip_of x)) = x" by (simp add: ipval_ip_of)
    with x show "\<exists>ip. IPNet_Contains n1 ip \<and> IPNet_Contains n2 ip"
      unfolding c by (metis canon_4 length_ip_of)
  qed (use c in auto)
  finally show ?thesis .
qed

section \<open>Characters of IPv4 CIDR texts\<close>

lemma v4_fields_chars:
  "v4_fields val dl fs prev s = Some r \<Longrightarrow> c \<in> set s \<Longrightarrow> is_digit c \<or> c = CHR ''.''"
  by (induction val dl fs prev s rule: v4_fields.induct) (auto simp: Let_def split: if_splits)

lemma dtoi_chars: "dtoi s = Some (n, []) \<Longrightarrow> c \<in> set s \<Longrightarrow> is_digit c"
proof -
  have loop: "dtoi_loop m s = Some (n, []) \<Longrightarrow> c \<in> set s \<Longrightarrow> is_digit c" for m s
    by (induction m s rule: dtoi_loop.induct) (auto simp: Let_def split: if_splits)
  show "dtoi s = Some (n, []) \<Longrightarrow> c \<in> set s \<Longrightarrow> is_digit c"
    using loop [of 0 s] by (cases s) (simp_all add: dtoi_def split: if_splits del: dtoi_loop.simps)
qed

lemma v4_cidr_chars:
  assumes "v4_cidr s a k" and c: "c \<in> set s"
  shows "is_digit c \<or> c = CHR ''.'' \<or> c = CHR ''/''"
proof -
  let ?addr = "takeWhile (\<lambda>c. c \<noteq> CHR ''/'') s" and ?rest = "dropWhile (\<lambda>c. c \<noteq> CHR ''/'') s"
  from assms(1) obtain ip n where p: "ParseCIDR s = Inr (ip, n)" and l: "length (IPNet_Mask n) = 4"
    by (auto simp: v4_cidr_def parsed_net_def)
  from p obtain b raw j m where sl: "CHR ''/'' \<in> set s" and addr: "ParseAddr ?addr = Some (b, raw)"
    and d: "dtoi (tl ?rest) = Some (j, [])" and m: "CIDRMask (int j) b = Some m" "IPNet_Mask n = m"
    by (auto simp: ParseCIDR_def Let_def split: if_splits option.splits)
  have "length m = nat b div 8" "b = 32 \<or> b = 128"
    using m(1) by (auto simp: CIDRMask_def split: if_splits)
  then have "b = 32" using m(2) l by auto
  with addr have "parseIPv4 ?addr = Some raw"
    by (auto simp: ParseAddr_def split: option.splits if_splits)
  then have "is_digit x \<or> x = CHR ''.''" if "x \<in> set ?addr" for x
    using v4_fields_chars that unfolding parseIPv4_def by blast
  moreover have "?rest \<noteq> []" "hd ?rest = CHR ''/''"
    using sl hd_dropWhile [of "\<lambda>c. c \<noteq> CHR ''/''" s] by (auto simp: dropWhile_eq_Nil_conv)
  then have "s = ?addr @ CHR ''/'' # tl ?rest"
    by (metis list.collapse takeWhile_dropWhile_id)
  ultimately show ?thesis
    using c dtoi_chars [OF d] by (metis Un_iff set_ConsD set_append)
qed

lemma v4_cidr_no_y: "v4_cidr s a k \<Longrightarrow> CHR ''y'' \<notin> set s"
  using v4_cidr_chars by (fastforce simp: is_digit_def)

section \<open>A concrete pool\<close>

lemma v4_text:
  assumes "length ip = 4" and "k \<le> 32" and "s = IP_String ip @ ''/'' @ nat_str k" and "a = ipval ip"
    and "a mod 2 ^ (32 - k) = 0"
  shows "v4_cidr s a k"
  using v4_cidr_print assms by simp

text \<open>10.0.0.0 is 167772160.\<close>

lemma demo_texts:
  "v4_cidr ''10.0.0.0/24'' 167772160 24" "v4_cidr ''10.0.0.0/26'' 167772160 26"
  "v4_cidr ''10.0.0.64/26'' 167772224 26" "v4_cidr ''10.0.1.0/26'' 167772416 26"
  "v4_cidr ''10.0.0.0/25'' 167772160 25"
proof -
  have "IP_String [10, 0, 0, 0] @ ''/'' @ nat_str 24 = ''10.0.0.0/24''" by code_simp
  from v4_text [OF _ _ this [symmetric]] show "v4_cidr ''10.0.0.0/24'' 167772160 24" by simp
  have "IP_String [10, 0, 0, 0] @ ''/'' @ nat_str 26 = ''10.0.0.0/26''" by code_simp
  from v4_text [OF _ _ this [symmetric]] show "v4_cidr ''10.0.0.0/26'' 167772160 26" by simp
  have "IP_String [10, 0, 0, 64] @ ''/'' @ nat_str 26 = ''10.0.0.64/26''" by code_simp
  from v4_text [OF _ _ this [symmetric]] show "v4_cidr ''10.0.0.64/26'' 167772224 26" by simp
  have "IP_String [10, 0, 1, 0] @ ''/'' @ nat_str 26 = ''10.0.1.0/26''" by code_simp
  from v4_text [OF _ _ this [symmetric]] show "v4_cidr ''10.0.1.0/26'' 167772416 26" by simp
  have "IP_String [10, 0, 0, 0] @ ''/'' @ nat_str 25 = ''10.0.0.0/25''" by code_simp
  from v4_text [OF _ _ this [symmetric]] show "v4_cidr ''10.0.0.0/25'' 167772160 25" by simp
qed

lemmas demo_map = new_map_wf [OF demo_texts(1), simplified]

lemma demo_new: "NewCIDRMap ''10.0.0.0/24'' = Inr (new_map 167772160 24)"
  by (simp add: NewCIDRMap_v4 [OF demo_texts(1)])

section \<open>Properties\<close>

text \<open>
  C7. \<open>AllocateNextAvailable\<close> on a well-formed map: a successful call returns an IPv4 CIDR of
  the requested prefix length whose block is aligned, lies inside the pool and was free,
  and which is the lowest such block; afterwards exactly that block has been added to the
  used addresses and the map is still well-formed.
\<close>

theorem AllocateNextAvailable_sound:
  assumes "wf_map c" and "AllocateNextAvailable c sz = Inr (s, c')"
  shows "\<exists>a k. sz = int k \<and> v4_cidr s a k \<and> fits c k a \<and> (\<forall>b. fits c k b \<longrightarrow> a \<le> b)
    \<and> used_addrs c' = used_addrs c \<union> block a (2 ^ (32 - k))
    \<and> pool_addrs c' = pool_addrs c \<and> wf_map c'"
proof -
  have "16 \<le> sz \<and> sz \<le> 28"
    using assms AllocateNextAvailable_range [OF assms(1), of sz] by fastforce
  then obtain k where k: "sz = int k" "16 \<le> k" "k \<le> 28" by (intro that [of "nat sz"]) linarith+
  show ?thesis
    by (rule AllocateNextAvailable_cases [OF assms(1) k(2,3)]) (use assms(2) k(1) in \<open>auto simp del: mem_block\<close>)
qed

theorem AllocateNextAvailable_sound_witness:
  "wf_map (new_map 167772160 24) \<and> (\<exists>s c'. AllocateNextAvailable (new_map 167772160 24) 26 = Inr (s, c')
     \<and> v4_cidr s 167772160 26 \<and> 167772223 \<in> used_addrs c')"
proof -
  have f: "fits (new_map 167772160 24) 26 167772160"
    by (simp add: fits_def demo_map block_subset)
  obtain s c' where r: "AllocateNextAvailable (new_map 167772160 24) (int 26) = Inr (s, c')"
    by (rule AllocateNextAvailable_cases [OF demo_map(1), of 26]) (use f in auto)
  obtain a k where ak: "(26::int) = int k" "v4_cidr s a k" "fits (new_map 167772160 24) k a"
      "\<forall>b. fits (new_map 167772160 24) k b \<longrightarrow> a \<le> b"
      "used_addrs c' = used_addrs (new_map 167772160 24) \<union> block a (2 ^ (32 - k))"
    using AllocateNextAvailable_sound [OF demo_map(1), of 26 s c'] r by auto
  moreover have "k = 26" using ak(1) by simp
  moreover have "a = 167772160"
    using ak(3,4) f \<open>k = 26\<close> by (auto simp: fits_def demo_map block_subset intro: antisym)
  ultimately show ?thesis using demo_map(1) r by auto
qed

text \<open>
  C21. On a well-formed map and for a prefix length the code supports (16 to 28),
  \<open>AllocateNextAvailable\<close> fails if and only if no aligned block of that length inside the
  pool is free; in particular the block it finds is never refused by \<open>MarkAllocated\<close>.
\<close>

theorem AllocateNextAvailable_exhausted_iff:
  assumes "wf_map c" and "16 \<le> k" and "k \<le> 28"
  shows "(\<exists>e. AllocateNextAvailable c (int k) = Inl e) \<longleftrightarrow> (\<forall>a. \<not> fits c k a)"
  by (rule AllocateNextAvailable_cases [OF assms]) auto

theorem AllocateNextAvailable_exhausted_iff_witness:
  "\<exists>e. AllocateNextAvailable (new_map 167772160 24) 20 = Inl e"
proof -
  have "\<not> fits (new_map 167772160 24) 20 a" for a
    using block_subset [of "2 ^ 12" a 167772160 256] by (simp add: fits_def demo_map)
  then show ?thesis
    using AllocateNextAvailable_exhausted_iff [OF demo_map(1), of 20] by simp
qed

text \<open>
  C6. \<open>MarkAllocated\<close> implements an address set: for an IPv4 CIDR on a well-formed map it
  fails exactly when the network address is outside the pool or the block meets a used
  address, and otherwise adds the block's addresses and nothing else to the used set.
\<close>

theorem MarkAllocated_refines_set:
  assumes "wf_map c" and "v4_cidr s a k"
  shows "case MarkAllocated c s of
      Inl e \<Rightarrow> a \<notin> pool_addrs c \<or> used_addrs c \<inter> cidr_addrs s \<noteq> {}
    | Inr c' \<Rightarrow> a \<in> pool_addrs c \<and> used_addrs c \<inter> cidr_addrs s = {}
        \<and> used_addrs c' = used_addrs c \<union> cidr_addrs s \<and> pool_addrs c' = pool_addrs c \<and> wf_map c'"
proof (cases "MarkAllocated c s")
  case (Inl e)
  then have "a \<notin> pool_addrs c \<or> used_addrs c \<inter> cidr_addrs s \<noteq> {}"
    unfolding MarkAllocated_v4 [OF assms] cidr_addrs_v4 [OF assms(2)] by (auto split: if_splits)
  with Inl show ?thesis by simp
next
  case (Inr c')
  from MarkAllocated_v4_Inr [OF assms Inr] show ?thesis
    unfolding Inr cidr_addrs_v4 [OF assms(2)] by simp
qed

theorem MarkAllocated_refines_set_witness:
  "(\<exists>e. MarkAllocated (new_map 167772160 24) ''10.0.1.0/26'' = Inl e) \<and> (167772416::nat) \<notin> block 167772160 256
   \<and> (\<exists>c'. MarkAllocated (new_map 167772160 24) ''10.0.0.64/26'' = Inr c' \<and> 167772224 \<in> used_addrs c')"
proof -
  have "\<exists>e. MarkAllocated (new_map 167772160 24) ''10.0.1.0/26'' = Inl e"
    using MarkAllocated_refines_set [OF demo_map(1) demo_texts(4)]
    by (auto simp: demo_map split: sum.splits)
  moreover have "\<exists>c'. MarkAllocated (new_map 167772160 24) ''10.0.0.64/26'' = Inr c'"
    by (simp add: MarkAllocated_v4 [OF demo_map(1) demo_texts(3)] demo_map)
  then obtain c' where "MarkAllocated (new_map 167772160 24) ''10.0.0.64/26'' = Inr c'" ..
  moreover then have "167772224 \<in> used_addrs c'"
    using MarkAllocated_refines_set [OF demo_map(1) demo_texts(3)] by (simp add: cidr_addrs_v4 [OF demo_texts(3)])
  ultimately show ?thesis by auto
qed

text \<open>
  C35. \<open>NewCIDRMap\<close> accepts exactly the IPv4 CIDRs with a prefix length from 12 to 28, and the
  map it returns is well-formed, empty, and covers exactly the addresses of the CIDR.
\<close>

theorem NewCIDRMap_spec:
  "case NewCIDRMap s of
     Inl e \<Rightarrow> \<not> (\<exists>a k. v4_cidr s a k \<and> k \<in> {12..28})
   | Inr c \<Rightarrow> (\<exists>a k. v4_cidr s a k \<and> k \<in> {12..28} \<and> prefixLen c = int k)
       \<and> wf_map c \<and> used_addrs c = {} \<and> pool_addrs c = cidr_addrs s"
proof (cases "NewCIDRMap s")
  case (Inl e)
  then have "\<not> (\<exists>a k. v4_cidr s a k \<and> k \<in> {12..28})"
    using NewCIDRMap_v4 [of s] by fastforce
  with Inl show ?thesis by simp
next
  case (Inr c)
  then obtain a k where "v4_cidr s a k" "12 \<le> k" "k \<le> 28" "c = new_map a k" by (rule NewCIDRMap_Inr)
  moreover from this have "prefixLen c = int k" by (simp add: new_map_def)
  ultimately show ?thesis using new_map_wf [of s a k] by (auto simp: Inr cidr_addrs_v4 simp del: mem_block)
qed

text \<open>
  C36. The address of a block: adding an offset inside the pool byte by byte, without carries,
  gives the address \<open>base + offset\<close>, so the printed CIDR parses back to that address and
  the requested prefix length.
\<close>

theorem block_cidr_no_carry:
  assumes "wf_map c" and "k \<le> 28" and "ipval (baseIP c) + s \<in> pool_addrs c"
    and "(ipval (baseIP c) + s) mod 2 ^ (32 - k) = 0"
  shows "v4_cidr (block_cidr c (int k) s) (ipval (baseIP c) + s) k"
  using block_cidr_wf(2) [OF assms(1,2) refl assms(3,4)] .

theorem block_cidr_no_carry_witness:
  "v4_cidr (block_cidr (new_map 167772160 24) 26 64) 167772224 26"
  using block_cidr_no_carry [OF demo_map(1), of 26 64] demo_map(3)
  by (simp add: new_map_def ipval_ip_of)

text \<open>
  C28. \<open>CalculatePoolStatus\<close> on an IPv4 pool with a prefix length from 12 to 28 and pairwise
  disjoint IPv4 allocations that start inside the pool (repeated texts allowed): the
  count is the number of distinct allocations, and for every prefix length from 16 to 28
  the reported number is the number of aligned blocks of that length that lie inside the
  pool and meet no allocation.
\<close>

theorem CalculatePoolStatus_exact:
  assumes "v4_cidr pool p kp" and "12 \<le> kp" and "kp \<le> 28"
    and alloc: "\<And>s. s \<in> set allocs \<Longrightarrow> \<exists>a k. v4_cidr s a k \<and> a \<in> cidr_addrs pool"
    and dis: "\<And>s t. s \<in> set allocs \<Longrightarrow> t \<in> set allocs \<Longrightarrow> s \<noteq> t \<Longrightarrow> \<not> CIDROverlaps s t"
  shows "\<exists>free. CalculatePoolStatus pool allocs = Inr (card (set allocs), free)
    \<and> (\<forall>k\<in>{16..28}. free (nat_str k) = Some (card {a. a mod 2 ^ (32 - k) = 0
          \<and> block a (2 ^ (32 - k)) \<subseteq> cidr_addrs pool
          \<and> block a (2 ^ (32 - k)) \<inter> \<Union> (cidr_addrs ` set allocs) = {}}))"
proof -
  let ?m = "new_map p kp" and ?r = "mark_all (new_map p kp) {} allocs"
  note wf = new_map_wf [OF assms(1-3)]
  have pool: "pool_addrs ?m = cidr_addrs pool" using wf(3) cidr_addrs_v4 [OF assms(1)] by simp
  have cnt: "snd ?r = set allocs"
  proof -
    have "in_pool ?m s" "CHR ''y'' \<notin> set s" if "s \<in> set allocs" for s
      using alloc [OF that] in_pool_v4 [OF wf(1)] v4_cidr_no_y pool by auto
    then show ?thesis using mark_all_count [of allocs ?m "{}"] by auto
  qed
  have "used_addrs (fst ?r) = \<Union> (cidr_addrs ` ({} \<union> set allocs)) \<and> wf_map (fst ?r) \<and> pool_addrs (fst ?r) = pool_addrs ?m"
  proof (rule mark_all_used [OF wf(1)])
    fix s t assume "s \<in> {} \<union> set allocs" "t \<in> {} \<union> set allocs" "s \<noteq> t"
    with alloc [of s] alloc [of t] dis [of s t] show "cidr_addrs s \<inter> cidr_addrs t = {}"
      using CIDROverlaps_v4 by (metis Un_empty_left)
  qed (use wf alloc pool in auto)
  then have u: "used_addrs (fst ?r) = \<Union> (cidr_addrs ` set allocs)" "wf_map (fst ?r)"
      "pool_addrs (fst ?r) = cidr_addrs pool" using pool by simp_all
  have "CalculatePoolStatus pool allocs = Inr (card (set allocs), GetFreeBlockCount (fst ?r))"
    using assms(2,3) cnt by (simp add: CalculatePoolStatus_def NewCIDRMap_v4 [OF assms(1)] case_prod_beta)
  moreover have "GetFreeBlockCount (fst ?r) (nat_str k) = Some (card {a. fits (fst ?r) k a})" if "k \<in> {16..28}" for k
    using GetFreeBlockCount_wf [OF u(2)] that by simp
  ultimately show ?thesis unfolding fits_def u by blast
qed

theorem CalculatePoolStatus_exact_witness:
  "\<exists>free. CalculatePoolStatus ''10.0.0.0/24'' [''10.0.0.64/26'', ''10.0.0.64/26''] = Inr (1, free)
     \<and> free (nat_str 16) = Some 0"
proof -
  have "\<exists>a k. v4_cidr ''10.0.0.64/26'' a k \<and> a \<in> cidr_addrs ''10.0.0.0/24''"
    by (intro exI conjI) (rule demo_texts(3), simp add: cidr_addrs_v4 [OF demo_texts(1)])
  then have "\<exists>free. CalculatePoolStatus ''10.0.0.0/24'' [''10.0.0.64/26'', ''10.0.0.64/26''] = Inr (1, free)
    \<and> (\<forall>k\<in>{16..28}. free (nat_str k) = Some (card {a. a mod 2 ^ (32 - k) = 0
          \<and> block a (2 ^ (32 - k)) \<subseteq> cidr_addrs ''10.0.0.0/24''
          \<and> block a (2 ^ (32 - k)) \<inter> \<Union> (cidr_addrs ` {''10.0.0.64/26''}) = {}}))"
    using CalculatePoolStatus_exact [OF demo_texts(1), of "[''10.0.0.64/26'', ''10.0.0.64/26'']"]
    by simp
  then obtain free where f: "CalculatePoolStatus ''10.0.0.0/24'' [''10.0.0.64/26'', ''10.0.0.64/26''] = Inr (1, free)"
      "\<forall>k\<in>{16..28}. free (nat_str k) = Some (card {a. a mod 2 ^ (32 - k) = 0
          \<and> block a (2 ^ (32 - k)) \<subseteq> cidr_addrs ''10.0.0.0/24''
          \<and> block a (2 ^ (32 - k)) \<inter> \<Union> (cidr_addrs ` {''10.0.0.64/26''}) = {}})" by auto
  from f(2) have "free (nat_str 16) = Some (card {a. a mod 2 ^ (32 - 16) = 0
          \<and> block a (2 ^ (32 - 16)) \<subseteq> cidr_addrs ''10.0.0.0/24''
          \<and> block a (2 ^ (32 - 16)) \<inter> \<Union> (cidr_addrs ` {''10.0.0.64/26''}) = {}})"
    by (rule bspec) simp
  moreover have "\<not> block a (2 ^ (32 - 16)) \<subseteq> cidr_addrs ''10.0.0.0/24''" for a
    by (simp add: cidr_addrs_v4 [OF demo_texts(1)] block_subset)
  ultimately have "free (nat_str 16) = Some 0" by simp
  with f(1) show ?thesis by blast
qed

end
