(* ===== verification/Sha1.thy ===== *)
theory Sha1
  imports Go_Std
begin

unbundle bit_operations_syntax

text \<open>
  SHA-1 (\<open>crypto/sha1.Sum\<close>) on byte strings and the \<open>%x\<close> format, which
  \<^verbatim>\<open>internal/controller/allocator.go\<close> uses to shorten long object names. The
  lemmas give the lengths of the digest and of its printed prefix.
\<close>

type_synonym w32 = "32 word"

definition be32 :: "byte \<Rightarrow> byte \<Rightarrow> byte \<Rightarrow> byte \<Rightarrow> w32" where
  "be32 a b c d = push_bit 24 (ucast a) OR push_bit 16 (ucast b) OR push_bit 8 (ucast c) OR ucast d"

definition bytes_of_w32 :: "w32 \<Rightarrow> byte list" where
  "bytes_of_w32 w = [ucast (drop_bit 24 w), ucast (drop_bit 16 w), ucast (drop_bit 8 w), ucast w]"

text \<open>Padding: a one bit, zeros up to 56 modulo 64, and the bit length in eight bytes.\<close>

definition sha1_pad :: "byte list \<Rightarrow> byte list" where
  "sha1_pad m =
     (let l = length m
      in m @ [128] @ replicate ((119 - l mod 64) mod 64) 0
           @ map (\<lambda>i. of_int (8 * int l div 2 ^ (8 * i))) [7, 6, 5, 4, 3, 2, 1, 0])"

fun words_be :: "byte list \<Rightarrow> w32 list" where
  "words_be (a # b # c # d # r) = be32 a b c d # words_be r"
| "words_be _ = []"

text \<open>The message schedule: \<open>n\<close> more words; the list holds the words in reverse.\<close>

fun sha1_extend :: "nat \<Rightarrow> w32 list \<Rightarrow> w32 list" where
  "sha1_extend 0 ws = rev ws"
| "sha1_extend (Suc n) ws =
     sha1_extend n (word_rotl 1 (ws ! 2 XOR ws ! 7 XOR ws ! 13 XOR ws ! 15) # ws)"

definition sha1_f :: "nat \<Rightarrow> w32 \<Rightarrow> w32 \<Rightarrow> w32 \<Rightarrow> w32" where
  "sha1_f t b c d =
     (if t < 20 then (b AND c) OR (NOT b AND d)
      else if t < 40 then b XOR c XOR d
      else if t < 60 then (b AND c) OR (b AND d) OR (c AND d)
      else b XOR c XOR d)"

definition sha1_k :: "nat \<Rightarrow> w32" where
  "sha1_k t =
     (if t < 20 then 0x5A827999 else if t < 40 then 0x6ED9EBA1
      else if t < 60 then 0x8F1BBCDC else 0xCA62C1D6)"

type_synonym sha1_state = "w32 \<times> w32 \<times> w32 \<times> w32 \<times> w32"

fun sha1_rounds :: "nat \<Rightarrow> w32 list \<Rightarrow> sha1_state \<Rightarrow> sha1_state" where
  "sha1_rounds t [] s = s"
| "sha1_rounds t (w # ws) (a, b, c, d, e) =
     sha1_rounds (Suc t) ws
       (word_rotl 5 a + sha1_f t b c d + e + w + sha1_k t, a, word_rotl 30 b, c, d)"

definition sha1_block :: "byte list \<Rightarrow> sha1_state \<Rightarrow> sha1_state" where
  "sha1_block blk s =
     (case (s, sha1_rounds 0 (sha1_extend 64 (rev (words_be blk))) s) of
        ((h0, h1, h2, h3, h4), (a, b, c, d, e)) \<Rightarrow> (h0 + a, h1 + b, h2 + c, h3 + d, h4 + e))"

fun sha1_blocks :: "nat \<Rightarrow> byte list \<Rightarrow> sha1_state \<Rightarrow> sha1_state" where
  "sha1_blocks 0 m s = s"
| "sha1_blocks (Suc n) m s = sha1_blocks n (drop 64 m) (sha1_block (take 64 m) s)"

definition sha1_Sum :: "byte list \<Rightarrow> byte list" where
  "sha1_Sum m =
     (let p = sha1_pad m
      in case sha1_blocks (length p div 64) p (0x67452301, 0xEFCDAB89, 0x98BADCFE, 0x10325476, 0xC3D2E1F0) of
           (a, b, c, d, e) \<Rightarrow> concat (map bytes_of_w32 [a, b, c, d, e]))"

definition hex_digit :: "nat \<Rightarrow> char" where
  "hex_digit d = (if d < 10 then char_of (48 + d) else char_of (87 + d))"

definition hex_bytes :: "byte list \<Rightarrow> string" where
  "hex_bytes bs = concat (map (\<lambda>b. [hex_digit (unat b div 16), hex_digit (unat b mod 16)]) bs)"

text \<open>The bytes of a Go string.\<close>

definition string_bytes :: "string \<Rightarrow> byte list" where
  "string_bytes s = map (\<lambda>c. of_nat (of_char c)) s"

lemma length_sha1_Sum [simp]: "length (sha1_Sum m) = 20"
  by (simp add: sha1_Sum_def Let_def bytes_of_w32_def split: prod.splits)

lemma length_hex_bytes [simp]: "length (hex_bytes bs) = 2 * length bs"
  by (induction bs) (simp_all add: hex_bytes_def)

lemma length_sha1_pad: "length (sha1_pad m) mod 64 = 0"
proof -
  obtain q r where l: "length m = q * 64 + r" and r: "r < 64"
    using that [of "length m div 64" "length m mod 64"] by simp
  then have lr: "length m mod 64 = r" by simp
  have "length m + 1 + (119 - r) mod 64 + 8 = (q + (if r \<le> 55 then 1 else 2)) * 64"
  proof (cases "r \<le> 55")
    case True
    then have "119 - r = (55 - r) + 64" by simp
    then have "(119 - r) mod 64 = 55 - r" by (simp only: mod_add_self2) simp
    with True l show ?thesis by simp
  next
    case False
    then have "(119 - r) mod 64 = 119 - r" by simp
    with False l r show ?thesis by simp
  qed
  then have "(length m + 1 + (119 - r) mod 64 + 8) mod 64 = 0" by (simp only: mod_mult_self2_is_0)
  then show ?thesis by (simp add: sha1_pad_def Let_def lr)
qed

end
