(* ===== verification/Api_Types.thy ===== *)
theory Api_Types
  imports Go_Std
begin

text \<open>
  \<^verbatim>\<open>api/v1alpha1\<close>: the four custom resources as records, with the metadata
  fields the controllers read or write. Field names carry a prefix per resource
  (\<open>sp\<close> SubnetPool, \<open>sn\<close> Subnet, \<open>sc\<close> SubnetClaim, \<open>pc\<close> SubnetPoolClaim). Phases are
  strings, as in the source: the controllers handle unknown values. A Go map field is a
  partial function; a nil map reads like an empty one. A time is an \<open>int\<close>, a nil pointer
  to one is \<open>None\<close>.
\<close>

section \<open>Metadata\<close>

record OwnerReference =
  or_UID :: string
  or_Controller :: bool

record ObjectMeta =
  Name :: string
  GenerateName :: string
  Namespace :: string
  UID :: string
  Generation :: int
  Labels :: "string \<rightharpoonup> string"
  Finalizers :: "string list"
  OwnerReferences :: "OwnerReference list"
  DeletionTimestamp :: "int option"

definition empty_meta :: ObjectMeta where
  "empty_meta = \<lparr>Name = '''', GenerateName = '''', Namespace = '''', UID = '''', Generation = 0,
     Labels = (\<lambda>_. None), Finalizers = [], OwnerReferences = [], DeletionTimestamp = None\<rparr>"

record Condition =
  co_Type :: string
  co_Status :: string
  co_ObservedGeneration :: int
  co_LastTransitionTime :: int
  co_Reason :: string
  co_Message :: string

text \<open>\<open>types.NamespacedName\<close>: namespace, then name.\<close>

type_synonym NamespacedName = "string \<times> string"

section \<open>SubnetPool\<close>

record SubnetPoolSpec =
  sp_CIDR :: string
  sp_DefaultBlockSize :: int
  sp_MinBlockSize :: int
  sp_MaxBlockSize :: int
  sp_Strategy :: string

record SubnetPoolStatus =
  sp_ObservedGeneration :: int
  sp_AllocatedCount :: int
  sp_FreeCountBySize :: "string \<rightharpoonup> int"
  sp_AllocatedCIDRs :: "string \<rightharpoonup> string"
  sp_Conditions :: "Condition list"

record SubnetPool =
  sp_meta :: ObjectMeta
  sp_spec :: SubnetPoolSpec
  sp_status :: SubnetPoolStatus

definition empty_pool_status :: SubnetPoolStatus where
  "empty_pool_status = \<lparr>sp_ObservedGeneration = 0, sp_AllocatedCount = 0,
     sp_FreeCountBySize = (\<lambda>_. None), sp_AllocatedCIDRs = (\<lambda>_. None), sp_Conditions = []\<rparr>"

section \<open>Subnet\<close>

definition SubnetPhasePending :: string where "SubnetPhasePending = ''Pending''"
definition SubnetPhaseAllocated :: string where "SubnetPhaseAllocated = ''Allocated''"
definition SubnetPhaseFailed :: string where "SubnetPhaseFailed = ''Failed''"

record ClaimReference =
  cr_Name :: string
  cr_UID :: string

record SubnetSpec =
  sn_PoolRef :: string
  sn_CIDR :: string
  sn_ClusterID :: string
  sn_ClaimRef :: ClaimReference

record SubnetStatus =
  sn_Phase :: string
  sn_AllocatedAt :: "int option"

record Subnet =
  sn_meta :: ObjectMeta
  sn_spec :: SubnetSpec
  sn_status :: SubnetStatus

section \<open>SubnetClaim\<close>

definition ClaimPending :: string where "ClaimPending = ''Pending''"
definition ClaimBound :: string where "ClaimBound = ''Bound''"
definition ClaimError :: string where "ClaimError = ''Error''"

record SubnetClaimSpec =
  sc_PoolRef :: string
  sc_ClusterID :: string
  sc_BlockSize :: int
  sc_RequestedCIDR :: string

record SubnetClaimStatus =
  sc_ObservedGeneration :: int
  sc_Phase :: string
  sc_AllocatedCIDR :: string
  sc_Message :: string
  sc_Conditions :: "Condition list"

record SubnetClaim =
  sc_meta :: ObjectMeta
  sc_spec :: SubnetClaimSpec
  sc_status :: SubnetClaimStatus

section \<open>SubnetPoolClaim\<close>

definition PoolClaimPending :: string where "PoolClaimPending = ''Pending''"
definition PoolClaimBound :: string where "PoolClaimBound = ''Bound''"
definition PoolClaimError :: string where "PoolClaimError = ''Error''"

record SubnetPoolClaimSpec =
  pc_ParentPoolRef :: string
  pc_DesiredBlockSize :: int

record SubnetPoolClaimStatus =
  pc_ObservedGeneration :: int
  pc_Phase :: string
  pc_BoundPoolName :: string
  pc_Message :: string
  pc_Conditions :: "Condition list"

record SubnetPoolClaim =
  pc_meta :: ObjectMeta
  pc_spec :: SubnetPoolClaimSpec
  pc_status :: SubnetPoolClaimStatus

lemmas phase_defs = SubnetPhasePending_def SubnetPhaseAllocated_def SubnetPhaseFailed_def
  ClaimPending_def ClaimBound_def ClaimError_def
  PoolClaimPending_def PoolClaimBound_def PoolClaimError_def

end
