(* ===== verification/Kube.thy ===== *)
theory Kube
  imports Api_Types "HOL-Library.List_Lexorder" "HOL-Library.Char_ord"
begin

text \<open>
  The Kubernetes libraries the controllers call, as parameters: the record \<open>kube\<close> holds
  one function per call of the client (\<open>Get\<close>, \<open>List\<close>, \<open>Create\<close>, \<open>Status().Update\<close>,
  \<open>Status().Patch\<close>), of \<open>apierrors\<close>, \<open>controllerutil\<close>, \<open>meta\<close>, \<open>equality\<close> and
  \<open>retry\<close>, over a world of any type. A call takes the world and returns its result with
  the next world, so that other writers, caches and failures are all instances. Metrics,
  events and waits are reported through \<open>k_emit\<close>. The order of Go's map iteration is
  the function \<open>k_order\<close>.

  What the code relies on is stated as predicates on the record, which the theorems name
  as hypotheses. The last section has an in-memory instance that satisfies them.
\<close>

section \<open>Effects\<close>

datatype effect =
    CounterInc string "string list"
  | HistogramObserve string "string list"
  | GaugeSet string "string list" int
  | RecordEvent string string string string
  | RegisterGauge string string
  | UnregisterGauge "(string \<times> string) option"
  | SleepMs int
  | SleepBackoff nat
  | SleepJitter

text \<open>\<open>ctrl.Result\<close>: durations in seconds.\<close>

record Result =
  Requeue :: bool
  RequeueAfter :: int

definition no_requeue :: Result where
  "no_requeue = \<lparr>Requeue = False, RequeueAfter = 0\<rparr>"

section \<open>The client\<close>

record 'w kube =
  k_get_pool :: "NamespacedName \<Rightarrow> 'w \<Rightarrow> (error, SubnetPool) result \<times> 'w"
  k_get_subnet :: "NamespacedName \<Rightarrow> 'w \<Rightarrow> (error, Subnet) result \<times> 'w"
  k_get_claim :: "NamespacedName \<Rightarrow> 'w \<Rightarrow> (error, SubnetClaim) result \<times> 'w"
  k_get_poolclaim :: "NamespacedName \<Rightarrow> 'w \<Rightarrow> (error, SubnetPoolClaim) result \<times> 'w"
  k_list_subnets :: "string \<Rightarrow> string \<Rightarrow> 'w \<Rightarrow> (error, Subnet list) result \<times> 'w"
  k_list_subnets_page :: "string \<Rightarrow> string \<Rightarrow> nat \<Rightarrow> string \<Rightarrow> 'w \<Rightarrow> (error, Subnet list \<times> string) result \<times> 'w"
  k_list_claims :: "string \<Rightarrow> 'w \<Rightarrow> (error, SubnetClaim list) result \<times> 'w"
  k_list_pools :: "string \<Rightarrow> 'w \<Rightarrow> (error, SubnetPool list) result \<times> 'w"
  k_create_subnet :: "Subnet \<Rightarrow> 'w \<Rightarrow> (error, Subnet) result \<times> 'w"
  k_create_claim :: "SubnetClaim \<Rightarrow> 'w \<Rightarrow> (error, SubnetClaim) result \<times> 'w"
  k_create_pool :: "SubnetPool \<Rightarrow> 'w \<Rightarrow> (error, SubnetPool) result \<times> 'w"
  k_update_claim_status :: "SubnetClaim \<Rightarrow> 'w \<Rightarrow> (error, unit) result \<times> 'w"
  k_update_poolclaim_status :: "SubnetPoolClaim \<Rightarrow> 'w \<Rightarrow> (error, unit) result \<times> 'w"
  k_patch_pool_status :: "SubnetPool \<Rightarrow> SubnetPool \<Rightarrow> 'w \<Rightarrow> (error, unit) result \<times> 'w"
  k_patch_subnet_status :: "Subnet \<Rightarrow> Subnet \<Rightarrow> 'w \<Rightarrow> (error, unit) result \<times> 'w"
  k_set_ref_subnet :: "SubnetClaim \<Rightarrow> Subnet \<Rightarrow> (error, Subnet) result"
  k_set_ref_claim :: "SubnetPoolClaim \<Rightarrow> SubnetClaim \<Rightarrow> (error, SubnetClaim) result"
  k_set_ref_pool :: "SubnetPoolClaim \<Rightarrow> SubnetPool \<Rightarrow> (error, SubnetPool) result"
  k_IsNotFound :: "error \<Rightarrow> bool"
  k_IsAlreadyExists :: "error \<Rightarrow> bool"
  k_IsConflict :: "error \<Rightarrow> bool"
  k_SetStatusCondition :: "Condition list \<Rightarrow> Condition \<Rightarrow> Condition list"
  k_DeepEqual_pool_status :: "SubnetPoolStatus \<Rightarrow> SubnetPoolStatus \<Rightarrow> bool"
  k_OnError :: "nat \<Rightarrow> (error \<Rightarrow> bool) \<Rightarrow> ('w \<Rightarrow> (error, unit) result \<times> 'w) \<Rightarrow> 'w \<Rightarrow> (error, unit) result \<times> 'w"
  k_OnError_runs :: "nat \<Rightarrow> (error \<Rightarrow> bool) \<Rightarrow> ('w \<Rightarrow> (error, unit) result \<times> 'w) \<Rightarrow> 'w \<Rightarrow> nat"
  k_DefaultRetry_Steps :: nat
  k_now :: "'w \<Rightarrow> int"
  k_order :: "'w \<Rightarrow> string set \<Rightarrow> string list"
  k_emit :: "effect \<Rightarrow> 'w \<Rightarrow> 'w"

definition k_RetryOnConflict ::
    "'w kube \<Rightarrow> nat \<Rightarrow> ('w \<Rightarrow> (error, unit) result \<times> 'w) \<Rightarrow> 'w \<Rightarrow> (error, unit) result \<times> 'w" where
  "k_RetryOnConflict k steps f = k_OnError k steps (k_IsConflict k) f"

section \<open>Documented behaviour\<close>

text \<open>The \<open>apierrors\<close> predicates look at the API status of the error or of one it wraps.\<close>

definition apierrors_laws :: "'w kube \<Rightarrow> bool" where
  "apierrors_laws k \<longleftrightarrow>
     (\<forall>P\<in>{k_IsNotFound k, k_IsAlreadyExists k, k_IsConflict k}.
        (\<forall>m. \<not> P (Errorf m)) \<and> (\<forall>p e. P (Wrapf p e) = P e) \<and> (\<forall>a. \<not> P (AllocErr a))
        \<and> (\<forall>t s. \<not> P (ParseErr t s)) \<and> (\<forall>f s r. \<not> P (NumErr f s r)))"

text \<open>\<open>Get\<close> never fails with AlreadyExists.\<close>

definition get_pool_law :: "'w kube \<Rightarrow> bool" where
  "get_pool_law k \<longleftrightarrow> (\<forall>key w e w'. k_get_pool k key w = (Inl e, w') \<longrightarrow> \<not> k_IsAlreadyExists k e)"

text \<open>\<open>SetControllerReference\<close> fails with its own error type, never with an API status.\<close>

definition set_ref_law :: "'w kube \<Rightarrow> bool" where
  "set_ref_law k \<longleftrightarrow> (\<forall>c s e. k_set_ref_subnet k c s = Inl e \<longrightarrow> \<not> k_IsAlreadyExists k e)"

text \<open>Iterating a map visits every key once.\<close>

definition order_law :: "'w kube \<Rightarrow> bool" where
  "order_law k \<longleftrightarrow> (\<forall>w S. finite S \<longrightarrow> distinct (k_order k w S) \<and> set (k_order k w S) = S)"

text \<open>
  \<open>retry.OnError\<close>: the function runs until it succeeds, fails with an error that is not
  retriable, or has run \<open>steps\<close> times; the result is that of the last run. Between two
  runs it waits.
\<close>

definition retry_law :: "'w kube \<Rightarrow> bool" where
  "retry_law k \<longleftrightarrow>
     (\<forall>n p f w. k_OnError k (Suc n) p f w =
        (case f w of
           (Inr u, w') \<Rightarrow> (Inr u, w')
         | (Inl e, w') \<Rightarrow> if p e \<and> 0 < n then k_OnError k n p f (k_emit k SleepJitter w') else (Inl e, w')))"

text \<open>A counter that the function increments shows how often \<open>OnError\<close> ran it.\<close>

definition retry_runs_law :: "'w kube \<Rightarrow> bool" where
  "retry_runs_law k \<longleftrightarrow>
     (\<forall>n p f w. k_OnError_runs k (Suc n) p f w =
        (case f w of
           (Inr u, w') \<Rightarrow> 1
         | (Inl e, w') \<Rightarrow> if p e \<and> 0 < n then Suc (k_OnError_runs k n p f (k_emit k SleepJitter w')) else 1))"

text \<open>
  \<open>SetControllerReference\<close> only adds an owner reference: key and spec stay.
\<close>

definition meta_key :: "ObjectMeta \<Rightarrow> NamespacedName" where
  "meta_key m = (Namespace m, Name m)"

definition subnet_view :: "Subnet \<Rightarrow> NamespacedName \<times> SubnetSpec" where
  "subnet_view s = (meta_key (sn_meta s), sn_spec s)"

definition set_ref_keeps :: "'w kube \<Rightarrow> bool" where
  "set_ref_keeps k \<longleftrightarrow> (\<forall>c s s'. k_set_ref_subnet k c s = Inr s' \<longrightarrow> subnet_view s' = subnet_view s)"

text \<open>
  The API server seen by a single writer: \<open>subs w\<close> is the set of stored Subnets (key and
  spec). A list is complete and current, a successful \<open>Create\<close> adds the object and a failed
  one nothing, \<open>Get\<close> returns a stored object of that key, and no other call changes the set.
\<close>

type_synonym subnet_set = "(NamespacedName \<times> SubnetSpec) set"

definition in_pool_of :: "string \<Rightarrow> string \<Rightarrow> subnet_set \<Rightarrow> subnet_set" where
  "in_pool_of ns pn S = {x \<in> S. fst (fst x) = ns \<and> sn_PoolRef (snd x) = pn}"

definition exclusive_store :: "'w kube \<Rightarrow> ('w \<Rightarrow> subnet_set) \<Rightarrow> bool" where
  "exclusive_store k subs \<longleftrightarrow>
     (\<forall>ns p w r w'. k_list_subnets k ns p w = (r, w') \<longrightarrow> subs w' = subs w
        \<and> (\<forall>items. r = Inr items \<longrightarrow> subnet_view ` set items = in_pool_of ns p (subs w)))
     \<and> (\<forall>s w r w'. k_create_subnet k s w = (r, w') \<longrightarrow>
          subs w' = (case r of Inl _ \<Rightarrow> subs w | Inr _ \<Rightarrow> insert (subnet_view s) (subs w)))
     \<and> (\<forall>key w r w'. k_get_subnet k key w = (r, w') \<longrightarrow> subs w' = subs w
        \<and> (\<forall>s. r = Inr s \<longrightarrow> subnet_view s \<in> subs w \<and> meta_key (sn_meta s) = key))
     \<and> (\<forall>key w r w'. k_get_pool k key w = (r, w') \<longrightarrow> subs w' = subs w)
     \<and> (\<forall>key w r w'. k_get_claim k key w = (r, w') \<longrightarrow> subs w' = subs w)
     \<and> (\<forall>c w r w'. k_update_claim_status k c w = (r, w') \<longrightarrow> subs w' = subs w)
     \<and> (\<forall>e w. subs (k_emit k e w) = subs w)"

text \<open>Reading the pool again gives the same pool: its key and its CIDR do not change.\<close>

definition pool_stable :: "'w kube \<Rightarrow> SubnetPool \<Rightarrow> bool" where
  "pool_stable k pool \<longleftrightarrow>
     (\<forall>w p w'. k_get_pool k (meta_key (sp_meta pool)) w = (Inr p, w') \<longrightarrow>
        meta_key (sp_meta p) = meta_key (sp_meta pool) \<and> sp_CIDR (sp_spec p) = sp_CIDR (sp_spec pool))"

section \<open>An in-memory instance\<close>

text \<open>
  A world of stored objects keyed by namespace and name and a log of effects; \<open>Create\<close>
  refuses an existing name, \<open>Get\<close> of a missing one fails with NotFound, and a list returns
  the stored objects in the order of their creation. A call on the status subresource writes
  the status of the stored object and nothing else.
\<close>

record store =
  st_pools :: "SubnetPool list"
  st_subnets :: "Subnet list"
  st_claims :: "SubnetClaim list"
  st_poolclaims :: "SubnetPoolClaim list"
  st_log :: "effect list"

definition find_obj :: "('o \<Rightarrow> ObjectMeta) \<Rightarrow> 'o list \<Rightarrow> NamespacedName \<Rightarrow> (error, 'o) result" where
  "find_obj meta xs key =
     (case find (\<lambda>x. meta_key (meta x) = key) xs of
        None \<Rightarrow> Inl (ExtErr ''NotFound'' (snd key @ '' not found'')) | Some x \<Rightarrow> Inr x)"

definition put_status :: "('o \<Rightarrow> ObjectMeta) \<Rightarrow> ('o \<Rightarrow> 'o) \<Rightarrow> NamespacedName \<Rightarrow> 'o list \<Rightarrow> 'o list" where
  "put_status meta upd key xs = map (\<lambda>y. if meta_key (meta y) = key then upd y else y) xs"

fun err_reason :: "error \<Rightarrow> string" where
  "err_reason (ExtErr r m) = r"
| "err_reason (Wrapf p e) = err_reason e"
| "err_reason _ = ''''"

fun mem_OnError :: "nat \<Rightarrow> (error \<Rightarrow> bool) \<Rightarrow> (store \<Rightarrow> (error, unit) result \<times> store) \<Rightarrow> store
    \<Rightarrow> (error, unit) result \<times> store" where
  "mem_OnError 0 p f w = (Inl (Errorf ''timed out waiting for the condition''), w)"
| "mem_OnError (Suc n) p f w =
     (case f w of
        (Inr u, w') \<Rightarrow> (Inr u, w')
      | (Inl e, w') \<Rightarrow>
          if p e \<and> 0 < n then mem_OnError n p f (w'\<lparr>st_log := st_log w' @ [SleepJitter]\<rparr>) else (Inl e, w'))"

fun mem_OnError_runs :: "nat \<Rightarrow> (error \<Rightarrow> bool) \<Rightarrow> (store \<Rightarrow> (error, unit) result \<times> store) \<Rightarrow> store \<Rightarrow> nat" where
  "mem_OnError_runs 0 p f w = 0"
| "mem_OnError_runs (Suc n) p f w =
     (case f w of
        (Inr u, w') \<Rightarrow> 1
      | (Inl e, w') \<Rightarrow>
          if p e \<and> 0 < n then Suc (mem_OnError_runs n p f (w'\<lparr>st_log := st_log w' @ [SleepJitter]\<rparr>)) else 1)"

definition exists_err :: "string \<Rightarrow> error" where
  "exists_err n = ExtErr ''AlreadyExists'' (n @ '' already exists'')"

definition owned_by :: "string \<Rightarrow> ObjectMeta \<Rightarrow> ObjectMeta" where
  "owned_by uid m = m\<lparr>OwnerReferences := OwnerReferences m @ [\<lparr>or_UID = uid, or_Controller = True\<rparr>]\<rparr>"

definition create_obj :: "('o \<Rightarrow> ObjectMeta) \<Rightarrow> 'o \<Rightarrow> 'o list \<Rightarrow> (error, 'o list) result" where
  "create_obj meta x xs =
     (if \<exists>y\<in>set xs. meta_key (meta y) = meta_key (meta x) then Inl (exists_err (Name (meta x)))
      else Inr (xs @ [x]))"

definition mem_kube :: "store kube" where
  "mem_kube = \<lparr>
     k_get_pool = (\<lambda>key w. (find_obj sp_meta (st_pools w) key, w)),
     k_get_subnet = (\<lambda>key w. (find_obj sn_meta (st_subnets w) key, w)),
     k_get_claim = (\<lambda>key w. (find_obj sc_meta (st_claims w) key, w)),
     k_get_poolclaim = (\<lambda>key w. (find_obj pc_meta (st_poolclaims w) key, w)),
     k_list_subnets = (\<lambda>ns p w. (Inr (filter (\<lambda>s. Namespace (sn_meta s) = ns \<and> sn_PoolRef (sn_spec s) = p) (st_subnets w)), w)),
     k_list_subnets_page = (\<lambda>ns p n c w. (Inr (filter (\<lambda>s. Namespace (sn_meta s) = ns \<and> sn_PoolRef (sn_spec s) = p) (st_subnets w), ''''), w)),
     k_list_claims = (\<lambda>ns w. (Inr (filter (\<lambda>c. Namespace (sc_meta c) = ns) (st_claims w)), w)),
     k_list_pools = (\<lambda>ns w. (Inr (filter (\<lambda>p. Namespace (sp_meta p) = ns) (st_pools w)), w)),
     k_create_subnet = (\<lambda>s w. case create_obj sn_meta s (st_subnets w) of
        Inl e \<Rightarrow> (Inl e, w) | Inr ss \<Rightarrow> (Inr s, w\<lparr>st_subnets := ss\<rparr>)),
     k_create_claim = (\<lambda>c w. case create_obj sc_meta c (st_claims w) of
        Inl e \<Rightarrow> (Inl e, w) | Inr cs \<Rightarrow> (Inr c, w\<lparr>st_claims := cs\<rparr>)),
     k_create_pool = (\<lambda>p w. case create_obj sp_meta p (st_pools w) of
        Inl e \<Rightarrow> (Inl e, w) | Inr ps \<Rightarrow> (Inr p, w\<lparr>st_pools := ps\<rparr>)),
     k_update_claim_status = (\<lambda>c w. (Inr (), w\<lparr>st_claims := put_status sc_meta (\<lambda>x. x\<lparr>sc_status := sc_status c\<rparr>) (meta_key (sc_meta c)) (st_claims w)\<rparr>)),
     k_update_poolclaim_status = (\<lambda>c w. (Inr (), w\<lparr>st_poolclaims := put_status pc_meta (\<lambda>x. x\<lparr>pc_status := pc_status c\<rparr>) (meta_key (pc_meta c)) (st_poolclaims w)\<rparr>)),
     k_patch_pool_status = (\<lambda>b p w. (Inr (), w\<lparr>st_pools := put_status sp_meta (\<lambda>x. x\<lparr>sp_status := sp_status p\<rparr>) (meta_key (sp_meta p)) (st_pools w)\<rparr>)),
     k_patch_subnet_status = (\<lambda>b s w. (Inr (), w\<lparr>st_subnets := put_status sn_meta (\<lambda>x. x\<lparr>sn_status := sn_status s\<rparr>) (meta_key (sn_meta s)) (st_subnets w)\<rparr>)),
     k_set_ref_subnet = (\<lambda>c s. Inr (s\<lparr>sn_meta := owned_by (UID (sc_meta c)) (sn_meta s)\<rparr>)),
     k_set_ref_claim = (\<lambda>c s. Inr (s\<lparr>sc_meta := owned_by (UID (pc_meta c)) (sc_meta s)\<rparr>)),
     k_set_ref_pool = (\<lambda>c s. Inr (s\<lparr>sp_meta := owned_by (UID (pc_meta c)) (sp_meta s)\<rparr>)),
     k_IsNotFound = (\<lambda>e. err_reason e = ''NotFound''),
     k_IsAlreadyExists = (\<lambda>e. err_reason e = ''AlreadyExists''),
     k_IsConflict = (\<lambda>e. err_reason e = ''Conflict''),
     k_SetStatusCondition = (\<lambda>cs c. filter (\<lambda>x. co_Type x \<noteq> co_Type c) cs @ [c]),
     k_DeepEqual_pool_status = (\<lambda>a b. a = b),
     k_OnError = mem_OnError,
     k_OnError_runs = mem_OnError_runs,
     k_DefaultRetry_Steps = 5,
     k_now = (\<lambda>w. 0),
     k_order = (\<lambda>w S. sorted_list_of_set S),
     k_emit = (\<lambda>e w. w\<lparr>st_log := st_log w @ [e]\<rparr>)\<rparr>"

lemma find_obj_Inr: "find_obj meta xs key = Inr x \<Longrightarrow> x \<in> set xs \<and> meta_key (meta x) = key"
  by (auto simp: find_obj_def find_Some_iff split: option.splits)

lemma find_put_status:
  assumes "\<And>y. meta (upd y) = meta y"
  shows "find (\<lambda>x. meta_key (meta x) = key) (put_status meta upd key' xs) =
     (if key' = key
      then map_option upd (find (\<lambda>x. meta_key (meta x) = key) xs)
      else find (\<lambda>x. meta_key (meta x) = key) xs)"
  by (induction xs) (auto simp: put_status_def assms)

lemma put_status_view: "(\<And>y. f (upd y) = f y) \<Longrightarrow> map f (put_status meta upd key xs) = map f xs"
  by (simp add: put_status_def)

lemma mem_kube_apierrors: "apierrors_laws mem_kube"
  by (simp add: apierrors_laws_def mem_kube_def)

lemma mem_kube_get_pool: "get_pool_law mem_kube"
  by (auto simp: get_pool_law_def mem_kube_def find_obj_def split: option.splits)

lemma mem_kube_set_ref: "set_ref_law mem_kube"
  by (simp add: set_ref_law_def mem_kube_def)

lemma mem_kube_order: "order_law mem_kube"
  by (simp add: order_law_def mem_kube_def)

lemma mem_kube_retry: "retry_law mem_kube"
  by (auto simp: retry_law_def mem_kube_def split: prod.splits sum.splits)

lemma mem_kube_retry_runs: "retry_runs_law mem_kube"
  by (auto simp: retry_runs_law_def mem_kube_def split: prod.splits sum.splits)

lemma mem_kube_set_ref_keeps: "set_ref_keeps mem_kube"
  by (simp add: set_ref_keeps_def mem_kube_def subnet_view_def owned_by_def meta_key_def)

lemma mem_kube_exclusive: "exclusive_store mem_kube (\<lambda>w. subnet_view ` set (st_subnets w))"
  unfolding exclusive_store_def
proof (intro conjI)
  show "\<forall>ns p w r w'. k_list_subnets mem_kube ns p w = (r, w') \<longrightarrow>
      subnet_view ` set (st_subnets w') = subnet_view ` set (st_subnets w)
      \<and> (\<forall>items. r = Inr items \<longrightarrow> subnet_view ` set items = in_pool_of ns p (subnet_view ` set (st_subnets w)))"
    by (auto simp: mem_kube_def in_pool_of_def subnet_view_def meta_key_def)
  show "\<forall>s w r w'. k_create_subnet mem_kube s w = (r, w') \<longrightarrow>
      subnet_view ` set (st_subnets w') = (case r of Inl _ \<Rightarrow> subnet_view ` set (st_subnets w)
        | Inr _ \<Rightarrow> insert (subnet_view s) (subnet_view ` set (st_subnets w)))"
    by (auto simp: mem_kube_def create_obj_def split: if_splits)
  show "\<forall>key w r w'. k_get_subnet mem_kube key w = (r, w') \<longrightarrow>
      subnet_view ` set (st_subnets w') = subnet_view ` set (st_subnets w)
      \<and> (\<forall>s. r = Inr s \<longrightarrow> subnet_view s \<in> subnet_view ` set (st_subnets w) \<and> meta_key (sn_meta s) = key)"
    by (auto simp: mem_kube_def find_obj_def find_Some_iff split: option.splits)
qed (simp_all add: mem_kube_def)

lemmas mem_kube_laws = mem_kube_set_ref_keeps mem_kube_exclusive mem_kube_apierrors mem_kube_get_pool mem_kube_set_ref mem_kube_order mem_kube_retry

section \<open>Reasoning about calls\<close>

lemma apierrors_simps [step_simps]:
  assumes "apierrors_laws k"
  shows "\<not> k_IsNotFound k (Errorf m)" "\<not> k_IsAlreadyExists k (Errorf m)" "\<not> k_IsConflict k (Errorf m)"
    "k_IsNotFound k (Wrapf p e) = k_IsNotFound k e" "k_IsAlreadyExists k (Wrapf p e) = k_IsAlreadyExists k e"
    "k_IsConflict k (Wrapf p e) = k_IsConflict k e"
    "\<not> k_IsNotFound k (AllocErr a)" "\<not> k_IsAlreadyExists k (AllocErr a)" "\<not> k_IsConflict k (AllocErr a)"
  using assms by (simp_all add: apierrors_laws_def)

text \<open>A retried function that keeps a property of the world keeps it over all its runs.\<close>

lemma OnError_invariant:
  assumes law: "retry_law k" and step: "\<And>w r w'. I w \<Longrightarrow> f w = (r, w') \<Longrightarrow> I w'"
    and emit: "\<And>w. I w \<Longrightarrow> I (k_emit k SleepJitter w)"
  shows "k_OnError k (Suc n) p f w = (r, w') \<Longrightarrow> I w \<Longrightarrow> I w'"
proof (induction n arbitrary: w)
  case 0
  then show ?case using law step by (auto simp: retry_law_def split: prod.splits sum.splits if_splits)
next
  case (Suc n)
  obtain r1 w1 where f: "f w = (r1, w1)" by (cases "f w")
  have I1: "I w1" by (rule step [OF Suc.prems(2) f])
  have eq: "k_OnError k (Suc (Suc n)) p f w =
      (case r1 of Inr u \<Rightarrow> (Inr u, w1)
       | Inl e \<Rightarrow> if p e then k_OnError k (Suc n) p f (k_emit k SleepJitter w1) else (Inl e, w1))"
    using law f by (simp add: retry_law_def split: sum.splits)
  show ?case
    using Suc.prems(1) Suc.IH [of "k_emit k SleepJitter w1"] I1 emit
    by (auto simp: eq split: sum.splits if_splits)
qed

text \<open>
  The result of a retried function is the result of one of its runs, on a world the
  invariant holds of; and a run that ends in a retriable error is only the last one.
\<close>

lemma OnError_last_run:
  assumes law: "retry_law k" and step: "\<And>w r w'. I w \<Longrightarrow> f w = (r, w') \<Longrightarrow> I w'"
    and emit: "\<And>w. I w \<Longrightarrow> I (k_emit k SleepJitter w)"
  shows "k_OnError k (Suc n) p f w = (r, w') \<Longrightarrow> I w \<Longrightarrow> \<exists>w0. I w0 \<and> f w0 = (r, w')"
proof (induction n arbitrary: w)
  case 0
  then show ?case using law by (auto simp: retry_law_def split: prod.splits sum.splits if_splits)
next
  case (Suc n)
  obtain r1 w1 where f: "f w = (r1, w1)" by (cases "f w")
  have I1: "I w1" by (rule step [OF Suc.prems(2) f])
  have eq: "k_OnError k (Suc (Suc n)) p f w =
      (case r1 of Inr u \<Rightarrow> (Inr u, w1)
       | Inl e \<Rightarrow> if p e then k_OnError k (Suc n) p f (k_emit k SleepJitter w1) else (Inl e, w1))"
    using law f by (simp add: retry_law_def split: sum.splits)
  show ?case
    using Suc.prems Suc.IH [of "k_emit k SleepJitter w1"] I1 emit f
    by (auto simp: eq split: sum.splits if_splits)
qed

text \<open>The function runs at least once and at most \<open>steps\<close> times.\<close>

lemma OnError_runs_bounds:
  assumes law: "retry_runs_law k"
  shows "1 \<le> k_OnError_runs k (Suc n) p f w \<and> k_OnError_runs k (Suc n) p f w \<le> Suc n"
proof (induction n arbitrary: w)
  case 0
  then show ?case using law by (auto simp: retry_runs_law_def split: prod.splits sum.splits)
next
  case (Suc n)
  have "k_OnError_runs k (Suc (Suc n)) p f w =
      (case f w of (Inr u, w') \<Rightarrow> 1
       | (Inl e, w') \<Rightarrow> if p e then Suc (k_OnError_runs k (Suc n) p f (k_emit k SleepJitter w')) else 1)"
    using law by (simp add: retry_runs_law_def split: prod.splits sum.splits)
  with Suc.IH show ?case by (auto split: prod.splits sum.splits)
qed

lemma exclusive_storeD:
  assumes "exclusive_store k subs"
  shows "k_list_subnets k ns p w = (r, w') \<Longrightarrow> subs w' = subs w"
    and "k_list_subnets k ns p w = (Inr items, w') \<Longrightarrow> subnet_view ` set items = in_pool_of ns p (subs w)"
    and "k_create_subnet k s w = (Inr s', w') \<Longrightarrow> subs w' = insert (subnet_view s) (subs w)"
    and "k_create_subnet k s w = (Inl e, w') \<Longrightarrow> subs w' = subs w"
    and "k_get_subnet k key w = (g, w') \<Longrightarrow> subs w' = subs w"
    and "k_get_subnet k key w = (Inr z, w') \<Longrightarrow> subnet_view z \<in> subs w \<and> meta_key (sn_meta z) = key"
    and "k_get_pool k key w = (gp, w') \<Longrightarrow> subs w' = subs w"
    and "k_get_claim k key w = (gc, w') \<Longrightarrow> subs w' = subs w"
    and "k_update_claim_status k c w = (u, w') \<Longrightarrow> subs w' = subs w"
    and "subs (k_emit k ef w) = subs w"
proof -
  note a = assms [unfolded exclusive_store_def]
  show "k_list_subnets k ns p w = (r, w') \<Longrightarrow> subs w' = subs w"
    and "k_list_subnets k ns p w = (Inr items, w') \<Longrightarrow> subnet_view ` set items = in_pool_of ns p (subs w)"
    using conjunct1 [OF a] by blast+
  note a = conjunct2 [OF a]
  show "k_create_subnet k s w = (Inr s', w') \<Longrightarrow> subs w' = insert (subnet_view s) (subs w)"
    and "k_create_subnet k s w = (Inl e, w') \<Longrightarrow> subs w' = subs w"
    using conjunct1 [OF a] by force+
  note a = conjunct2 [OF a]
  show "k_get_subnet k key w = (g, w') \<Longrightarrow> subs w' = subs w"
    and "k_get_subnet k key w = (Inr z, w') \<Longrightarrow> subnet_view z \<in> subs w \<and> meta_key (sn_meta z) = key"
    using conjunct1 [OF a] by blast+
  note a = conjunct2 [OF a]
  show "k_get_pool k key w = (gp, w') \<Longrightarrow> subs w' = subs w" using conjunct1 [OF a] by blast
  note a = conjunct2 [OF a]
  show "k_get_claim k key w = (gc, w') \<Longrightarrow> subs w' = subs w" using conjunct1 [OF a] by blast
  note a = conjunct2 [OF a]
  show "k_update_claim_status k c w = (u, w') \<Longrightarrow> subs w' = subs w" using conjunct1 [OF a] by blast
  note a = conjunct2 [OF a]
  show "subs (k_emit k ef w) = subs w" using a by simp
qed

section \<open>Workers\<close>

text \<open>
  A controller runs with one worker (\<open>MaxConcurrentReconciles\<close> is 1): it takes requests
  from its queue one after the other. The queue holds any requests, in any order and any
  number of times.
\<close>

fun run_requests :: "('q \<Rightarrow> 's \<Rightarrow> ('o \<times> 's) option) \<Rightarrow> 'q list \<Rightarrow> 's \<Rightarrow> 's option" where
  "run_requests step [] s = Some s"
| "run_requests step (q # qs) s = (case step q s of None \<Rightarrow> None | Some (_, s') \<Rightarrow> run_requests step qs s')"

text \<open>What a reconciler promises to its worker: on a good state it returns, in a good state.\<close>

locale reconciler =
  fixes step :: "'q \<Rightarrow> 's \<Rightarrow> ('o \<times> 's) option" and good :: "'s \<Rightarrow> bool" and le :: "'s \<Rightarrow> 's \<Rightarrow> bool"
  assumes step_good: "good s \<Longrightarrow> \<exists>out s'. step q s = Some (out, s') \<and> good s' \<and> le s s'"
    and le_refl: "le s s" and le_trans: "le s t \<Longrightarrow> le t u \<Longrightarrow> le s u"
begin

lemma run_good: "good s \<Longrightarrow> \<exists>s'. run_requests step qs s = Some s' \<and> good s' \<and> le s s'"
proof (induction qs arbitrary: s)
  case Nil
  then show ?case by (simp add: le_refl)
next
  case (Cons q qs)
  from step_good [OF Cons.prems] obtain out s' where s': "step q s = Some (out, s')" "good s'" "le s s'" by blast
  from Cons.IH [OF s'(2)] obtain s2 where "run_requests step qs s' = Some s2" "good s2" "le s' s2" by blast
  with s' le_trans show ?case by (auto simp del: split_paired_Ex)
qed

end

end
