(* ===== verification/Metrics.thy ===== *)
theory Metrics
  imports Kube
begin

text \<open>
  \<^verbatim>\<open>internal/controller/metrics.go\<close>, \<^verbatim>\<open>metrics_static.go\<close>,
  \<^verbatim>\<open>pool_gauge_watcher.go\<close> and \<^verbatim>\<open>events.go\<close>: recording of counters,
  gauges and events, the declarations of all metrics with their labels
  (\<^verbatim>\<open>statusutil/metrics.go\<close> included) and their registration, and the
  registry of static gauges. That registry is a map from pool to size to gauge; a gauge is its
  pair of labels, or \<open>None\<close> for the shared no-op gauge. Its operations are atomic here;
  \<open>Gauge_Locks\<close> has them with their lock. The Prometheus library is reached through \<open>k_emit\<close>.
  The lemmas show that all metrics are registered, what a registration leaves in the registry
  of gauges, that a lookup never yields nil, and that an unregistration removes exactly one pool.
\<close>

section \<open>Events\<close>

definition EmitAllocationSuccess :: "'w kube \<Rightarrow> SubnetClaim \<Rightarrow> string \<Rightarrow> 'w \<Rightarrow> 'w" where
  "EmitAllocationSuccess k claim cidr =
     k_emit k (RecordEvent (Name (sc_meta claim)) ''Normal'' ''SubnetAllocated''
                 (''Successfully allocated Subnet '' @ cidr))"

definition EmitAllocationConflict :: "'w kube \<Rightarrow> SubnetClaim \<Rightarrow> string \<Rightarrow> 'w \<Rightarrow> 'w" where
  "EmitAllocationConflict k claim details =
     k_emit k (RecordEvent (Name (sc_meta claim)) ''Warning'' ''AllocationConflict''
                 (''Allocation conflict: '' @ details))"

definition EmitPoolExhausted :: "'w kube \<Rightarrow> SubnetClaim \<Rightarrow> string \<Rightarrow> 'w \<Rightarrow> 'w" where
  "EmitPoolExhausted k claim poolName =
     k_emit k (RecordEvent (Name (sc_meta claim)) ''Warning'' ''SubnetPoolExhausted''
                 (''Pool '' @ poolName @ '' is exhausted for requested size''))"

definition EmitValidationFailed :: "'w kube \<Rightarrow> SubnetClaim \<Rightarrow> string \<Rightarrow> 'w \<Rightarrow> 'w" where
  "EmitValidationFailed k claim details =
     k_emit k (RecordEvent (Name (sc_meta claim)) ''Warning'' ''ValidationFailed''
                 (''Validation failed: '' @ details))"

definition EmitPoolEvent :: "'w kube \<Rightarrow> SubnetPool \<Rightarrow> string \<Rightarrow> string \<Rightarrow> string \<Rightarrow> 'w \<Rightarrow> 'w" where
  "EmitPoolEvent k pool eventType reason msg =
     k_emit k (RecordEvent (Name (sp_meta pool)) eventType reason msg)"

section \<open>Counters\<close>

text \<open>The size label of \<open>recordAllocSuccess\<close>.\<close>

definition success_size :: "SubnetClaim \<Rightarrow> string \<Rightarrow> string" where
  "success_size claim cidr =
     (let sz = Itoa (sc_BlockSize (sc_spec claim))
      in if sz = ''0'' \<and> sc_RequestedCIDR (sc_spec claim) \<noteq> '''' then
           let parts = Split cidr (CHR ''/'')
           in if length parts = 2 then
                (case Atoi (parts ! 1) of Inr prefixLen \<Rightarrow> Itoa prefixLen | Inl _ \<Rightarrow> sz)
              else sz
         else sz)"

definition recordAllocSuccess :: "'w kube \<Rightarrow> SubnetClaim \<Rightarrow> string \<Rightarrow> 'w \<Rightarrow> 'w" where
  "recordAllocSuccess k claim cidr =
     k_emit k (CounterInc ''allocationTotal''
                 [sc_PoolRef (sc_spec claim), success_size claim cidr, ''success''])"

definition recordRetry :: "'w kube \<Rightarrow> int \<Rightarrow> 'w \<Rightarrow> 'w" where
  "recordRetry k count = k_emit k (CounterInc ''retryTotal'' [''all'', Itoa count])"

definition recordLatency :: "'w kube \<Rightarrow> 'w \<Rightarrow> 'w" where
  "recordLatency k = k_emit k (HistogramObserve ''allocLatency'' [''all''])"

definition recordAllocationError :: "'w kube \<Rightarrow> SubnetClaim \<Rightarrow> string \<Rightarrow> 'w \<Rightarrow> 'w" where
  "recordAllocationError k claim errorType =
     (let sz = Itoa (sc_BlockSize (sc_spec claim));
          sz' = (if sz = ''0'' then ''24'' else sz)
      in k_emit k (CounterInc ''allocationTotal'' [sc_PoolRef (sc_spec claim), sz', errorType]))"

definition recordCreateMetrics :: "'w kube \<Rightarrow> string \<Rightarrow> 'w \<Rightarrow> 'w" where
  "recordCreateMetrics k res w =
     k_emit k (HistogramObserve ''allocationCreateLatency'' [res])
       (k_emit k (CounterInc ''allocationCreateTotal'' [res]) w)"

definition recordPoolStatusUpdate :: "'w kube \<Rightarrow> string \<Rightarrow> string \<Rightarrow> 'w \<Rightarrow> 'w" where
  "recordPoolStatusUpdate k pool res w =
     k_emit k (HistogramObserve ''poolStatusUpdateLatency'' [res])
       (k_emit k (CounterInc ''poolStatusUpdateTotal'' [pool, res]) w)"

definition recordPoolStatusRetry :: "'w kube \<Rightarrow> string \<Rightarrow> 'w \<Rightarrow> 'w" where
  "recordPoolStatusRetry k pool = k_emit k (CounterInc ''poolStatusRetryTotal'' [pool, ''conflict''])"

definition RecordParentPoolRequeue :: "'w kube \<Rightarrow> string \<Rightarrow> 'w \<Rightarrow> 'w" where
  "RecordParentPoolRequeue k eventType = k_emit k (CounterInc ''parentPoolRequeueTotal'' [eventType])"

definition RecordParentPoolReconcileDuration :: "'w kube \<Rightarrow> string \<Rightarrow> 'w \<Rightarrow> 'w" where
  "RecordParentPoolReconcileDuration k res =
     k_emit k (HistogramObserve ''parentPoolReconcileDuration'' [res])"

definition updateFreeBlockMetrics :: "'w kube \<Rightarrow> string \<Rightarrow> string \<Rightarrow> (string \<rightharpoonup> nat) \<Rightarrow> 'w \<Rightarrow> 'w" where
  "updateFreeBlockMetrics k poolName poolCIDR freeCountBySize w =
     fold (\<lambda>sz. k_emit k (GaugeSet ''freeBlocks'' [poolName, sz] (int (the (freeCountBySize sz)))))
       (k_order k w (dom freeCountBySize)) w"

section \<open>Metric declarations\<close>

text \<open>
  The metrics of \<^verbatim>\<open>metrics.go\<close> and \<^verbatim>\<open>statusutil/metrics.go\<close> under the names of their
  Go variables, with kind, name and label names; help texts and buckets are left out.
\<close>

datatype metric_kind = GaugeKind | CounterKind | HistogramKind

type_synonym metric = "metric_kind \<times> string \<times> string list"

definition controller_metrics :: "(string \<times> metric) list" where
  "controller_metrics =
     [(''poolFreeGauge'', GaugeKind, ''aquanaut_subnet_pool_free_blocks'', [''pool'', ''size'']),
      (''allocationTotal'', CounterKind, ''aquanaut_subnet_alloc_total'', [''pool'', ''size'', ''result'']),
      (''freeBlocks'', GaugeKind, ''aquanaut_subnet_free'', [''pool'', ''size'']),
      (''retryTotal'', CounterKind, ''aquanaut_subnet_alloc_retry_total'', [''pool'', ''retries'']),
      (''allocLatency'', HistogramKind, ''aquanaut_subnet_alloc_latency_seconds'', [''result'']),
      (''lockAcquireTotal'', CounterKind, ''aquanaut_ipam_claim_lock_acquire_total'', [''result'']),
      (''lockLatency'', HistogramKind, ''aquanaut_ipam_claim_lock_latency_seconds'', [''result'']),
      (''staleLockCleanupTotal'', CounterKind, ''aquanaut_ipam_claim_lock_stale_cleanup_total'', []),
      (''allocationCreateTotal'', CounterKind, ''aquanaut_ipam_allocation_create_total'', [''result'']),
      (''allocationCreateLatency'', HistogramKind, ''aquanaut_ipam_allocation_create_latency_seconds'', [''result'']),
      (''poolStatusUpdateTotal'', CounterKind, ''aquanaut_ipam_pool_status_update_total'', [''pool'', ''result'']),
      (''poolStatusUpdateLatency'', HistogramKind, ''aquanaut_ipam_pool_status_update_latency_seconds'', [''result'']),
      (''poolStatusRetryTotal'', CounterKind, ''aquanaut_ipam_pool_status_retry_total'', [''pool'', ''retries'']),
      (''SubnetListPagesTotal'', CounterKind, ''subnet_list_pages_total'', []),
      (''SubnetListContinueSkippedTotal'', CounterKind, ''subnet_list_continue_skipped_total'', []),
      (''parentPoolRequeueTotal'', CounterKind, ''subnetpool_parent_requeue_total'', [''event_type'']),
      (''parentPoolReconcileDuration'', HistogramKind, ''subnetpool_parent_reconcile_duration_seconds'', [''result''])]"

definition statusutil_metrics :: "(string \<times> metric) list" where
  "statusutil_metrics =
     [(''SubnetStatusUpdateTotal'', CounterKind, ''aquanaut_ipam_subnet_status_update_total'', [''result'']),
      (''SubnetStatusUpdateLatency'', HistogramKind, ''aquanaut_ipam_subnet_status_update_latency_seconds'', [''result'']),
      (''SubnetStatusRetryTotal'', CounterKind, ''aquanaut_ipam_subnet_status_retry_total'', [''retries''])]"

text \<open>
  \<open>init\<close>: every metric is registered, in this order, and errors are ignored;
  \<open>register\<close> is the registry of controller-runtime.
\<close>

definition registerOrGet :: "(metric \<Rightarrow> 'w \<Rightarrow> error option \<times> 'w) \<Rightarrow> metric \<Rightarrow> 'w \<Rightarrow> 'w" where
  "registerOrGet register m w = snd (register m w)"

definition init_controller_metrics :: "(metric \<Rightarrow> 'w \<Rightarrow> error option \<times> 'w) \<Rightarrow> 'w \<Rightarrow> 'w" where
  "init_controller_metrics register =
     fold (\<lambda>v. registerOrGet register (the (map_of controller_metrics v)))
       [''poolFreeGauge'', ''allocationTotal'', ''freeBlocks'', ''retryTotal'', ''allocLatency'', ''lockAcquireTotal'', ''lockLatency'',
        ''staleLockCleanupTotal'', ''allocationCreateTotal'', ''allocationCreateLatency'', ''poolStatusUpdateTotal'',
        ''poolStatusUpdateLatency'', ''poolStatusRetryTotal'', ''parentPoolRequeueTotal'', ''parentPoolReconcileDuration'',
        ''SubnetListPagesTotal'', ''SubnetListContinueSkippedTotal'']"

definition init_statusutil_metrics :: "(metric \<Rightarrow> 'w \<Rightarrow> error option \<times> 'w) \<Rightarrow> 'w \<Rightarrow> 'w" where
  "init_statusutil_metrics register =
     fold (\<lambda>v. registerOrGet register (the (map_of statusutil_metrics v)))
       [''SubnetStatusUpdateTotal'', ''SubnetStatusUpdateLatency'', ''SubnetStatusRetryTotal'']"

text \<open>
  \<open>WithLabelValues\<close> panics unless it gets one value per label of a metric. A static gauge
  carries its labels itself.
\<close>

definition declared :: "string \<Rightarrow> metric_kind \<Rightarrow> nat \<Rightarrow> bool" where
  "declared v kd n = (case map_of (controller_metrics @ statusutil_metrics) v of
     None \<Rightarrow> False | Some (kd', _, labels) \<Rightarrow> kd' = kd \<and> length labels = n)"

fun well_labelled :: "effect \<Rightarrow> bool" where
  "well_labelled (CounterInc v values) = declared v CounterKind (length values)"
| "well_labelled (HistogramObserve v values) = declared v HistogramKind (length values)"
| "well_labelled (GaugeSet v values n) = (v = ''free_blocks_static'' \<or> declared v GaugeKind (length values))"
| "well_labelled _ = True"

lemma declared_metrics [simp]:
  "declared ''poolFreeGauge'' GaugeKind (Suc (Suc 0))" "declared ''freeBlocks'' GaugeKind (Suc (Suc 0))" "declared ''allocationTotal'' CounterKind (Suc (Suc (Suc 0)))"
  "declared ''retryTotal'' CounterKind (Suc (Suc 0))" "declared ''allocLatency'' HistogramKind (Suc 0)" "declared ''allocationCreateTotal'' CounterKind (Suc 0)"
  "declared ''allocationCreateLatency'' HistogramKind (Suc 0)" "declared ''poolStatusUpdateTotal'' CounterKind (Suc (Suc 0))"
  "declared ''poolStatusUpdateLatency'' HistogramKind (Suc 0)" "declared ''poolStatusRetryTotal'' CounterKind (Suc (Suc 0))"
  "declared ''SubnetListPagesTotal'' CounterKind 0" "declared ''SubnetListContinueSkippedTotal'' CounterKind 0"
  "declared ''SubnetStatusUpdateTotal'' CounterKind (Suc 0)" "declared ''SubnetStatusUpdateLatency'' HistogramKind (Suc 0)"
  "declared ''SubnetStatusRetryTotal'' CounterKind (Suc 0)"
  by (simp_all add: declared_def controller_metrics_def statusutil_metrics_def)

section \<open>Registration\<close>

text \<open>
  The registry of controller-runtime keeps one metric per name: it refuses a name that is
  taken and changes nothing then.
\<close>

definition register_law :: "(metric \<Rightarrow> 'w \<Rightarrow> error option \<times> 'w) \<Rightarrow> ('w \<Rightarrow> string \<rightharpoonup> metric) \<Rightarrow> bool" where
  "register_law register reg \<longleftrightarrow>
     (\<forall>m w. reg (snd (register m w)) = (if fst (snd m) \<in> dom (reg w) then reg w else (reg w)(fst (snd m) \<mapsto> m)))"

lemma fold_registers:
  assumes law: "register_law register reg"
  shows "distinct (map (fst \<circ> snd) ms) \<Longrightarrow> (\<forall>m\<in>set ms. fst (snd m) \<notin> dom (reg w)) \<Longrightarrow>
    reg (fold (registerOrGet register) ms w) = reg w ++ map_of (map (\<lambda>m. (fst (snd m), m)) ms)"
proof (induction ms arbitrary: w)
  case (Cons m ms)
  let ?w = "registerOrGet register m w"
  have w: "reg ?w = (reg w)(fst (snd m) \<mapsto> m)"
    using law Cons.prems(2) by (simp add: register_law_def registerOrGet_def del: split_paired_All)
  have fresh: "fst (snd m) \<notin> fst ` (\<lambda>m. (fst (snd m), m)) ` set ms" using Cons.prems(1) by (auto simp: image_iff)
  have "reg (fold (registerOrGet register) ms ?w) = reg ?w ++ map_of (map (\<lambda>m. (fst (snd m), m)) ms)"
  proof (rule Cons.IH)
    show "\<forall>x\<in>set ms. fst (snd x) \<notin> dom (reg ?w)"
    proof
      fix x
      assume x: "x \<in> set ms"
      then have "fst (snd x) \<noteq> fst (snd m)" using Cons.prems(1) by (auto simp: o_def rev_image_eqI)
      moreover have "fst (snd x) \<notin> dom (reg w)" using Cons.prems(2) x by simp
      ultimately show "fst (snd x) \<notin> dom (reg ?w)" by (simp add: w)
    qed
  qed (use Cons.prems(1) in simp)
  moreover have "fst (snd m) \<notin> dom (map_of (map (\<lambda>m. (fst (snd m), m)) ms))" using fresh by (simp add: dom_map_of_conv_image_fst)
  ultimately show ?case by (simp add: w map_add_upd_left) (simp add: fun_eq_iff map_add_def)
qed simp

definition init_order :: "metric list" where
  "init_order = map (\<lambda>v. the (map_of statusutil_metrics v)) [''SubnetStatusUpdateTotal'', ''SubnetStatusUpdateLatency'', ''SubnetStatusRetryTotal'']
     @ map (\<lambda>v. the (map_of controller_metrics v)) [''poolFreeGauge'', ''allocationTotal'', ''freeBlocks'', ''retryTotal'', ''allocLatency'',
        ''lockAcquireTotal'', ''lockLatency'', ''staleLockCleanupTotal'', ''allocationCreateTotal'', ''allocationCreateLatency'',
        ''poolStatusUpdateTotal'', ''poolStatusUpdateLatency'', ''poolStatusRetryTotal'', ''parentPoolRequeueTotal'',
        ''parentPoolReconcileDuration'', ''SubnetListPagesTotal'', ''SubnetListContinueSkippedTotal'']"

lemma init_metrics_fold:
  "init_controller_metrics register (init_statusutil_metrics register w) = fold (registerOrGet register) init_order w"
  by (simp add: init_controller_metrics_def init_statusutil_metrics_def init_order_def)

lemma init_order_complete: "set init_order = snd ` set (controller_metrics @ statusutil_metrics)"
  by code_simp

lemma init_order_distinct: "distinct (map (fst \<circ> snd) init_order)"
  by code_simp

section \<open>The registry of static gauges\<close>

type_synonym gauge = "(string \<times> string) option"
type_synonym registry = "string \<rightharpoonup> (string \<rightharpoonup> gauge)"

definition nilSafeGauge :: gauge where
  "nilSafeGauge = None"

definition commonSizes :: "string set" where
  "commonSizes = {''24'', ''28'', ''20''}"

definition test_prefix :: string where
  "test_prefix = ''nonexistent-pool-''"

definition getPoolGauge :: "registry \<Rightarrow> string \<Rightarrow> string \<Rightarrow> gauge option" where
  "getPoolGauge r poolName sz =
     (case r poolName of None \<Rightarrow> None | Some gauges \<Rightarrow> gauges sz)"

text \<open>The check under the read lock and the one under the write lock are the same test.\<close>

definition registerPoolGaugeForSize ::
    "'w kube \<Rightarrow> string \<Rightarrow> string \<Rightarrow> registry \<times> 'w \<Rightarrow> gauge \<times> registry \<times> 'w" where
  "registerPoolGaugeForSize k poolName sz s =
     (case s of (r, w) \<Rightarrow>
        if HasPrefix poolName test_prefix then (nilSafeGauge, r, w)
        else case getPoolGauge r poolName sz of
          Some g \<Rightarrow> (g, r, w)
        | None \<Rightarrow>
            let r1 = (case r poolName of None \<Rightarrow> r(poolName \<mapsto> (\<lambda>_. None)) | Some _ \<Rightarrow> r);
                gauges = the (r1 poolName)
            in if sz \<notin> commonSizes
               then (nilSafeGauge, r1(poolName \<mapsto> gauges(sz \<mapsto> nilSafeGauge)), w)
               else let g = Some (poolName, sz)
                    in (g, r1(poolName \<mapsto> gauges(sz \<mapsto> g)), k_emit k (RegisterGauge poolName sz) w))"

definition unregisterPoolGauges :: "'w kube \<Rightarrow> string \<Rightarrow> registry \<times> 'w \<Rightarrow> registry \<times> 'w" where
  "unregisterPoolGauges k poolName s =
     (case s of (r, w) \<Rightarrow>
        case r poolName of
          None \<Rightarrow> (r, w)
        | Some gauges \<Rightarrow>
            (r(poolName := None),
             fold (\<lambda>sz. k_emit k (UnregisterGauge (the (gauges sz)))) (k_order k w (dom gauges)) w))"

definition ensurePoolGauge :: "'w kube \<Rightarrow> string \<Rightarrow> string \<Rightarrow> registry \<times> 'w \<Rightarrow> gauge \<times> registry \<times> 'w" where
  "ensurePoolGauge k pool sz s =
     (case getPoolGauge (fst s) pool sz of
        Some g \<Rightarrow> (g, s)
      | None \<Rightarrow> if HasPrefix pool test_prefix then (nilSafeGauge, s)
                else registerPoolGaugeForSize k pool sz s)"

definition RegisterPoolGauges :: "'w kube \<Rightarrow> string \<Rightarrow> registry \<times> 'w \<Rightarrow> registry \<times> 'w" where
  "RegisterPoolGauges k poolName s =
     (let r = fst s;
          r1 = (if r poolName = None then r(poolName \<mapsto> (\<lambda>_. None)) else r);
          s1 = snd (registerPoolGaugeForSize k poolName ''24'' (r1, snd s))
      in fold (\<lambda>sz s. if sz \<noteq> ''24'' then snd (registerPoolGaugeForSize k poolName sz s) else s)
           (k_order k (snd s1) commonSizes) s1)"

definition UnregisterPoolGauges :: "'w kube \<Rightarrow> string \<Rightarrow> registry \<times> 'w \<Rightarrow> registry \<times> 'w" where
  "UnregisterPoolGauges k poolName = unregisterPoolGauges k poolName"

text \<open>The gauge value; \<open>legacy\<close> is the test of the environment variable \<open>ENABLE_LEGACY_VEC\<close>.\<close>

definition recordPoolMetrics ::
    "'w kube \<Rightarrow> bool \<Rightarrow> SubnetPool \<Rightarrow> string \<Rightarrow> nat \<Rightarrow> registry \<times> 'w \<Rightarrow> registry \<times> 'w" where
  "recordPoolMetrics k legacy pool sizeKey free s =
     (let numericSizeKey = TrimPrefix sizeKey ''/''; name = Name (sp_meta pool)
      in if legacy then
           (fst s, k_emit k (GaugeSet ''freeBlocks'' [name, numericSizeKey] (int free))
                     (k_emit k (GaugeSet ''freeBlocks'' [name, sizeKey] (int free))
                        (k_emit k (GaugeSet ''poolFreeGauge'' [name, numericSizeKey] (int free)) (snd s))))
         else
           (case ensurePoolGauge k name numericSizeKey s of
              (g, r, w) \<Rightarrow>
                (r, k_emit k (GaugeSet ''free_blocks_static''
                                (case g of None \<Rightarrow> [] | Some (p, z) \<Rightarrow> [p, z]) (int free)) w)))"

section \<open>Gauge events of pools\<close>

text \<open>
  The predicate methods of \<open>PoolGaugeEventHandler\<close> on a pool object (\<open>None\<close>: the object is
  of another type). The result is whether the event goes on to the reconciler.
\<close>

definition PoolGauge_Create :: "'w kube \<Rightarrow> SubnetPool option \<Rightarrow> registry \<times> 'w \<Rightarrow> bool \<times> registry \<times> 'w" where
  "PoolGauge_Create k obj s =
     (case obj of None \<Rightarrow> (False, s) | Some pool \<Rightarrow> (False, RegisterPoolGauges k (Name (sp_meta pool)) s))"

definition PoolGauge_Delete :: "'w kube \<Rightarrow> SubnetPool option \<Rightarrow> registry \<times> 'w \<Rightarrow> bool \<times> registry \<times> 'w" where
  "PoolGauge_Delete k obj s =
     (case obj of None \<Rightarrow> (False, s) | Some pool \<Rightarrow> (False, UnregisterPoolGauges k (Name (sp_meta pool)) s))"

definition PoolGauge_Update :: "registry \<times> 'w \<Rightarrow> bool \<times> registry \<times> 'w" where
  "PoolGauge_Update s = (False, s)"

definition PoolGauge_Generic :: "registry \<times> 'w \<Rightarrow> bool \<times> registry \<times> 'w" where
  "PoolGauge_Generic s = (False, s)"

text \<open>\<open>RegisterAllPoolGauges\<close>: \<open>listPools\<close> is the client's list of all pools in all namespaces.\<close>

definition RegisterAllPoolGauges ::
    "'w kube \<Rightarrow> ('w \<Rightarrow> (error, SubnetPool list) result \<times> 'w) \<Rightarrow> registry \<times> 'w \<Rightarrow> registry \<times> 'w" where
  "RegisterAllPoolGauges k listPools s =
     (case listPools (snd s) of
        (Inl _, w) \<Rightarrow> (fst s, w)
      | (Inr pools, w) \<Rightarrow> fold (\<lambda>pool. RegisterPoolGauges k (Name (sp_meta pool))) pools (fst s, w))"

section \<open>The registry invariant\<close>

definition expected_gauge :: "string \<Rightarrow> string \<Rightarrow> gauge" where
  "expected_gauge p sz = (if sz \<in> commonSizes then Some (p, sz) else nilSafeGauge)"

text \<open>Every stored gauge carries the labels of its place, or is the shared one for an uncommon size.\<close>

definition reg_ok :: "registry \<Rightarrow> bool" where
  "reg_ok r \<longleftrightarrow> (\<forall>p sz g. getPoolGauge r p sz = Some g \<longrightarrow> g = expected_gauge p sz)"

lemma getPoolGauge_upd:
  "getPoolGauge (r(p \<mapsto> m)) q sz = (if q = p then m sz else getPoolGauge r q sz)"
  by (simp add: getPoolGauge_def)

lemma getPoolGauge_del:
  "getPoolGauge (r(p := None)) q sz = (if q = p then None else getPoolGauge r q sz)"
  by (simp add: getPoolGauge_def)

lemma registerPoolGaugeForSize_post:
  assumes "\<not> HasPrefix p test_prefix" and "reg_ok r"
    and "registerPoolGaugeForSize k p sz (r, w) = (g, r', w')"
  shows "g = expected_gauge p sz"
    and "getPoolGauge r' q z = (if q = p \<and> z = sz then Some g else getPoolGauge r q z)"
    and "r' q = None \<longleftrightarrow> q \<noteq> p \<and> r q = None"
    and "reg_ok r'"
proof -
  have a: "g = expected_gauge p sz \<and> (\<forall>q z. getPoolGauge r' q z = (if q = p \<and> z = sz then Some g else getPoolGauge r q z))
      \<and> (\<forall>q. r' q = None \<longleftrightarrow> q \<noteq> p \<and> r q = None)"
  proof (cases "getPoolGauge r p sz")
    case (Some h)
    then have "h = expected_gauge p sz" using assms(2) by (simp add: reg_ok_def)
    with Some assms show ?thesis
      by (auto simp: registerPoolGaugeForSize_def) (simp add: getPoolGauge_def)
  next
    case None
    show ?thesis
    proof (cases "r p")
      case r: None
      with None assms show ?thesis
        by (auto simp: registerPoolGaugeForSize_def Let_def expected_gauge_def getPoolGauge_upd getPoolGauge_def
            split: if_splits)
    next
      case r: (Some m)
      with None assms show ?thesis
        by (auto simp: registerPoolGaugeForSize_def Let_def expected_gauge_def getPoolGauge_def
            split: if_splits)
    qed
  qed
  then show "g = expected_gauge p sz"
    and "getPoolGauge r' q z = (if q = p \<and> z = sz then Some g else getPoolGauge r q z)"
    and "r' q = None \<longleftrightarrow> q \<noteq> p \<and> r q = None" by auto
  show "reg_ok r'" using a assms(2) by (auto simp: reg_ok_def)
qed

lemma register_fold:
  assumes "\<not> HasPrefix p test_prefix" and "reg_ok r"
    and "fold (\<lambda>sz s. if sz \<noteq> ''24'' then snd (registerPoolGaugeForSize k p sz s) else s) zs (r, w) = (r', w')"
  shows "reg_ok r' \<and> (\<forall>q z. getPoolGauge r' q z =
      (if q = p \<and> z \<in> set zs - {''24''} then Some (expected_gauge p z) else getPoolGauge r q z))"
  using assms(2,3)
proof (induction zs arbitrary: r w)
  case Nil
  then show ?case by simp
next
  case (Cons sz zs)
  show ?case
  proof (cases "sz = ''24''")
    case True
    with Cons.IH [OF Cons.prems(1)] Cons.prems(2) show ?thesis by auto
  next
    case False
    obtain g r1 w1 where f: "registerPoolGaugeForSize k p sz (r, w) = (g, r1, w1)"
      by (cases "registerPoolGaugeForSize k p sz (r, w)")
    note post = registerPoolGaugeForSize_post [OF assms(1) Cons.prems(1) f]
    have "reg_ok r' \<and> (\<forall>q z. getPoolGauge r' q z =
        (if q = p \<and> z \<in> set zs - {''24''} then Some (expected_gauge p z) else getPoolGauge r1 q z))"
      by (rule Cons.IH [OF post(4)]) (use Cons.prems(2) False f in simp)
    then show ?thesis using post(1,2) False by auto
  qed
qed

lemma RegisterPoolGauges_post:
  assumes k: "order_law k" and p: "\<not> HasPrefix p test_prefix" and r: "reg_ok r"
    and e: "RegisterPoolGauges k p (r, w) = (r', w')"
  shows "reg_ok r' \<and> (\<forall>q z. getPoolGauge r' q z =
      (if q = p \<and> z \<in> commonSizes then Some (Some (p, z)) else getPoolGauge r q z))"
proof -
  define r1 where "r1 = (if r p = None then r(p \<mapsto> (\<lambda>_. None)) else r)"
  have g1: "getPoolGauge r1 q z = getPoolGauge r q z" for q z
    by (auto simp: r1_def getPoolGauge_upd getPoolGauge_def)
  then have ok1: "reg_ok r1" using r by (simp add: reg_ok_def)
  obtain g r2 w2 where f: "registerPoolGaugeForSize k p ''24'' (r1, w) = (g, r2, w2)"
    by (cases "registerPoolGaugeForSize k p ''24'' (r1, w)")
  note post = registerPoolGaugeForSize_post [OF p ok1 f]
  have "finite commonSizes" by (simp add: commonSizes_def)
  then have ord: "set (k_order k w2 commonSizes) = commonSizes" using k by (simp add: order_law_def)
  have "fold (\<lambda>sz s. if sz \<noteq> ''24'' then snd (registerPoolGaugeForSize k p sz s) else s)
      (k_order k w2 commonSizes) (r2, w2) = (r', w')"
    using e f by (simp add: RegisterPoolGauges_def Let_def r1_def)
  from register_fold [OF p post(4) this] show ?thesis
    unfolding ord using post(1,2) g1 by (auto simp: expected_gauge_def commonSizes_def)
qed

section \<open>Properties\<close>

text \<open>
  \<open>ensurePoolGauge\<close> always yields a gauge: the stored one when there is one, otherwise the
  one it creates and stores (the shared no-op gauge for an uncommon size and, without
  storing it, for the reserved test prefix); no other entry changes.
\<close>

lemma ensurePoolGauge_total:
  assumes "reg_ok r" and "ensurePoolGauge k p sz (r, w) = (g, r', w')"
  shows "reg_ok r' \<and> (\<forall>q z. (q, z) \<noteq> (p, sz) \<longrightarrow> getPoolGauge r' q z = getPoolGauge r q z)
    \<and> (if HasPrefix p test_prefix then getPoolGauge r' p sz = getPoolGauge r p sz
       else g = expected_gauge p sz \<and> getPoolGauge r' p sz = Some g)"
proof (cases "getPoolGauge r p sz = None \<and> \<not> HasPrefix p test_prefix")
  case True
  then have f: "registerPoolGaugeForSize k p sz (r, w) = (g, r', w')"
    using assms(2) by (simp add: ensurePoolGauge_def)
  note post = registerPoolGaugeForSize_post [OF conjunct2 [OF True] assms(1) f]
  show ?thesis using post(1,2,4) True by auto
next
  case False
  then have "r' = r" "\<not> HasPrefix p test_prefix \<Longrightarrow> getPoolGauge r p sz = Some g"
    using assms(2) by (auto simp: ensurePoolGauge_def split: option.splits if_splits)
  then show ?thesis using assms(1) by (auto simp: reg_ok_def)
qed

text \<open>Unregistering a pool removes that pool and nothing else.\<close>

lemma unregisterPoolGauges_fst: "fst (unregisterPoolGauges k p (r, w)) = r(p := None)"
  by (auto simp: unregisterPoolGauges_def fun_eq_iff split: option.splits)

text \<open>
  No metric is lost: after the initialisation of the two packages, on a registry that holds
  none of the names, every declared metric is registered under its name. Since errors of the
  registration are ignored, a clash of two names would go unnoticed.
\<close>

lemma init_registers_all_metrics:
  assumes "register_law register reg" and "\<forall>m \<in> snd ` set (controller_metrics @ statusutil_metrics). fst (snd m) \<notin> dom (reg w)"
    and "m \<in> snd ` set (controller_metrics @ statusutil_metrics)"
  shows "reg (init_controller_metrics register (init_statusutil_metrics register w)) (fst (snd m)) = Some m"
proof -
  have "reg (fold (registerOrGet register) init_order w) = reg w ++ map_of (map (\<lambda>m. (fst (snd m), m)) init_order)"
    by (rule fold_registers [OF assms(1) init_order_distinct]) (use assms(2) in \<open>simp only: init_order_complete\<close>)
  moreover have "map_of (map (\<lambda>m. (fst (snd m), m)) init_order) (fst (snd m)) = Some m"
    by (rule map_of_is_SomeI) (use assms(3) init_order_distinct in \<open>auto simp: init_order_complete o_def simp del: set_append\<close>)
  ultimately show ?thesis by (simp add: init_metrics_fold)
qed

end
