(* ===== verification/Allocator.thy ===== *)
theory Allocator
  imports Bitmap Sha1 Metrics
begin

text \<open>
  \<^verbatim>\<open>internal/controller/allocator.go\<close>: the choice of a CIDR for a claim and the
  creation of the Subnet that reserves it. \<open>localUsedCIDRs\<close> is the set of the map's keys.
  A dereference of the nil network in \<open>validateRequestedCIDR\<close> is a panic; it is the value
  \<open>None\<close> of the definitions that can reach it. The pool object a caller passes by pointer
  is returned, because a retry reads it again.
\<close>

section \<open>Errors\<close>

definition NewExhaustedError :: "string \<Rightarrow> error" where
  "NewExhaustedError msg = AllocErr \<lparr>message = msg, isExhausted = True, isConflict = False\<rparr>"

definition NewConflictError :: "string \<Rightarrow> error" where
  "NewConflictError msg = AllocErr \<lparr>message = msg, isExhausted = False, isConflict = True\<rparr>"

definition IsExhaustedError :: "error \<Rightarrow> bool" where
  "IsExhaustedError err = (case err of AllocErr a \<Rightarrow> isExhausted a | _ \<Rightarrow> False)"

definition IsConflictError :: "'w kube \<Rightarrow> error \<Rightarrow> bool" where
  "IsConflictError k err = (case err of AllocErr a \<Rightarrow> isConflict a | _ \<Rightarrow> k_IsAlreadyExists k err)"

section \<open>Names\<close>

definition EncodeAllocationName :: "string \<Rightarrow> string \<Rightarrow> string" where
  "EncodeAllocationName pool cidr =
     (let normalizedCIDR = ReplaceAll cidr (CHR ''/'') (CHR ''-'');
          normalizedCIDR = ReplaceAll normalizedCIDR (CHR ''.'') (CHR ''-'');
          normalizedCIDR = ReplaceAll normalizedCIDR (CHR '':'') (CHR ''-'');
          name = pool @ ''-'' @ normalizedCIDR
      in if length name \<le> 63 then name
         else
           let h = sha1_Sum (string_bytes name);
               hashStr = hex_bytes (take 8 h);
               maxPoolLen = 40;
               pool = (if length pool > maxPoolLen then take maxPoolLen pool else pool);
               shortName = pool @ ''-'' @ hashStr
           in if length shortName > 63 then take 63 shortName else shortName)"

definition AllocationMaxRetries :: nat where
  "AllocationMaxRetries = 50"

section \<open>Choosing a CIDR\<close>

text \<open>The marking loop of \<open>findAvailableCIDR\<close>; errors are ignored.\<close>

fun mark_used :: "CIDRMap \<Rightarrow> string list \<Rightarrow> CIDRMap" where
  "mark_used m [] = m"
| "mark_used m (cidr # rest) =
     mark_used (case MarkAllocated m cidr of Inl _ \<Rightarrow> m | Inr m' \<Rightarrow> m') rest"

text \<open>\<open>order\<close> lists the keys of the map in the order of this iteration.\<close>

definition findAvailableCIDR :: "(string set \<Rightarrow> string list) \<Rightarrow> string \<Rightarrow> int \<Rightarrow> string set \<Rightarrow> (error, string) result" where
  "findAvailableCIDR order poolCIDR blockSize usedCIDRs =
     (case NewCIDRMap poolCIDR of
        Inl err \<Rightarrow> Inl (Wrapf ''failed to create CIDR map: '' err)
      | Inr m \<Rightarrow>
          (case AllocateNextAvailable (mark_used m (order usedCIDRs)) blockSize of
             Inl err \<Rightarrow> Inl (Wrapf ''failed to allocate CIDR: '' err)
           | Inr (cidr, _) \<Rightarrow> Inr cidr))"

definition handleCIDRSelectionError :: "error \<Rightarrow> int \<Rightarrow> string \<Rightarrow> error" where
  "handleCIDRSelectionError err blockSize poolCIDR =
     (if Contains_str (err_text err) ''no available CIDR blocks''
         \<or> Contains_str (err_text err) ''pool exhausted''
      then NewExhaustedError (''failed to find available CIDR of size /'' @ Itoa blockSize @ '': pool exhausted'')
      else if Contains_str (err_text err) ''prefix length'' \<or> Contains_str (err_text err) ''invalid''
      then Errorf (''invalid block size /'' @ Itoa blockSize @ '' for pool '' @ poolCIDR @ '': '' @ err_text err)
      else Errorf (''failed to find available CIDR of size /'' @ Itoa blockSize @ '': '' @ err_text err))"

text \<open>The overlap loop: the first existing allocation the request overlaps.\<close>

fun first_overlap :: "string \<Rightarrow> Subnet list \<Rightarrow> string option" where
  "first_overlap requestedCIDR [] = None"
| "first_overlap requestedCIDR (alloc # rest) =
     (if CIDROverlaps requestedCIDR (sn_CIDR (sn_spec alloc)) then Some (sn_CIDR (sn_spec alloc))
      else first_overlap requestedCIDR rest)"

definition validateRequestedCIDR :: "string \<Rightarrow> string \<Rightarrow> Subnet list \<Rightarrow> (error, string) result option" where
  "validateRequestedCIDR requestedCIDR poolCIDR existingAllocations =
     (case ParseCIDR requestedCIDR of
        Inl err \<Rightarrow> Some (Inl (Wrapf ''invalid requested CIDR format: '' err))
      | Inr (_, ipNet) \<Rightarrow>
          (case ParseCIDR poolCIDR of
             Inl _ \<Rightarrow> None
           | Inr (_, poolNet) \<Rightarrow>
               if \<not> IPNet_Contains poolNet (IPNet_IP ipNet) then
                 Some (Inl (Errorf (''requested CIDR '' @ requestedCIDR @ '' is outside pool '' @ poolCIDR
                                      @ '' (network address outside pool)'')))
               else if \<not> IPNet_Contains poolNet (CalculateLastIP ipNet) then
                 Some (Inl (Errorf (''requested CIDR '' @ requestedCIDR @ '' is outside pool '' @ poolCIDR
                                      @ '' (last address outside pool)'')))
               else (case first_overlap requestedCIDR existingAllocations of
                       Some c \<Rightarrow> Some (Inl (Errorf (''requested CIDR '' @ requestedCIDR
                                      @ '' overlaps with existing allocation '' @ c)))
                     | None \<Rightarrow> Some (Inr requestedCIDR))))"

definition block_size_of :: "SubnetClaim \<Rightarrow> SubnetPool \<Rightarrow> int" where
  "block_size_of claim pool =
     (if sc_BlockSize (sc_spec claim) = 0 then
        (if sp_DefaultBlockSize (sp_spec pool) = 0 then 24 else sp_DefaultBlockSize (sp_spec pool))
      else sc_BlockSize (sc_spec claim))"

definition selectCandidateCIDR ::
    "(string set \<Rightarrow> string list) \<Rightarrow> SubnetClaim \<Rightarrow> SubnetPool \<Rightarrow> string set \<Rightarrow> Subnet list
     \<Rightarrow> (error, string) result option" where
  "selectCandidateCIDR order claim pool localUsedCIDRs existingAllocations =
     (if sc_RequestedCIDR (sc_spec claim) \<noteq> '''' then
        validateRequestedCIDR (sc_RequestedCIDR (sc_spec claim)) (sp_CIDR (sp_spec pool)) existingAllocations
      else
        let blockSize = block_size_of claim pool
        in case findAvailableCIDR order (sp_CIDR (sp_spec pool)) blockSize localUsedCIDRs of
             Inl err \<Rightarrow> Some (Inl (handleCIDRSelectionError err blockSize (sp_CIDR (sp_spec pool))))
           | Inr c \<Rightarrow> Some (Inr c))"

section \<open>Reserving it\<close>

definition new_subnet :: "SubnetClaim \<Rightarrow> SubnetPool \<Rightarrow> string \<Rightarrow> string \<Rightarrow> Subnet" where
  "new_subnet claim pool candidateCIDR allocationName =
     \<lparr>sn_meta = empty_meta\<lparr>Name := allocationName, Namespace := Namespace (sc_meta claim)\<rparr>,
      sn_spec = \<lparr>sn_PoolRef = Name (sp_meta pool), sn_CIDR = candidateCIDR,
                 sn_ClusterID = sc_ClusterID (sc_spec claim),
                 sn_ClaimRef = \<lparr>cr_Name = Name (sc_meta claim), cr_UID = UID (sc_meta claim)\<rparr>\<rparr>,
      sn_status = \<lparr>sn_Phase = '''', sn_AllocatedAt = None\<rparr>\<rparr>"

definition createAllocation ::
    "'w kube \<Rightarrow> SubnetClaim \<Rightarrow> SubnetPool \<Rightarrow> string \<Rightarrow> string \<Rightarrow> 'w \<Rightarrow> (error, bool \<times> string) result \<times> 'w" where
  "createAllocation k claim pool candidateCIDR allocationName w =
     (case k_set_ref_subnet k claim (new_subnet claim pool candidateCIDR allocationName) of
        Inl err \<Rightarrow> (Inl (Wrapf ''failed to set owner reference: '' err), w)
      | Inr allocation \<Rightarrow>
          (case k_create_subnet k allocation w of
             (Inr _, w1) \<Rightarrow> (Inr (True, candidateCIDR), recordCreateMetrics k ''success'' w1)
           | (Inl allocCreateErr, w1) \<Rightarrow>
               if k_IsAlreadyExists k allocCreateErr then
                 let w2 = recordCreateMetrics k ''exists'' w1;
                     conflict = Inl (NewConflictError (''CIDR '' @ candidateCIDR @ '' already allocated to another cluster''))
                 in case k_get_subnet k (Namespace (sc_meta claim), allocationName) w2 of
                      (Inr existingAlloc, w3) \<Rightarrow>
                        if sn_ClusterID (sn_spec existingAlloc) = sc_ClusterID (sc_spec claim)
                        then (Inr (True, sn_CIDR (sn_spec existingAlloc)), w3)
                        else (conflict, w3)
                    | (Inl _, w3) \<Rightarrow> (conflict, w3)
               else (Inl (Wrapf ''failed to create allocation: '' allocCreateErr), recordCreateMetrics k ''error'' w1)))"

definition subnet_cidrs :: "Subnet list \<Rightarrow> string set" where
  "subnet_cidrs ss = set (map (\<lambda>s. sn_CIDR (sn_spec s)) ss)"

text \<open>On an error the list and the map stay as they are; the caller ignores the error.\<close>

definition refreshAllocationList ::
    "'w kube \<Rightarrow> SubnetPool \<Rightarrow> Subnet list \<Rightarrow> string set \<Rightarrow> 'w \<Rightarrow> Subnet list \<times> string set \<times> 'w" where
  "refreshAllocationList k pool existingAllocations localUsedCIDRs w =
     (case k_list_subnets k (Namespace (sp_meta pool)) (Name (sp_meta pool)) w of
        (Inl _, w') \<Rightarrow> (existingAllocations, localUsedCIDRs, w')
      | (Inr items, w') \<Rightarrow> (items, localUsedCIDRs \<union> subnet_cidrs items, w'))"

text \<open>What a retry does before it selects: wait, read the pool again, refresh the list.\<close>

definition prepare_retry ::
    "'w kube \<Rightarrow> SubnetPool \<Rightarrow> Subnet list \<Rightarrow> string set \<Rightarrow> nat \<Rightarrow> 'w
     \<Rightarrow> (error, SubnetPool \<times> Subnet list \<times> string set) result \<times> 'w" where
  "prepare_retry k pool existingAllocations localUsedCIDRs retry w =
     (if retry = 0 then (Inr (pool, existingAllocations, localUsedCIDRs), w)
      else case k_get_pool k (Namespace (sp_meta pool), Name (sp_meta pool)) (k_emit k (SleepBackoff retry) w) of
        (Inl err, w1) \<Rightarrow> (Inl (Wrapf ''failed to get latest pool state: '' err), w1)
      | (Inr pool', w1) \<Rightarrow>
          (case refreshAllocationList k pool' existingAllocations localUsedCIDRs w1 of
             (existing', used', w2) \<Rightarrow> (Inr (pool', existing', used'), w2)))"

text \<open>The retry loop: \<open>n\<close> rounds are left, \<open>retry\<close> have been made.\<close>

fun allocate_loop ::
    "'w kube \<Rightarrow> SubnetClaim \<Rightarrow> SubnetPool \<Rightarrow> Subnet list \<Rightarrow> string set \<Rightarrow> nat \<Rightarrow> nat \<Rightarrow> 'w
     \<Rightarrow> ((error, bool \<times> string) result \<times> SubnetPool \<times> 'w) option" where
  "allocate_loop k claim pool existing used retry 0 w =
     Some (Inl (Errorf (''failed to allocate CIDR after '' @ Itoa (int AllocationMaxRetries) @ '' retries'')), pool, w)"
| "allocate_loop k claim pool existing used retry (Suc n) w =
     (case prepare_retry k pool existing used retry w of
        (Inl err, w1) \<Rightarrow> Some (Inl err, pool, w1)
      | (Inr (pool1, existing1, used1), w1) \<Rightarrow>
          (case selectCandidateCIDR (k_order k w1) claim pool1 used1 existing1 of
             None \<Rightarrow> None
           | Some (Inl err) \<Rightarrow> Some (Inl err, pool1, w1)
           | Some (Inr candidateCIDR) \<Rightarrow>
               let used2 = insert candidateCIDR used1;
                   allocationName = EncodeAllocationName (Name (sp_meta pool1)) candidateCIDR
               in case createAllocation k claim pool1 candidateCIDR allocationName w1 of
                    (Inl err, w2) \<Rightarrow>
                      let used3 = used2 - {candidateCIDR}
                      in if \<not> IsConflictError k err then Some (Inl err, pool1, w2)
                         else allocate_loop k claim pool1 existing1 used3 (Suc retry) n w2
                  | (Inr (success, cidr), w2) \<Rightarrow>
                      if success then Some (Inr (True, cidr), pool1, w2)
                      else allocate_loop k claim pool1 existing1 used2 (Suc retry) n w2))"

text \<open>Step 1 of \<open>allocateCIDR\<close>: the CIDR of an allocation of this cluster in this pool.\<close>

fun find_existing :: "SubnetClaim \<Rightarrow> SubnetPool \<Rightarrow> Subnet list \<Rightarrow> string option" where
  "find_existing claim pool [] = None"
| "find_existing claim pool (alloc # rest) =
     (if sn_ClusterID (sn_spec alloc) = sc_ClusterID (sc_spec claim) \<and> sn_PoolRef (sn_spec alloc) = Name (sp_meta pool)
      then Some (sn_CIDR (sn_spec alloc)) else find_existing claim pool rest)"

definition allocateCIDR ::
    "'w kube \<Rightarrow> SubnetClaim \<Rightarrow> SubnetPool \<Rightarrow> Subnet list \<Rightarrow> 'w
     \<Rightarrow> ((error, bool \<times> string) result \<times> SubnetPool \<times> 'w) option" where
  "allocateCIDR k claim pool existingAllocations w =
     (case find_existing claim pool existingAllocations of
        Some cidr \<Rightarrow> Some (Inr (True, cidr), pool, recordLatency k w)
      | None \<Rightarrow>
          map_option (\<lambda>(r, p, w'). (r, p, recordLatency k w'))
            (allocate_loop k claim pool existingAllocations (subnet_cidrs existingAllocations) 0 AllocationMaxRetries w))"

section \<open>Marking a list of CIDRs\<close>

text \<open>
  The contract of a CIDR map a marking loop relies on: a map has a pool and a set of used
  addresses; marking an IPv4 CIDR that starts in the pool and meets no used address adds
  its addresses, and any other IPv4 CIDR is refused.
\<close>

locale cidr_store =
  fixes wf :: "'m \<Rightarrow> bool" and pool :: "'m \<Rightarrow> nat set" and used :: "'m \<Rightarrow> nat set"
    and mark :: "'m \<Rightarrow> string \<Rightarrow> (error, 'm) result"
  assumes mark_free: "wf c \<Longrightarrow> v4_cidr s a k \<Longrightarrow> a \<in> pool c \<Longrightarrow> cidr_addrs s \<inter> used c = {} \<Longrightarrow>
      \<exists>c'. mark c s = Inr c' \<and> wf c' \<and> pool c' = pool c \<and> used c' = used c \<union> cidr_addrs s"
    and mark_refused: "wf c \<Longrightarrow> v4_cidr s a k \<Longrightarrow> a \<notin> pool c \<or> cidr_addrs s \<inter> used c \<noteq> {} \<Longrightarrow>
      \<exists>e. mark c s = Inl e"

locale marking_loop = cidr_store wf pool used mark
  for wf :: "'m \<Rightarrow> bool" and pool used mark +
  fixes loop :: "'m \<Rightarrow> string list \<Rightarrow> 'm"
  assumes loop_Nil: "loop c [] = c"
    and loop_Cons: "loop c (s # ss) = loop (case mark c s of Inl _ \<Rightarrow> c | Inr c' \<Rightarrow> c') ss"
begin

text \<open>Pairwise disjoint CIDRs are all marked, whatever their order; those that start outside are skipped.\<close>

lemma loop_disjoint:
  assumes "wf c" and "distinct ss"
    and "\<And>s. s \<in> set ss \<Longrightarrow> \<exists>a k. v4_cidr s a k \<and> (a \<in> pool c \<or> cidr_addrs s \<inter> pool c = {})"
    and "\<And>s. s \<in> set ss \<Longrightarrow> cidr_addrs s \<inter> used c = {}"
    and "\<And>s t. s \<in> set ss \<Longrightarrow> t \<in> set ss \<Longrightarrow> s \<noteq> t \<Longrightarrow> cidr_addrs s \<inter> cidr_addrs t = {}"
  shows "wf (loop c ss) \<and> pool (loop c ss) = pool c
    \<and> used c \<subseteq> used (loop c ss) \<and> used (loop c ss) \<inter> pool c = (used c \<union> \<Union> (cidr_addrs ` set ss)) \<inter> pool c"
  using assms
proof (induction ss arbitrary: c)
  case Nil
  then show ?case by (simp add: loop_Nil)
next
  case (Cons s ss)
  from Cons.prems(3) [of s] obtain a k where s: "v4_cidr s a k"
    and a: "a \<in> pool c \<or> cidr_addrs s \<inter> pool c = {}" by auto
  have ne: "a \<in> cidr_addrs s" by (simp add: cidr_addrs_v4 [OF s])
  show ?case
  proof (cases "a \<in> pool c")
    case True
    obtain c' where c': "mark c s = Inr c'" "wf c'" "pool c' = pool c" "used c' = used c \<union> cidr_addrs s"
      using mark_free [OF Cons.prems(1) s True] Cons.prems(4) [of s] by auto
    have "cidr_addrs t \<inter> used c' = {}" if "t \<in> set ss" for t
      using Cons.prems(2) Cons.prems(5) [of t s] Cons.prems(4) [of t] that c'(4) by auto
    then show ?thesis
      using Cons.IH [OF c'(2)] Cons.prems(2,3,5) c' by (auto simp: loop_Cons)
  next
    case False
    then obtain e where e: "mark c s = Inl e" using mark_refused [OF Cons.prems(1) s] by blast
    have "cidr_addrs s \<inter> pool c = {}" using a False by blast
    then show ?thesis
      using Cons.IH [OF Cons.prems(1)] Cons.prems(2-5) e by (auto simp: loop_Cons)
  qed
qed

end

interpretation ml: marking_loop wf_map pool_addrs used_addrs MarkAllocated mark_used
proof unfold_locales
  fix c s a k assume h: "wf_map c" "v4_cidr s a k" "a \<in> pool_addrs c" "cidr_addrs s \<inter> used_addrs c = {}"
  show "\<exists>c'. MarkAllocated c s = Inr c' \<and> wf_map c' \<and> pool_addrs c' = pool_addrs c
      \<and> used_addrs c' = used_addrs c \<union> cidr_addrs s"
    by (rule MarkAllocated_disjoint [OF h]) blast
next
  fix c s a k assume h: "wf_map c" "v4_cidr s a k" "a \<notin> pool_addrs c \<or> cidr_addrs s \<inter> used_addrs c \<noteq> {}"
  then show "\<exists>e. MarkAllocated c s = Inl e"
    by (auto simp: MarkAllocated_v4 cidr_addrs_v4 Int_commute simp del: mem_block)
qed simp_all

section \<open>The search over a set of used CIDRs\<close>

text \<open>
  \<open>free_block P U k a\<close>: the aligned block of prefix length \<open>k\<close> at \<open>a\<close> lies in \<open>P\<close> and meets
  none of the CIDRs \<open>U\<close>. \<open>disjoint_used P U\<close>: the CIDRs \<open>U\<close> are IPv4, pairwise disjoint, and
  each starts in \<open>P\<close> or lies outside it.
\<close>

definition free_block :: "nat set \<Rightarrow> string set \<Rightarrow> nat \<Rightarrow> nat \<Rightarrow> bool" where
  "free_block P U k a \<longleftrightarrow> a mod 2 ^ (32 - k) = 0 \<and> block a (2 ^ (32 - k)) \<subseteq> P
     \<and> (\<forall>u\<in>U. block a (2 ^ (32 - k)) \<inter> cidr_addrs u = {})"

definition disjoint_used :: "nat set \<Rightarrow> string set \<Rightarrow> bool" where
  "disjoint_used P U \<longleftrightarrow>
     (\<forall>u\<in>U. \<exists>a k. v4_cidr u a k \<and> (a \<in> P \<or> cidr_addrs u \<inter> P = {}))
     \<and> (\<forall>u\<in>U. \<forall>v\<in>U. u \<noteq> v \<longrightarrow> cidr_addrs u \<inter> cidr_addrs v = {})"

lemma disjoint_used_v4: "disjoint_used P U \<Longrightarrow> u \<in> U \<Longrightarrow> \<exists>a k. v4_cidr u a k"
  unfolding disjoint_used_def by (elim conjE) (drule (1) bspec, blast)

lemma mark_used_fits:
  assumes p: "v4_cidr pl p kp" "12 \<le> kp" "kp \<le> 28" and ord: "distinct cs"
    and U: "disjoint_used (cidr_addrs pl) (set cs)"
  shows "wf_map (mark_used (new_map p kp) cs)
    \<and> (\<forall>k a. fits (mark_used (new_map p kp) cs) k a \<longleftrightarrow> free_block (cidr_addrs pl) (set cs) k a)"
proof -
  let ?m = "new_map p kp" and ?m' = "mark_used (new_map p kp) cs"
  note wf = new_map_wf [OF p]
  have pool: "pool_addrs ?m = cidr_addrs pl" using wf(3) cidr_addrs_v4 [OF p(1)] by simp
  have m': "wf_map ?m'" "pool_addrs ?m' = cidr_addrs pl"
    and u: "used_addrs ?m' \<inter> cidr_addrs pl = \<Union> (cidr_addrs ` set cs) \<inter> cidr_addrs pl"
    using ml.loop_disjoint [OF wf(1) ord, unfolded wf(2) pool] U by (auto simp: disjoint_used_def)
  have "fits ?m' k a \<longleftrightarrow> free_block (cidr_addrs pl) (set cs) k a" for k a
  proof -
    have "B \<inter> used_addrs ?m' = {} \<longleftrightarrow> (\<forall>c\<in>set cs. B \<inter> cidr_addrs c = {})" if "B \<subseteq> cidr_addrs pl" for B
      using u that by blast
    then show ?thesis unfolding fits_def free_block_def m'(2) by blast
  qed
  with m'(1) show ?thesis by blast
qed

lemma findAvailableCIDR_first_fit:
  assumes p: "v4_cidr pl p kp" "12 \<le> kp" "kp \<le> 28"
    and ord: "distinct (order U)" "set (order U) = U" and U: "disjoint_used (cidr_addrs pl) U"
    and k: "16 \<le> k" "k \<le> 28"
  obtains (none) "\<And>a. \<not> free_block (cidr_addrs pl) U k a"
      and "findAvailableCIDR order pl (int k) U =
        Inl (Wrapf ''failed to allocate CIDR: '' (Errorf (''no available CIDR blocks of size /'' @ nat_str k)))"
  | (some) a s where "findAvailableCIDR order pl (int k) U = Inr s" and "v4_cidr s a k"
      and "free_block (cidr_addrs pl) U k a" and "\<And>b. free_block (cidr_addrs pl) U k b \<Longrightarrow> a \<le> b"
proof -
  let ?m = "mark_used (new_map p kp) (order U)"
  have m: "wf_map ?m" and f: "\<And>k a. fits ?m k a \<longleftrightarrow> free_block (cidr_addrs pl) U k a"
    using mark_used_fits [OF p ord(1)] U unfolding ord(2) by auto
  have new: "NewCIDRMap pl = Inr (new_map p kp)" using p by (simp add: NewCIDRMap_v4)
  show ?thesis
  proof (rule AllocateNextAvailable_cases [OF m k])
    assume "\<And>a. \<not> fits ?m k a" "AllocateNextAvailable ?m (int k) =
        Inl (Errorf (''no available CIDR blocks of size /'' @ nat_str k))"
    then show thesis using none by (simp add: findAvailableCIDR_def new f)
  next
    fix a s c' assume "AllocateNextAvailable ?m (int k) = Inr (s, c')" "fits ?m k a"
      "\<And>b. fits ?m k b \<Longrightarrow> a \<le> b" "v4_cidr s a k"
    then show thesis using some [of s a] by (simp add: findAvailableCIDR_def new f)
  qed
qed

section \<open>Names\<close>

lemma length_EncodeAllocationName: "length (EncodeAllocationName pool cidr) \<le> 63"
  by (simp add: EncodeAllocationName_def Let_def)

definition short_name :: "string \<Rightarrow> string \<Rightarrow> bool" where
  "short_name pool cidr \<longleftrightarrow> length pool + 1 + length cidr \<le> 63"

definition dash :: "char \<Rightarrow> char" where
  "dash c = (if c \<in> {CHR ''/'', CHR ''.'', CHR '':''} then CHR ''-'' else c)"

lemma EncodeAllocationName_short:
  "short_name pool cidr \<Longrightarrow> EncodeAllocationName pool cidr = pool @ ''-'' @ map dash cidr"
proof -
  assume s: "short_name pool cidr"
  have "ReplaceAll (ReplaceAll (ReplaceAll cidr (CHR ''/'') (CHR ''-'')) (CHR ''.'') (CHR ''-'')) (CHR '':'') (CHR ''-'')
      = map dash cidr"
    by (auto simp: ReplaceAll_def dash_def)
  moreover from this have "length (pool @ ''-'' @ map dash cidr) \<le> 63" using s by (simp add: short_name_def)
  ultimately show ?thesis by (simp add: EncodeAllocationName_def Let_def ReplaceAll_def)
qed

lemma split_last_dash:
  assumes "CHR ''-'' \<notin> set x" and "CHR ''-'' \<notin> set y" and "a @ ''-'' @ x = b @ ''-'' @ y"
  shows "a = b \<and> x = y"
proof -
  have "takeWhile (\<lambda>c. c \<noteq> CHR ''-'') (rev (a @ ''-'' @ z)) = rev z" if "CHR ''-'' \<notin> set z" for a z
    using that by (simp add: takeWhile_append2 takeWhile_tail) (metis (mono_tags, lifting) rev_rev_ident
        set_rev takeWhile_tail)
  from this [OF assms(1), of a] this [OF assms(2), of b] have "rev x = rev y"
    unfolding assms(3) by (rule box_equals [OF refl])
  then show ?thesis using assms(3) by simp
qed

lemma map_dash_digits: "list_all is_digit ds \<Longrightarrow> map dash ds = ds"
  by (induction ds) (auto simp: dash_def is_digit_def)

lemma map_dash_nat_str [simp]: "map dash (nat_str n) = nat_str n"
  using nat_str_digits by (rule map_dash_digits)

lemma nat_str_no_dash [simp]: "CHR ''-'' \<notin> set (nat_str n)"
  by (rule nat_str_special) simp

lemma map_dash_cidr:
  "map dash (IP_String [a, b, c, d] @ ''/'' @ nat_str k) =
     nat_str (unat a) @ ''-'' @ nat_str (unat b) @ ''-'' @ nat_str (unat c) @ ''-'' @ nat_str (unat d) @ ''-'' @ nat_str k"
  by (simp add: dash_def)

lemma EncodeAllocationName_v4_inject:
  assumes "length ip = 4" and "length ip' = 4"
    and s: "short_name pool (IP_String ip @ ''/'' @ nat_str k)" "short_name pool' (IP_String ip' @ ''/'' @ nat_str k')"
    and eq: "EncodeAllocationName pool (IP_String ip @ ''/'' @ nat_str k) =
      EncodeAllocationName pool' (IP_String ip' @ ''/'' @ nat_str k')"
  shows "pool = pool' \<and> ip = ip' \<and> k = k'"
proof -
  obtain a b c d where ip: "ip = [a, b, c, d]" using assms(1) by (auto simp: length_Suc_conv numeral_eq_Suc)
  obtain a' b' c' d' where ip': "ip' = [a', b', c', d']" using assms(2) by (auto simp: length_Suc_conv numeral_eq_Suc)
  define N where "N = (\<lambda>b::byte. nat_str (unat b))"
  have n: "CHR ''-'' \<notin> set (N b)" for b by (simp add: N_def)
  have e: "pool @ ''-'' @ map dash (IP_String ip @ ''/'' @ nat_str k) =
      pool' @ ''-'' @ map dash (IP_String ip' @ ''/'' @ nat_str k')"
    using eq unfolding EncodeAllocationName_short [OF s(1)] EncodeAllocationName_short [OF s(2)] .
  have "((((pool @ ''-'' @ N a) @ ''-'' @ N b) @ ''-'' @ N c) @ ''-'' @ N d) @ ''-'' @ nat_str k =
      ((((pool' @ ''-'' @ N a') @ ''-'' @ N b') @ ''-'' @ N c') @ ''-'' @ N d') @ ''-'' @ nat_str k'"
    using e unfolding ip ip' map_dash_cidr N_def by simp
  from split_last_dash [OF _ _ this] have 1: "nat_str k = nat_str k'"
    and "(((pool @ ''-'' @ N a) @ ''-'' @ N b) @ ''-'' @ N c) @ ''-'' @ N d =
      (((pool' @ ''-'' @ N a') @ ''-'' @ N b') @ ''-'' @ N c') @ ''-'' @ N d'" by simp_all
  from split_last_dash [OF n n this(2)] have 2: "N d = N d'"
    and "((pool @ ''-'' @ N a) @ ''-'' @ N b) @ ''-'' @ N c = ((pool' @ ''-'' @ N a') @ ''-'' @ N b') @ ''-'' @ N c'"
    by simp_all
  from split_last_dash [OF n n this(2)] have 3: "N c = N c'"
    and "(pool @ ''-'' @ N a) @ ''-'' @ N b = (pool' @ ''-'' @ N a') @ ''-'' @ N b'" by simp_all
  from split_last_dash [OF n n this(2)] have 4: "N b = N b'" and "pool @ ''-'' @ N a = pool' @ ''-'' @ N a'"
    by simp_all
  from split_last_dash [OF n n this(2)] have 5: "N a = N a'" "pool = pool'" by simp_all
  have inj: "N x = N y \<Longrightarrow> x = y" for x y by (simp add: N_def word_unat_eq_iff)
  from 1 2 3 4 5 show ?thesis using inj unfolding ip ip' by simp
qed

section \<open>Requested CIDRs\<close>

lemma first_overlap_None: "first_overlap c ss = None \<longleftrightarrow> (\<forall>s\<in>set ss. \<not> CIDROverlaps c (sn_CIDR (sn_spec s)))"
  by (induction ss) auto

lemma validateRequestedCIDR_v4:
  assumes s: "v4_cidr c a k" and p: "v4_cidr pl p kp"
  shows "validateRequestedCIDR c pl ss = Some (Inr c) \<longleftrightarrow>
    cidr_addrs c \<subseteq> cidr_addrs pl \<and> (\<forall>s\<in>set ss. \<not> CIDROverlaps c (sn_CIDR (sn_spec s)))"
    and "validateRequestedCIDR c pl ss = Some (Inr c) \<or> (\<exists>m. validateRequestedCIDR c pl ss = Some (Inl (Errorf m)))"
proof -
  from s obtain i1 n1 where p1: "ParseCIDR c = Inr (i1, n1)" "parsed_net n1 4 k" "ipval (IPNet_IP n1) = a"
    by (auto simp: v4_cidr_def)
  from p obtain i2 n2 where p2: "ParseCIDR pl = Inr (i2, n2)" "parsed_net n2 4 kp" "ipval (IPNet_IP n2) = p"
    by (auto simp: v4_cidr_def)
  have l: "length (IPNet_IP n1) = 4" "length (IPNet_IP n2) = 4" using p1(2) p2(2) by (auto simp: parsed_net_def)
  have f2: "net_form n2 (IPNet_IP n2) 4 kp" using parsed_net_form [OF p2(2)] l by simp
  obtain nn m h where f1: "net_form n1 nn m h" and last: "length (CalculateLastIP n1) = m"
      "ipval (CalculateLastIP n1) = ipval nn + (2 ^ (8 * m - h) - 1)"
    and m: "m = (if To4 (IPNet_IP n1) = None then 4 else 4)"
    by (rule CalculateLastIP_parsed [OF p1(2)])
  have nn: "nn = IPNet_IP n1" using f1 l by (simp add: net_form_def)
  have n1: "networkNumberAndMask n1 = Some (IPNet_IP n1, mask_bytes 4 k)"
    using p1(2) l by (simp add: networkNumberAndMask_def parsed_net_def)
  have m4: "m = 4" using m by simp
  have n1': "networkNumberAndMask n1 = Some (nn, mask_bytes m h)" "h \<le> 8 * m" "k \<le> 8 * 4"
    using f1 p1(2) by (simp_all only: net_form_def parsed_net_def)
  from n1 n1'(1) have "mask_bytes m h = mask_bytes 4 k" by (metis option.inject prod.inject)
  with Mask_Size_mask_bytes [OF n1'(2)] Mask_Size_mask_bytes [OF n1'(3)] have hk: "h = k"
    by (metis of_nat_eq_iff prod.inject)
  have last': "ipval (CalculateLastIP n1) = a + (2 ^ (32 - k) - 1)" "length (CalculateLastIP n1) = 4"
    using last m4 nn hk p1(3) by simp_all
  obtain q where q: "(2::nat) ^ (32 - k) = Suc q" using pow2_Suc_pred by blast
  have "cidr_addrs c \<subseteq> cidr_addrs pl \<longleftrightarrow> p \<le> a \<and> a + Suc q \<le> p + 2 ^ (32 - kp)"
    unfolding cidr_addrs_v4 [OF s] cidr_addrs_v4 [OF p] q by (rule block_subset) simp
  moreover have "IPNet_Contains n2 (IPNet_IP n1) \<longleftrightarrow> p \<le> a \<and> a < p + 2 ^ (32 - kp)"
    using Contains_net_form [OF f2, of "IPNet_IP n1"] l p1(3) p2(3) by simp
  moreover have "IPNet_Contains n2 (CalculateLastIP n1) \<longleftrightarrow> p \<le> a + q \<and> a + q < p + 2 ^ (32 - kp)"
    using Contains_net_form [OF f2, of "CalculateLastIP n1"] last' p2(3) q by simp
  ultimately have "cidr_addrs c \<subseteq> cidr_addrs pl \<longleftrightarrow>
      IPNet_Contains n2 (IPNet_IP n1) \<and> IPNet_Contains n2 (CalculateLastIP n1)" by linarith
  then show "validateRequestedCIDR c pl ss = Some (Inr c) \<longleftrightarrow>
      cidr_addrs c \<subseteq> cidr_addrs pl \<and> (\<forall>s\<in>set ss. \<not> CIDROverlaps c (sn_CIDR (sn_spec s)))"
    unfolding first_overlap_None [symmetric]
    by (auto simp: validateRequestedCIDR_def p1(1) p2(1) split: option.splits)
  show "validateRequestedCIDR c pl ss = Some (Inr c) \<or> (\<exists>m. validateRequestedCIDR c pl ss = Some (Inl (Errorf m)))"
    by (auto simp: validateRequestedCIDR_def p1(1) p2(1) split: option.splits)
qed

section \<open>Safety of the allocation loop\<close>

text \<open>
  \<open>alloc_inv P ns pn S\<close>: the Subnets of pool \<open>pn\<close> in namespace \<open>ns\<close> hold IPv4 CIDRs inside
  \<open>P\<close>, and no two of them share an address.
\<close>

definition alloc_inv :: "nat set \<Rightarrow> string \<Rightarrow> string \<Rightarrow> subnet_set \<Rightarrow> bool" where
  "alloc_inv P ns pn S \<longleftrightarrow>
     (\<forall>x\<in>in_pool_of ns pn S. (\<exists>a k. v4_cidr (sn_CIDR (snd x)) a k) \<and> cidr_addrs (sn_CIDR (snd x)) \<subseteq> P)
     \<and> (\<forall>x\<in>in_pool_of ns pn S. \<forall>y\<in>in_pool_of ns pn S. x \<noteq> y \<longrightarrow>
          cidr_addrs (sn_CIDR (snd x)) \<inter> cidr_addrs (sn_CIDR (snd y)) = {})"

text \<open>A request the theorems cover: dynamic, or an IPv4 CIDR.\<close>

definition v4_request :: "SubnetClaim \<Rightarrow> bool" where
  "v4_request claim \<longleftrightarrow> sc_RequestedCIDR (sc_spec claim) = ''''
     \<or> (\<exists>a k. v4_cidr (sc_RequestedCIDR (sc_spec claim)) a k)"

lemma subnet_cidrs_view: "subnet_cidrs ss = (\<lambda>x. sn_CIDR (snd x)) ` subnet_view ` set ss"
  by (simp add: subnet_cidrs_def subnet_view_def image_image)

lemma v4_nonempty: "v4_cidr c a k \<Longrightarrow> a \<in> cidr_addrs c"
  by (simp add: cidr_addrs_v4)

lemma alloc_inv_disjoint_used:
  assumes "alloc_inv P ns pn S" and "U = (\<lambda>x. sn_CIDR (snd x)) ` in_pool_of ns pn S"
  shows "disjoint_used P U"
proof -
  have "\<exists>a k. v4_cidr u a k \<and> (a \<in> P \<or> cidr_addrs u \<inter> P = {})" if "u \<in> U" for u
    using assms that v4_nonempty unfolding alloc_inv_def by blast
  moreover have "cidr_addrs u \<inter> cidr_addrs v = {}" if "u \<in> U" "v \<in> U" "u \<noteq> v" for u v
  proof -
    from that assms(2) obtain x y where "x \<in> in_pool_of ns pn S" "y \<in> in_pool_of ns pn S"
      "u = sn_CIDR (snd x)" "v = sn_CIDR (snd y)" by blast
    then show ?thesis using assms(1) that(3) unfolding alloc_inv_def by metis
  qed
  ultimately show ?thesis by (simp add: disjoint_used_def)
qed

lemma findAvailableCIDR_Inr:
  assumes p: "v4_cidr pl p kp" and ord: "distinct (order U)" "set (order U) = U"
    and U: "disjoint_used (cidr_addrs pl) U" and f: "findAvailableCIDR order pl sz U = Inr c"
  shows "(\<exists>a k. v4_cidr c a k) \<and> cidr_addrs c \<subseteq> cidr_addrs pl \<and> (\<forall>u\<in>U. cidr_addrs c \<inter> cidr_addrs u = {})"
proof -
  have kp: "12 \<le> kp" "kp \<le> 28"
    using f by (auto simp: findAvailableCIDR_def NewCIDRMap_v4 [OF p] split: if_splits)
  let ?m = "mark_used (new_map p kp) (order U)"
  have m: "wf_map ?m" using mark_used_fits [OF p kp ord(1)] U unfolding ord(2) by simp
  have "16 \<le> sz \<and> sz \<le> 28"
    using f AllocateNextAvailable_range [OF m, of sz] kp
    by (fastforce simp: findAvailableCIDR_def NewCIDRMap_v4 [OF p])
  then obtain k where k: "sz = int k" "16 \<le> k" "k \<le> 28" by (intro that [of "nat sz"]) linarith+
  show ?thesis
  proof (rule findAvailableCIDR_first_fit [of pl p kp order U k, OF p kp ord U k(2,3)])
    fix a s assume "findAvailableCIDR order pl (int k) U = Inr s" "v4_cidr s a k" "free_block (cidr_addrs pl) U k a"
    with f k(1) show ?thesis by (auto simp: free_block_def cidr_addrs_v4 simp del: mem_block)
  qed (use f k(1) in simp)
qed

lemma selectCandidateCIDR_safe:
  assumes p: "v4_cidr (sp_CIDR (sp_spec pool)) p kp" and ord: "distinct (order U)" "set (order U) = U"
    and U: "disjoint_used (cidr_addrs (sp_CIDR (sp_spec pool))) U" "U = subnet_cidrs ss" and req: "v4_request claim"
  obtains (err) e where "selectCandidateCIDR order claim pool U ss = Some (Inl e)"
  | (cidr) c where "selectCandidateCIDR order claim pool U ss = Some (Inr c)" and "\<exists>a k. v4_cidr c a k"
      and "cidr_addrs c \<subseteq> cidr_addrs (sp_CIDR (sp_spec pool))" and "\<forall>u\<in>U. cidr_addrs c \<inter> cidr_addrs u = {}"
proof -
  let ?pl = "sp_CIDR (sp_spec pool)" and ?rc = "sc_RequestedCIDR (sc_spec claim)"
  show ?thesis
  proof (cases "?rc = ''''")
    case True
    then have e: "selectCandidateCIDR order claim pool U ss =
        (case findAvailableCIDR order ?pl (block_size_of claim pool) U of
           Inl err \<Rightarrow> Some (Inl (handleCIDRSelectionError err (block_size_of claim pool) ?pl))
         | Inr c \<Rightarrow> Some (Inr c))"
      by (simp add: selectCandidateCIDR_def Let_def)
    show ?thesis
    proof (cases "findAvailableCIDR order ?pl (block_size_of claim pool) U")
      case (Inl x)
      then show ?thesis using err e by simp
    next
      case (Inr c)
      from findAvailableCIDR_Inr [OF p ord U(1) Inr] show ?thesis
        by (elim conjE, intro cidr [of c]) (simp_all add: e Inr)
    qed
  next
    case False
    then obtain a j where rc: "v4_cidr ?rc a j" using req by (auto simp: v4_request_def)
    note v = validateRequestedCIDR_v4 [OF rc p, of ss]
    have e: "selectCandidateCIDR order claim pool U ss = validateRequestedCIDR ?rc ?pl ss"
      using False by (simp add: selectCandidateCIDR_def)
    show ?thesis
    proof (cases "validateRequestedCIDR ?rc ?pl ss = Some (Inr ?rc)")
      case True
      have "cidr_addrs ?rc \<inter> cidr_addrs u = {}" if u: "u \<in> U" for u
      proof -
        from u U obtain s where s: "s \<in> set ss" "u = sn_CIDR (sn_spec s)" by (auto simp: subnet_cidrs_def)
        then have "\<not> CIDROverlaps ?rc u" using True v(1) by simp
        moreover from disjoint_used_v4 [OF U(1) u] obtain a' j' where "v4_cidr u a' j'" by blast
        ultimately show ?thesis using CIDROverlaps_v4 [OF rc] by simp
      qed
      moreover have "cidr_addrs ?rc \<subseteq> cidr_addrs ?pl" using True v(1) by blast
      moreover have "selectCandidateCIDR order claim pool U ss = Some (Inr ?rc)" using True e by simp
      ultimately show ?thesis using rc cidr [of ?rc] by blast
    next
      case False
      then show ?thesis using v(2) err e by auto
    qed
  qed
qed

text \<open>The Subnets a run may leave: the old ones, or one more that keeps the invariant.\<close>

lemma alloc_inv_insert:
  assumes inv: "alloc_inv P ns pn S" and c: "\<exists>a k. v4_cidr (sn_CIDR (snd x)) a k" "cidr_addrs (sn_CIDR (snd x)) \<subseteq> P"
    and dis: "\<And>y. y \<in> in_pool_of ns pn S \<Longrightarrow> cidr_addrs (sn_CIDR (snd x)) \<inter> cidr_addrs (sn_CIDR (snd y)) = {}"
  shows "alloc_inv P ns pn (insert x S)"
proof -
  have "in_pool_of ns pn (insert x S) \<subseteq> insert x (in_pool_of ns pn S)" by (auto simp: in_pool_of_def)
  note sub = this
  have sym: "cidr_addrs (sn_CIDR (snd y)) \<inter> cidr_addrs (sn_CIDR (snd x)) = {}" if "y \<in> in_pool_of ns pn S" for y
    using dis [OF that] by blast
  from sub show ?thesis
    unfolding alloc_inv_def
  proof (intro conjI ballI impI, goal_cases)
    case (1 y)
    then have "y = x \<or> y \<in> in_pool_of ns pn S" by blast
    then show ?case using inv c(1) unfolding alloc_inv_def by blast
  next
    case (2 y)
    then have "y = x \<or> y \<in> in_pool_of ns pn S" by blast
    then show ?case using inv c(2) unfolding alloc_inv_def by blast
  next
    case (3 y z)
    note \<open>y \<noteq> z\<close>
    from 3 consider "y = x" "z \<in> in_pool_of ns pn S" | "z = x" "y \<in> in_pool_of ns pn S"
      | "y \<in> in_pool_of ns pn S" "z \<in> in_pool_of ns pn S" by blast
    then show ?case
    proof cases
      case 1
      then show ?thesis using dis by simp
    next
      case 2
      then show ?thesis using sym by simp
    next
      case 3
      then show ?thesis using inv \<open>y \<noteq> z\<close> unfolding alloc_inv_def by blast
    qed
  qed
qed

lemma exclusive_store_record:
  "exclusive_store k subs \<Longrightarrow> subs (recordCreateMetrics k r w) = subs w"
  "exclusive_store k subs \<Longrightarrow> subs (recordLatency k w) = subs w"
  by (simp_all add: recordCreateMetrics_def recordLatency_def exclusive_storeD(10))

text \<open>The name is taken: the stored Subnet is the cluster's own, or there is a conflict.\<close>

lemma createAllocation_exists:
  assumes ex: "exclusive_store k subs" and s: "k_set_ref_subnet k claim (new_subnet claim pool c n) = Inr s"
    and cr: "k_create_subnet k s w = (Inl e, w1)" and e: "k_IsAlreadyExists k e"
    and r: "createAllocation k claim pool c n w = (r, w')"
  obtains (found) x where "x \<in> subs w" and "r = Inr (True, sn_CIDR (snd x))" and "subs w' = subs w"
      and "fst (fst x) = Namespace (sc_meta claim)" and "sn_ClusterID (snd x) = sc_ClusterID (sc_spec claim)"
  | (conflict) m where "r = Inl (NewConflictError m)" and "subs w' = subs w"
proof -
  let ?w2 = "recordCreateMetrics k ''exists'' w1"
  obtain g w3 where g: "k_get_subnet k (Namespace (sc_meta claim), n) ?w2 = (g, w3)"
    by (cases "k_get_subnet k (Namespace (sc_meta claim), n) ?w2")
  have s2: "subs ?w2 = subs w" using exclusive_storeD(4) [OF ex cr] exclusive_store_record(1) [OF ex] by simp
  have s3: "subs w3 = subs w" using exclusive_storeD(5) [OF ex g] s2 by simp
  have gs: "subnet_view z \<in> subs w \<and> meta_key (sn_meta z) = (Namespace (sc_meta claim), n)" if "g = Inr z" for z
    using exclusive_storeD(6) [OF ex g [unfolded that]] s2 by simp
  have eq: "(r, w') = (case g of
      Inr z \<Rightarrow> if sn_ClusterID (sn_spec z) = sc_ClusterID (sc_spec claim) then (Inr (True, sn_CIDR (sn_spec z)), w3)
        else (Inl (NewConflictError (''CIDR '' @ c @ '' already allocated to another cluster'')), w3)
    | Inl _ \<Rightarrow> (Inl (NewConflictError (''CIDR '' @ c @ '' already allocated to another cluster'')), w3))"
    using r s cr e g by (cases g) (auto simp: createAllocation_def Let_def split: if_splits)
  show ?thesis
  proof (cases "\<exists>z. g = Inr z \<and> sn_ClusterID (sn_spec z) = sc_ClusterID (sc_spec claim)")
    case True
    then obtain z where "g = Inr z" "sn_ClusterID (sn_spec z) = sc_ClusterID (sc_spec claim)" by blast
    then show ?thesis using found [of "subnet_view z"] gs [of z] eq s3 by (auto simp: subnet_view_def meta_key_def)
  next
    case False
    then show ?thesis using conflict eq s3 by (auto split: sum.splits if_splits)
  qed
qed

text \<open>The outcomes of creating a Subnet, as a rule for case analysis.\<close>

lemma createAllocation_cases:
  assumes ex: "exclusive_store k subs" and ref: "set_ref_keeps k" and laws: "apierrors_laws k" "set_ref_law k"
    and r: "createAllocation k claim pool c n w = (r, w')"
  obtains (created) x where "r = Inr (True, c)" and "subs w' = insert x (subs w)"
      and "fst (fst x) = Namespace (sc_meta claim)" and "sn_CIDR (snd x) = c"
      and "sn_ClusterID (snd x) = sc_ClusterID (sc_spec claim)" and "sn_PoolRef (snd x) = Name (sp_meta pool)"
  | (found) x where "x \<in> subs w" and "r = Inr (True, sn_CIDR (snd x))" and "subs w' = subs w"
      and "fst (fst x) = Namespace (sc_meta claim)" and "sn_ClusterID (snd x) = sc_ClusterID (sc_spec claim)"
  | (conflict) m where "r = Inl (NewConflictError m)" and "subs w' = subs w"
  | (error) e where "r = Inl e" and "subs w' = subs w" and "\<not> IsConflictError k e" and "\<not> IsExhaustedError e"
proof (cases "k_set_ref_subnet k claim (new_subnet claim pool c n)")
  case (Inl e)
  have "\<not> k_IsAlreadyExists k e" using laws(2) Inl by (auto simp: set_ref_law_def)
  then show ?thesis
    using error [of "Wrapf ''failed to set owner reference: '' e"] r Inl
    by (auto simp: createAllocation_def IsConflictError_def IsExhaustedError_def apierrors_simps [OF laws(1)])
next
  case (Inr s)
  have view: "subnet_view s = subnet_view (new_subnet claim pool c n)"
    using ref Inr by (auto simp: set_ref_keeps_def)
  obtain cr w1 where cr: "k_create_subnet k s w = (cr, w1)" by (cases "k_create_subnet k s w")
  show ?thesis
  proof (cases cr)
    case (Inr s')
    have "subs w1 = insert (subnet_view s) (subs w)" using exclusive_storeD(3) [OF ex] cr Inr by simp
    moreover have "r = Inr (True, c)" "w' = recordCreateMetrics k ''success'' w1"
      using r \<open>k_set_ref_subnet k claim _ = Inr s\<close> cr Inr by (simp_all add: createAllocation_def)
    ultimately show ?thesis
      using created [of "subnet_view s"] exclusive_store_record(1) [OF ex] unfolding view
      by (simp add: subnet_view_def new_subnet_def meta_key_def)
  next
    case (Inl e)
    have s1: "subs w1 = subs w" using exclusive_storeD(4) [OF ex] cr Inl by simp
    show ?thesis
    proof (cases "k_IsAlreadyExists k e")
      case False
      then have re: "r = Inl (Wrapf ''failed to create allocation: '' e)"
        and we: "w' = recordCreateMetrics k ''error'' w1"
        using r \<open>k_set_ref_subnet k claim _ = Inr s\<close> cr Inl by (simp_all add: createAllocation_def)
      have "subs w' = subs w" unfolding we exclusive_store_record(1) [OF ex] by (rule s1)
      moreover have "\<not> IsConflictError k (Wrapf ''failed to create allocation: '' e)"
        using False by (simp add: IsConflictError_def apierrors_simps [OF laws(1)])
      ultimately show ?thesis using error [OF re] by (simp add: IsExhaustedError_def)
    next
      case True
      have "k_create_subnet k s w = (Inl e, w1)" using cr Inl by simp
      from createAllocation_exists [OF ex \<open>k_set_ref_subnet k claim _ = Inr s\<close> this True r] show ?thesis
        using found conflict by blast
    qed
  qed
qed

text \<open>
  What the loop keeps between rounds: nothing has been stored yet, the list is the current
  one, the used CIDRs are those of the list, and the pool is the same.
\<close>

definition loop_state ::
    "('w \<Rightarrow> subnet_set) \<Rightarrow> subnet_set \<Rightarrow> SubnetPool \<Rightarrow> SubnetPool \<Rightarrow> Subnet list \<Rightarrow> string set \<Rightarrow> 'w \<Rightarrow> bool" where
  "loop_state subs S pool0 pool ss U w \<longleftrightarrow>
     subs w = S \<and> U = subnet_cidrs ss
     \<and> subnet_view ` set ss = in_pool_of (Namespace (sp_meta pool0)) (Name (sp_meta pool0)) S
     \<and> meta_key (sp_meta pool) = meta_key (sp_meta pool0) \<and> sp_CIDR (sp_spec pool) = sp_CIDR (sp_spec pool0)"

lemma prepare_retry_state:
  assumes ex: "exclusive_store k subs" and stable: "pool_stable k pool0"
    and st: "loop_state subs S pool0 pool ss U w" and r: "prepare_retry k pool ss U retry w = (r, w')"
  shows "subs w' = S \<and> (\<forall>pool' ss' U'. r = Inr (pool', ss', U') \<longrightarrow> loop_state subs S pool0 pool' ss' U' w')"
proof (cases "retry = 0")
  case True
  with st r show ?thesis by (auto simp: prepare_retry_def loop_state_def)
next
  case False
  let ?w0 = "k_emit k (SleepBackoff retry) w"
  have S: "subs w = S" and key: "(Namespace (sp_meta pool), Name (sp_meta pool)) = meta_key (sp_meta pool0)"
    using st by (auto simp: loop_state_def meta_key_def)
  obtain g w1 where g: "k_get_pool k (meta_key (sp_meta pool0)) ?w0 = (g, w1)"
    by (cases "k_get_pool k (meta_key (sp_meta pool0)) ?w0")
  have s1: "subs w1 = S" using exclusive_storeD(7) [OF ex g] exclusive_storeD(10) [OF ex] S by simp
  show ?thesis
  proof (cases g)
    case (Inl e)
    with False g key r s1 show ?thesis by (auto simp: prepare_retry_def)
  next
    case (Inr p')
    have p': "meta_key (sp_meta p') = meta_key (sp_meta pool0)" "sp_CIDR (sp_spec p') = sp_CIDR (sp_spec pool0)"
      using stable g Inr unfolding pool_stable_def by blast+
    obtain l w2 where l: "k_list_subnets k (Namespace (sp_meta p')) (Name (sp_meta p')) w1 = (l, w2)"
      by (cases "k_list_subnets k (Namespace (sp_meta p')) (Name (sp_meta p')) w1")
    have s2: "subs w2 = S" using exclusive_storeD(1) [OF ex l] s1 by simp
    show ?thesis
    proof (cases l)
      case (Inl e)
      with False g key r \<open>g = Inr p'\<close> l s2 st p' show ?thesis
        by (auto simp: prepare_retry_def refreshAllocationList_def loop_state_def)
    next
      case (Inr items)
      have v: "subnet_view ` set items = in_pool_of (Namespace (sp_meta pool0)) (Name (sp_meta pool0)) S"
        using exclusive_storeD(2) [OF ex] l Inr s1 p'(1) by (simp add: meta_key_def)
      then have "U \<union> subnet_cidrs items = subnet_cidrs items"
        using st by (auto simp: loop_state_def subnet_cidrs_view)
      with False g key r \<open>g = Inr p'\<close> l Inr s2 v p' show ?thesis
        by (auto simp: prepare_retry_def refreshAllocationList_def loop_state_def)
    qed
  qed
qed

text \<open>The postcondition of the loop and of \<open>allocateCIDR\<close>.\<close>

definition alloc_post ::
    "('w \<Rightarrow> subnet_set) \<Rightarrow> subnet_set \<Rightarrow> SubnetClaim \<Rightarrow> SubnetPool \<Rightarrow> (error, bool \<times> string) result \<Rightarrow> 'w \<Rightarrow> bool" where
  "alloc_post subs S claim pool r w' \<longleftrightarrow>
     alloc_inv (cidr_addrs (sp_CIDR (sp_spec pool))) (Namespace (sp_meta pool)) (Name (sp_meta pool)) (subs w')
     \<and> S \<subseteq> subs w' \<and> subs w' - S \<subseteq> in_pool_of (Namespace (sp_meta pool)) (Name (sp_meta pool)) (subs w')
     \<and> (case r of
          Inl e \<Rightarrow> subs w' = S
        | Inr (ok, c) \<Rightarrow> ok \<and> (\<exists>x\<in>subs w'. fst (fst x) = Namespace (sc_meta claim) \<and> sn_CIDR (snd x) = c
             \<and> sn_ClusterID (snd x) = sc_ClusterID (sc_spec claim)))"

text \<open>The end of a round, for a candidate that is free in the list of the round.\<close>

lemma candidate_round:
  assumes ex: "exclusive_store k subs" and ref: "set_ref_keeps k" and laws: "apierrors_laws k" "set_ref_law k"
    and ns: "Namespace (sc_meta claim) = Namespace (sp_meta pool0)"
    and inv: "alloc_inv (cidr_addrs (sp_CIDR (sp_spec pool0))) (Namespace (sp_meta pool0)) (Name (sp_meta pool0)) S"
    and st: "loop_state subs S pool0 pool ss U w"
    and c: "\<exists>a k. v4_cidr c a k" "cidr_addrs c \<subseteq> cidr_addrs (sp_CIDR (sp_spec pool0))"
    and free: "\<forall>u\<in>U. cidr_addrs c \<inter> cidr_addrs u = {}"
    and r: "createAllocation k claim pool c n w = (r, w')"
  obtains (stored) c' where "r = Inr (True, c')" and "alloc_post subs S claim pool0 r w'"
  | (conflict) m where "r = Inl (NewConflictError m)" and "loop_state subs S pool0 pool ss U w'"
  | (error) e where "r = Inl e" and "\<not> IsConflictError k e" and "alloc_post subs S claim pool0 r w'"
proof -
  have S: "subs w = S" and key: "meta_key (sp_meta pool) = meta_key (sp_meta pool0)"
    and U: "U = (\<lambda>x. sn_CIDR (snd x)) ` in_pool_of (Namespace (sp_meta pool0)) (Name (sp_meta pool0)) S"
    using st by (simp_all add: loop_state_def subnet_cidrs_view)
  show thesis
  proof (rule createAllocation_cases [OF ex ref laws r])
    fix x assume x: "r = Inr (True, c)" "subs w' = insert x (subs w)" "fst (fst x) = Namespace (sc_meta claim)"
      "sn_CIDR (snd x) = c" "sn_ClusterID (snd x) = sc_ClusterID (sc_spec claim)" "sn_PoolRef (snd x) = Name (sp_meta pool)"
    have "alloc_inv (cidr_addrs (sp_CIDR (sp_spec pool0))) (Namespace (sp_meta pool0)) (Name (sp_meta pool0)) (insert x S)"
      by (rule alloc_inv_insert [OF inv]) (use x(4) c free U in auto)
    then show thesis using stored x S ns key by (auto simp: alloc_post_def in_pool_of_def meta_key_def)
  next
    fix x assume "x \<in> subs w" "r = Inr (True, sn_CIDR (snd x))" "subs w' = subs w"
      "fst (fst x) = Namespace (sc_meta claim)" "sn_ClusterID (snd x) = sc_ClusterID (sc_spec claim)"
    then show thesis using stored S inv by (auto simp: alloc_post_def)
  next
    fix m assume "r = Inl (NewConflictError m)" "subs w' = subs w"
    then show thesis using conflict st by (simp add: loop_state_def)
  next
    fix e assume "r = Inl e" "subs w' = subs w" "\<not> IsConflictError k e"
    then show thesis using error S inv by (simp add: alloc_post_def)
  qed
qed

lemma allocate_loop_safe:
  assumes ex: "exclusive_store k subs" and ref: "set_ref_keeps k" and laws: "apierrors_laws k" "set_ref_law k"
    and ord: "order_law k" and stable: "pool_stable k pool0"
    and p: "v4_cidr (sp_CIDR (sp_spec pool0)) p kp" and req: "v4_request claim"
    and ns: "Namespace (sc_meta claim) = Namespace (sp_meta pool0)"
    and inv: "alloc_inv (cidr_addrs (sp_CIDR (sp_spec pool0))) (Namespace (sp_meta pool0)) (Name (sp_meta pool0)) S"
  shows "loop_state subs S pool0 pool ss U w \<Longrightarrow>
    \<exists>r pool' w'. allocate_loop k claim pool ss U retry n w = Some (r, pool', w') \<and> alloc_post subs S claim pool0 r w'"
proof (induction n arbitrary: pool ss U retry w)
  case 0
  then show ?case using inv by (auto simp: alloc_post_def loop_state_def)
next
  case (Suc n)
  obtain q w1 where q: "prepare_retry k pool ss U retry w = (q, w1)" by (cases "prepare_retry k pool ss U retry w")
  note prep = prepare_retry_state [OF ex stable Suc.prems q]
  show ?case
  proof (cases q)
    case (Inl e)
    then show ?thesis using q prep inv by (auto simp: alloc_post_def)
  next
    case (Inr t)
    obtain pool1 ss1 U1 where t: "t = (pool1, ss1, U1)" by (cases t)
    have st: "loop_state subs S pool0 pool1 ss1 U1 w1" using prep Inr t by blast
    then have S: "subs w1 = S" and U1: "U1 = subnet_cidrs ss1"
      and view: "subnet_view ` set ss1 = in_pool_of (Namespace (sp_meta pool0)) (Name (sp_meta pool0)) S"
      and key: "meta_key (sp_meta pool1) = meta_key (sp_meta pool0)"
      and cidr: "sp_CIDR (sp_spec pool1) = sp_CIDR (sp_spec pool0)"
      by (simp_all add: loop_state_def)
    have "finite U1" by (simp add: U1 subnet_cidrs_def)
    then have o: "distinct (k_order k w1 U1)" "set (k_order k w1 U1) = U1"
      using ord by (simp_all add: order_law_def)
    have U1': "U1 = (\<lambda>x. sn_CIDR (snd x)) ` in_pool_of (Namespace (sp_meta pool0)) (Name (sp_meta pool0)) S"
      by (simp only: U1 subnet_cidrs_view view)
    note dis = alloc_inv_disjoint_used [OF inv U1']
    show ?thesis
    proof (rule selectCandidateCIDR_safe [of pool1 p kp "k_order k w1" U1 ss1 claim, OF _ o _ U1 req],
        unfold cidr)
      fix e assume "selectCandidateCIDR (k_order k w1) claim pool1 U1 ss1 = Some (Inl e)"
      then show ?thesis using q Inr t S inv by (auto simp: alloc_post_def)
    next
      fix c assume sel: "selectCandidateCIDR (k_order k w1) claim pool1 U1 ss1 = Some (Inr c)"
        and c: "\<exists>a k. v4_cidr c a k" "cidr_addrs c \<subseteq> cidr_addrs (sp_CIDR (sp_spec pool0))"
        and free: "\<forall>u\<in>U1. cidr_addrs c \<inter> cidr_addrs u = {}"
      let ?name = "EncodeAllocationName (Name (sp_meta pool1)) c"
      obtain r w2 where cr: "createAllocation k claim pool1 c ?name w1 = (r, w2)"
        by (cases "createAllocation k claim pool1 c ?name w1")
      have fresh: "insert c U1 - {c} = U1" using c(1) v4_nonempty free by blast
      show ?thesis
      proof (rule candidate_round [OF ex ref laws ns inv st c free cr])
        fix m assume "r = Inl (NewConflictError m)" "loop_state subs S pool0 pool1 ss1 U1 w2"
        with Suc.IH [of pool1 ss1 U1 w2 "Suc retry"] show ?thesis
          using q Inr t sel cr fresh by (simp add: Let_def IsConflictError_def NewConflictError_def)
      qed (use q Inr t sel cr in \<open>simp_all add: Let_def\<close>)
    qed (use p dis in simp_all)
  qed
qed

section \<open>Errors the allocator returns\<close>

lemma IsConflictError_plain:
  assumes "apierrors_laws k"
  shows "\<not> IsConflictError k (Errorf m)" "\<not> k_IsAlreadyExists k (ParseErr t s)"
    "IsConflictError k (Wrapf q e) = k_IsAlreadyExists k e"
  using assms by (simp_all add: IsConflictError_def apierrors_laws_def)

lemma ParseCIDR_err: "ParseCIDR s = Inl e \<Longrightarrow> e = ParseErr ''CIDR address'' s"
  by (auto simp: ParseCIDR_def Let_def split: if_splits option.splits)

lemma handleCIDRSelectionError_not_conflict:
  "apierrors_laws k \<Longrightarrow> \<not> IsConflictError k (handleCIDRSelectionError err b pl)"
  by (simp add: handleCIDRSelectionError_def NewExhaustedError_def IsConflictError_plain) (simp add: IsConflictError_def)

lemma selectCandidateCIDR_not_conflict:
  assumes k: "apierrors_laws k" and "selectCandidateCIDR order claim pool U ss = Some (Inl e)"
  shows "\<not> IsConflictError k e"
proof (cases "sc_RequestedCIDR (sc_spec claim) = ''''")
  case True
  with assms show ?thesis
    by (auto simp: selectCandidateCIDR_def Let_def handleCIDRSelectionError_not_conflict split: sum.splits)
next
  case False
  with assms show ?thesis
    by (auto simp: selectCandidateCIDR_def validateRequestedCIDR_def IsConflictError_plain [OF k]
        dest!: ParseCIDR_err split: sum.splits if_splits option.splits)
qed

lemma allocate_loop_not_conflict:
  assumes k: "apierrors_laws k" "get_pool_law k" "set_ref_law k"
  shows "allocate_loop k claim pool ss U retry n w = Some (Inl e, p', w') \<Longrightarrow> \<not> IsConflictError k e"
proof (induction n arbitrary: pool ss U retry w)
  case 0
  then show ?case by (auto simp: IsConflictError_plain [OF k(1)])
next
  case (Suc n)
  obtain q w1 where q: "prepare_retry k pool ss U retry w = (q, w1)" by (cases "prepare_retry k pool ss U retry w")
  show ?case
  proof (cases q)
    case (Inl err)
    have "\<not> k_IsAlreadyExists k e'" if "k_get_pool k key w0 = (Inl e', w0')" for key w0 e' w0'
      using k(2) that unfolding get_pool_law_def by blast
    then have "\<not> IsConflictError k err"
      using q Inl by (auto simp: prepare_retry_def IsConflictError_plain [OF k(1)]
          split: if_splits prod.splits sum.splits)
    then show ?thesis using Suc.prems q Inl by simp
  next
    case (Inr t)
    obtain pool1 ss1 U1 where t: "t = (pool1, ss1, U1)" by (cases t)
    obtain r where r: "selectCandidateCIDR (k_order k w1) claim pool1 U1 ss1 = Some r"
      using Suc.prems q Inr t by (auto split: option.splits)
    show ?thesis
    proof (cases r)
      case (Inl err)
      then show ?thesis
        using Suc.prems q \<open>q = Inr t\<close> t r selectCandidateCIDR_not_conflict [OF k(1)] by auto
    next
      case (Inr c)
      obtain cr w2 where cr: "createAllocation k claim pool1 c (EncodeAllocationName (Name (sp_meta pool1)) c) w1 = (cr, w2)"
        by (cases "createAllocation k claim pool1 c (EncodeAllocationName (Name (sp_meta pool1)) c) w1")
      from Suc.prems show ?thesis
        using q \<open>q = Inr t\<close> t r Inr cr Suc.IH by (auto simp: Let_def split: sum.splits if_splits prod.splits)
    qed
  qed
qed

section \<open>Idempotency by cluster\<close>

lemma find_existing_Some:
  "find_existing claim pool ss = Some c \<Longrightarrow>
     \<exists>s\<in>set ss. sn_ClusterID (sn_spec s) = sc_ClusterID (sc_spec claim)
        \<and> sn_PoolRef (sn_spec s) = Name (sp_meta pool) \<and> sn_CIDR (sn_spec s) = c"
  by (induction ss) (auto split: if_splits)

lemma find_existing_None:
  "find_existing claim pool ss = None \<longleftrightarrow>
     \<not> (\<exists>s\<in>set ss. sn_ClusterID (sn_spec s) = sc_ClusterID (sc_spec claim) \<and> sn_PoolRef (sn_spec s) = Name (sp_meta pool))"
  by (induction ss) auto

section \<open>Concrete objects\<close>

definition demo_pool :: SubnetPool where
  "demo_pool = \<lparr>sp_meta = empty_meta\<lparr>Name := ''p'', Namespace := ''ns''\<rparr>,
     sp_spec = \<lparr>sp_CIDR = ''10.0.0.0/24'', sp_DefaultBlockSize = 0, sp_MinBlockSize = 0, sp_MaxBlockSize = 0,
       sp_Strategy = ''''\<rparr>, sp_status = empty_pool_status\<rparr>"

definition demo_claim :: "string \<Rightarrow> int \<Rightarrow> SubnetClaim" where
  "demo_claim cluster sz = \<lparr>sc_meta = empty_meta\<lparr>Name := cluster, Namespace := ''ns'', UID := cluster\<rparr>,
     sc_spec = \<lparr>sc_PoolRef = ''p'', sc_ClusterID = cluster, sc_BlockSize = sz, sc_RequestedCIDR = ''''\<rparr>,
     sc_status = \<lparr>sc_ObservedGeneration = 0, sc_Phase = '''', sc_AllocatedCIDR = '''', sc_Message = '''',
       sc_Conditions = []\<rparr>\<rparr>"

definition empty_store :: store where
  "empty_store = \<lparr>st_pools = [], st_subnets = [], st_claims = [], st_poolclaims = [], st_log = []\<rparr>"

text \<open>An in-memory client whose pools never change.\<close>

definition fixed_kube :: "SubnetPool \<Rightarrow> store kube" where
  "fixed_kube pool = mem_kube\<lparr>k_get_pool := (\<lambda>key w. (find_obj sp_meta [pool] key, w))\<rparr>"

lemma fixed_kube_laws:
  "apierrors_laws (fixed_kube pool)" "get_pool_law (fixed_kube pool)" "set_ref_law (fixed_kube pool)"
  "set_ref_keeps (fixed_kube pool)" "order_law (fixed_kube pool)" "retry_law (fixed_kube pool)"
  "pool_stable (fixed_kube pool) pool"
  "exclusive_store (fixed_kube pool) (\<lambda>w. subnet_view ` set (st_subnets w))"
proof -
  show "apierrors_laws (fixed_kube pool)" using mem_kube_apierrors by (simp add: fixed_kube_def apierrors_laws_def)
  show "get_pool_law (fixed_kube pool)"
    by (auto simp: get_pool_law_def fixed_kube_def mem_kube_def find_obj_def split: if_splits)
  show "set_ref_law (fixed_kube pool)" using mem_kube_set_ref by (simp add: fixed_kube_def set_ref_law_def)
  show "set_ref_keeps (fixed_kube pool)" using mem_kube_set_ref_keeps by (simp add: fixed_kube_def set_ref_keeps_def)
  show "order_law (fixed_kube pool)" using mem_kube_order by (simp add: fixed_kube_def order_law_def)
  show "retry_law (fixed_kube pool)" 
    by (auto simp: retry_law_def fixed_kube_def mem_kube_def split: prod.splits sum.splits)
  show "pool_stable (fixed_kube pool) pool" by (auto simp: pool_stable_def fixed_kube_def find_obj_def)
  show "exclusive_store (fixed_kube pool) (\<lambda>w. subnet_view ` set (st_subnets w))"
    using mem_kube_exclusive by (simp add: fixed_kube_def exclusive_store_def)
qed

lemma demo_print:
  "IP_String (ip_of 167772160) @ ''/'' @ nat_str 26 = ''10.0.0.0/26''"
  "IP_String (ip_of 167772224) @ ''/'' @ nat_str 26 = ''10.0.0.64/26''"
proof -
  have "ip_of 167772160 = [10, 0, 0, 0]" "ip_of 167772224 = [10, 0, 0, 64]"
    using ip_of_ipval [of "[10, 0, 0, 0]"] ip_of_ipval [of "[10, 0, 0, 64]"] by simp_all
  moreover have "IP_String [10, 0, 0, 0] @ ''/'' @ nat_str 26 = ''10.0.0.0/26''"
    "IP_String [10, 0, 0, 64] @ ''/'' @ nat_str 26 = ''10.0.0.64/26''" by code_simp+
  ultimately show "IP_String (ip_of 167772160) @ ''/'' @ nat_str 26 = ''10.0.0.0/26''"
    "IP_String (ip_of 167772224) @ ''/'' @ nat_str 26 = ''10.0.0.64/26''" by simp_all
qed

lemma demo_find:
  assumes "distinct (order U)" and "set (order U) = U" and "disjoint_used (cidr_addrs ''10.0.0.0/24'') U"
    and "free_block (cidr_addrs ''10.0.0.0/24'') U 26 a" and "\<And>b. free_block (cidr_addrs ''10.0.0.0/24'') U 26 b \<Longrightarrow> a \<le> b"
    and "v4_cidr (IP_String (ip_of a) @ ''/'' @ nat_str 26) a 26"
  shows "findAvailableCIDR order ''10.0.0.0/24'' 26 U = Inr (IP_String (ip_of a) @ ''/'' @ nat_str 26)"
proof -
  let ?m = "mark_used (new_map 167772160 24) (order U)"
  have m: "wf_map ?m" "\<And>k a. fits ?m k a \<longleftrightarrow> free_block (cidr_addrs ''10.0.0.0/24'') U k a"
    using mark_used_fits [OF demo_texts(1), of "order U"] assms(1-3) by auto
  have "AllocateNextAvailable ?m (int 26) = Inr (IP_String (ip_of a) @ ''/'' @ nat_str 26,
      ?m\<lparr>bits := set_range (bits ?m) (a - ipval (baseIP ?m)) (2 ^ (32 - 26))\<rparr>)"
    by (rule AllocateNextAvailable_first_fit [OF m(1)]) (use m(2) assms(4,5) in auto)
  then show ?thesis by (simp add: findAvailableCIDR_def demo_new)
qed

lemma allocateCIDR_safe:
  assumes "exclusive_store k subs" and "set_ref_keeps k" and "apierrors_laws k" and "set_ref_law k"
    and "order_law k" and "pool_stable k pool"
    and "v4_cidr (sp_CIDR (sp_spec pool)) p kp" and "v4_request claim"
    and "Namespace (sc_meta claim) = Namespace (sp_meta pool)"
    and "alloc_inv (cidr_addrs (sp_CIDR (sp_spec pool))) (Namespace (sp_meta pool)) (Name (sp_meta pool)) (subs w)"
    and "subnet_view ` set existing = in_pool_of (Namespace (sp_meta pool)) (Name (sp_meta pool)) (subs w)"
  shows "\<exists>r pool' w'. allocateCIDR k claim pool existing w = Some (r, pool', w')
    \<and> alloc_post subs (subs w) claim pool r w'"
proof (cases "find_existing claim pool existing")
  case (Some c)
  from find_existing_Some [OF Some] obtain s where "s \<in> set existing" "sn_CIDR (sn_spec s) = c"
    "sn_ClusterID (sn_spec s) = sc_ClusterID (sc_spec claim)" by blast
  then have "subnet_view s \<in> in_pool_of (Namespace (sp_meta pool)) (Name (sp_meta pool)) (subs w)"
    using assms(11) by blast
  then have "\<exists>x\<in>subs w. fst (fst x) = Namespace (sc_meta claim) \<and> sn_CIDR (snd x) = c
      \<and> sn_ClusterID (snd x) = sc_ClusterID (sc_spec claim)"
    using \<open>sn_CIDR (sn_spec s) = c\<close> \<open>sn_ClusterID (sn_spec s) = _\<close> assms(9)
    by (intro bexI [of _ "subnet_view s"]) (auto simp: in_pool_of_def subnet_view_def)
  then show ?thesis
    using Some assms(10) by (simp add: allocateCIDR_def alloc_post_def exclusive_store_record [OF assms(1)])
next
  case None
  have "loop_state subs (subs w) pool pool existing (subnet_cidrs existing) w"
    using assms(11) by (simp add: loop_state_def)
  from allocate_loop_safe [OF assms(1-10) this] obtain r pool' w' where
    "allocate_loop k claim pool existing (subnet_cidrs existing) 0 AllocationMaxRetries w = Some (r, pool', w')"
    "alloc_post subs (subs w) claim pool r w'" by blast
  moreover from this(2) have "alloc_post subs (subs w) claim pool r (recordLatency k w')"
    unfolding alloc_post_def exclusive_store_record(2) [OF assms(1)] .
  ultimately show ?thesis using None by (simp add: allocateCIDR_def)
qed

section \<open>Properties\<close>

text \<open>
  C4. With a single writer on the API server, \<open>allocateCIDR\<close> never breaks the allocation
  invariant: it does not panic, and if the Subnets of the pool hold pairwise disjoint IPv4
  CIDRs inside the pool before the call, they do so after it. Nothing stored is lost and what
  is added belongs to the pool. On success the returned CIDR is that of a stored Subnet of
  the claim's cluster; on an error nothing has been stored.
\<close>

theorem allocateCIDR_keeps_disjoint:
  assumes "exclusive_store k subs" and "set_ref_keeps k" and "apierrors_laws k" and "set_ref_law k"
    and "order_law k" and "pool_stable k pool"
    and "v4_cidr (sp_CIDR (sp_spec pool)) p kp" and "v4_request claim"
    and "Namespace (sc_meta claim) = Namespace (sp_meta pool)"
    and "alloc_inv (cidr_addrs (sp_CIDR (sp_spec pool))) (Namespace (sp_meta pool)) (Name (sp_meta pool)) (subs w)"
    and "subnet_view ` set existing = in_pool_of (Namespace (sp_meta pool)) (Name (sp_meta pool)) (subs w)"
  shows "\<exists>r pool' w'. allocateCIDR k claim pool existing w = Some (r, pool', w')
    \<and> alloc_post subs (subs w) claim pool r w'"
  using assms by (rule allocateCIDR_safe)

theorem allocateCIDR_keeps_disjoint_witness:
  "\<exists>r pool' w'. allocateCIDR (fixed_kube demo_pool) (demo_claim ''c1'' 26) demo_pool [] empty_store = Some (r, pool', w')
     \<and> alloc_post (\<lambda>w. subnet_view ` set (st_subnets w)) {} (demo_claim ''c1'' 26) demo_pool r w'"
proof -
  have "v4_cidr (sp_CIDR (sp_spec demo_pool)) 167772160 24" using demo_texts(1) by (simp add: demo_pool_def)
  moreover have "v4_request (demo_claim ''c1'' 26)" by (simp add: v4_request_def demo_claim_def)
  moreover have "Namespace (sc_meta (demo_claim ''c1'' 26)) = Namespace (sp_meta demo_pool)"
    by (simp add: demo_claim_def demo_pool_def)
  ultimately show ?thesis
    using allocateCIDR_keeps_disjoint [OF fixed_kube_laws(8,4,1,3,5,7), of demo_pool 167772160 24
        "demo_claim ''c1'' 26" empty_store "[]"]
    by (simp add: empty_store_def alloc_inv_def in_pool_of_def)
qed

text \<open>
  C5. \<open>findAvailableCIDR\<close> on an IPv4 pool (prefix length 12 to 28) whose used CIDRs are pairwise
  disjoint IPv4 CIDRs: for a block size from 16 to 28 it returns the lowest aligned free
  block of the pool, and an error exactly when there is none, whatever the iteration order
  of the map.
\<close>

theorem findAvailableCIDR_lowest_free:
  assumes "v4_cidr pl p kp" and "12 \<le> kp" and "kp \<le> 28" and "distinct (order U)" and "set (order U) = U"
    and "disjoint_used (cidr_addrs pl) U" and "16 \<le> k" and "k \<le> 28"
  shows "case findAvailableCIDR order pl (int k) U of
      Inl e \<Rightarrow> \<forall>a. \<not> free_block (cidr_addrs pl) U k a
    | Inr s \<Rightarrow> \<exists>a. v4_cidr s a k \<and> free_block (cidr_addrs pl) U k a
        \<and> (\<forall>b. free_block (cidr_addrs pl) U k b \<longrightarrow> a \<le> b)"
  by (rule findAvailableCIDR_first_fit [of pl p kp order U k, OF assms]) auto

theorem findAvailableCIDR_lowest_free_witness:
  "\<exists>s a. findAvailableCIDR (\<lambda>S. [''10.0.0.0/26'']) ''10.0.0.0/24'' 26 {''10.0.0.0/26''} = Inr s
     \<and> v4_cidr s a 26 \<and> a \<le> 167772224"
proof -
  have U: "disjoint_used (cidr_addrs ''10.0.0.0/24'') {''10.0.0.0/26''}"
    using demo_texts(2) by (auto simp: disjoint_used_def cidr_addrs_v4 [OF demo_texts(1)] cidr_addrs_v4 [OF demo_texts(2)])
  have f: "free_block (cidr_addrs ''10.0.0.0/24'') {''10.0.0.0/26''} 26 167772224"
    by (auto simp: free_block_def cidr_addrs_v4 [OF demo_texts(1)] cidr_addrs_v4 [OF demo_texts(2)] block_subset)
  show ?thesis
    using findAvailableCIDR_lowest_free [OF demo_texts(1), of "\<lambda>S. [''10.0.0.0/26'']" "{''10.0.0.0/26''}" 26] U f
    by (auto split: sum.splits)
qed

text \<open>
  C17. \<open>validateRequestedCIDR\<close> for IPv4 texts accepts a request if and only if all its addresses
  lie in the pool and it overlaps none of the listed allocations; it never panics then.
\<close>

theorem validateRequestedCIDR_exact:
  assumes "v4_cidr c a k" and "v4_cidr pl p kp"
  shows "(validateRequestedCIDR c pl ss = Some (Inr c) \<longleftrightarrow>
      cidr_addrs c \<subseteq> cidr_addrs pl \<and> (\<forall>s\<in>set ss. \<not> CIDROverlaps c (sn_CIDR (sn_spec s))))
    \<and> (validateRequestedCIDR c pl ss \<noteq> Some (Inr c) \<longrightarrow> (\<exists>m. validateRequestedCIDR c pl ss = Some (Inl (Errorf m))))"
  using validateRequestedCIDR_v4 [OF assms, of ss] by blast

theorem validateRequestedCIDR_exact_witness:
  "validateRequestedCIDR ''10.0.0.64/26'' ''10.0.0.0/24'' [] = Some (Inr ''10.0.0.64/26'')"
  using validateRequestedCIDR_exact [OF demo_texts(3,1), of "[]"]
  by (simp add: cidr_addrs_v4 [OF demo_texts(1)] cidr_addrs_v4 [OF demo_texts(3)] block_subset)

text \<open>
  C33. The error \<open>allocateCIDR\<close> returns is never a conflict error: conflicts are retried inside
  and end, after the last retry, in a plain error. The conflict branches of the caller are
  therefore not reached.
\<close>

theorem allocateCIDR_never_conflict:
  assumes "apierrors_laws k" and "get_pool_law k" and "set_ref_law k"
    and "allocateCIDR k claim pool existing w = Some (Inl e, pool', w')"
  shows "\<not> IsConflictError k e"
proof -
  obtain w1 where "allocate_loop k claim pool existing (subnet_cidrs existing) 0 AllocationMaxRetries w = Some (Inl e, pool', w1)"
    using assms(4) by (auto simp: allocateCIDR_def split: option.splits)
  from allocate_loop_not_conflict [OF assms(1-3) this] show ?thesis .
qed

theorem allocateCIDR_never_conflict_witness:
  "\<exists>e pool' w'. allocateCIDR mem_kube (demo_claim ''c1'' 10) demo_pool [] empty_store = Some (Inl e, pool', w')
     \<and> \<not> IsConflictError mem_kube e"
proof -
  have "AllocateNextAvailable (new_map 167772160 24) 10 = Inl (Errorf (''size must be between '' @ Itoa 16 @ '' and '' @ Itoa 28))"
    by (rule AllocateNextAvailable_range [OF demo_map(1)]) simp
  then have f: "findAvailableCIDR order ''10.0.0.0/24'' 10 {} = Inl (Wrapf ''failed to allocate CIDR: ''
      (Errorf (''size must be between '' @ Itoa 16 @ '' and '' @ Itoa 28)))" if "order {} = []" for order
    using that by (simp add: findAvailableCIDR_def demo_new)
  have o: "k_order mem_kube empty_store {} = []" by (simp add: mem_kube_def)
  have "\<exists>e pool' w'. allocateCIDR mem_kube (demo_claim ''c1'' 10) demo_pool [] empty_store = Some (Inl e, pool', w')"
    by (simp add: allocateCIDR_def AllocationMaxRetries_def numeral_eq_Suc prepare_retry_def selectCandidateCIDR_def
        demo_claim_def demo_pool_def block_size_of_def subnet_cidrs_def f o Let_def)
  then obtain e pool' w' where "allocateCIDR mem_kube (demo_claim ''c1'' 10) demo_pool [] empty_store = Some (Inl e, pool', w')"
    by blast
  with allocateCIDR_never_conflict [OF mem_kube_apierrors mem_kube_get_pool mem_kube_set_ref this] show ?thesis by blast
qed

text \<open>
  C30. Idempotency: if the list holds an allocation of the claim's cluster in the pool, the call
  returns the CIDR of such an allocation and makes no client call; only the latency is
  recorded.
\<close>

theorem allocateCIDR_idempotent:
  assumes "s \<in> set existing" and "sn_ClusterID (sn_spec s) = sc_ClusterID (sc_spec claim)"
    and "sn_PoolRef (sn_spec s) = Name (sp_meta pool)"
  shows "\<exists>t\<in>set existing. sn_ClusterID (sn_spec t) = sc_ClusterID (sc_spec claim)
    \<and> sn_PoolRef (sn_spec t) = Name (sp_meta pool)
    \<and> allocateCIDR k claim pool existing w = Some (Inr (True, sn_CIDR (sn_spec t)), pool, recordLatency k w)"
proof -
  from assms obtain c where c: "find_existing claim pool existing = Some c"
    using find_existing_None [of claim pool existing] by auto
  from find_existing_Some [OF c] show ?thesis using c by (auto simp: allocateCIDR_def)
qed

theorem allocateCIDR_idempotent_witness:
  "allocateCIDR mem_kube (demo_claim ''c1'' 26) demo_pool [new_subnet (demo_claim ''c1'' 26) demo_pool ''10.0.0.64/26'' ''x''] empty_store
     = Some (Inr (True, ''10.0.0.64/26''), demo_pool, recordLatency mem_kube empty_store)"
  using allocateCIDR_idempotent [of "new_subnet (demo_claim ''c1'' 26) demo_pool ''10.0.0.64/26'' ''x''"
      "[new_subnet (demo_claim ''c1'' 26) demo_pool ''10.0.0.64/26'' ''x'']" "demo_claim ''c1'' 26" demo_pool
      mem_kube empty_store]
  by (simp add: new_subnet_def)

text \<open>
  C34. On names short enough not to be hashed, \<open>EncodeAllocationName\<close> is injective in the pool
  and the IPv4 CIDR together, so the API server's name uniqueness keeps one CIDR of a pool
  from being reserved twice.
\<close>

theorem EncodeAllocationName_injective:
  assumes "length ip = 4" and "length ip' = 4"
    and "short_name pool (IP_String ip @ ''/'' @ nat_str k)" and "short_name pool' (IP_String ip' @ ''/'' @ nat_str k')"
    and "EncodeAllocationName pool (IP_String ip @ ''/'' @ nat_str k) =
      EncodeAllocationName pool' (IP_String ip' @ ''/'' @ nat_str k')"
  shows "pool = pool' \<and> ip = ip' \<and> k = k'"
  using assms by (rule EncodeAllocationName_v4_inject)

theorem EncodeAllocationName_injective_witness:
  "EncodeAllocationName ''a'' (IP_String [1, 0, 0, 0] @ ''/'' @ nat_str 24)
     \<noteq> EncodeAllocationName ''a-1'' (IP_String [0, 0, 0, 24] @ ''/'' @ nat_str 24)"
proof
  assume eq: "EncodeAllocationName ''a'' (IP_String [1, 0, 0, 0] @ ''/'' @ nat_str 24)
     = EncodeAllocationName ''a-1'' (IP_String [0, 0, 0, 24] @ ''/'' @ nat_str 24)"
  have "short_name ''a'' (IP_String [1, 0, 0, 0] @ ''/'' @ nat_str 24)"
    "short_name ''a-1'' (IP_String [0, 0, 0, 24] @ ''/'' @ nat_str 24)"
    by (simp_all add: short_name_def nat_str.simps)
  from EncodeAllocationName_injective [OF _ _ this eq] show False by simp
qed


text \<open>
  C38. Name uniqueness does not keep two allocations apart when the list is not current: with
  10.0.0.0/25 already stored for cluster c1 and an empty (stale) list, a claim of cluster
  c2 for a /26 creates 10.0.0.0/26 under another name, inside the existing allocation.
\<close>

theorem allocateCIDR_stale_list_overlap:
  "\<exists>pool' w'. allocateCIDR mem_kube (demo_claim ''c2'' 26) demo_pool []
      (empty_store\<lparr>st_subnets := [new_subnet (demo_claim ''c1'' 25) demo_pool ''10.0.0.0/25'' (EncodeAllocationName ''p'' ''10.0.0.0/25'')]\<rparr>)
      = Some (Inr (True, ''10.0.0.0/26''), pool', w')
    \<and> map (\<lambda>s. sn_CIDR (sn_spec s)) (st_subnets w') = [''10.0.0.0/25'', ''10.0.0.0/26'']
    \<and> CIDROverlaps ''10.0.0.0/25'' ''10.0.0.0/26''"
proof -
  have t: "IP_String (ip_of 167772160) @ ''/'' @ nat_str 26 = ''10.0.0.0/26''" by (rule demo_print)
  have fb: "free_block (cidr_addrs ''10.0.0.0/24'') {} 26 167772160"
    by (simp add: free_block_def cidr_addrs_v4 [OF demo_texts(1)] block_subset)
  have least: "167772160 \<le> b" if "free_block (cidr_addrs ''10.0.0.0/24'') {} 26 b" for b
    using that by (simp add: free_block_def cidr_addrs_v4 [OF demo_texts(1)] block_subset)
  have f: "findAvailableCIDR sorted_list_of_set ''10.0.0.0/24'' 26 {} = Inr ''10.0.0.0/26''"
    unfolding t [symmetric]
    by (rule demo_find [OF _ _ _ fb least]) (simp_all only: t demo_texts(2), simp_all add: disjoint_used_def)
  have n: "EncodeAllocationName ''p'' ''10.0.0.0/25'' = ''p-10-0-0-0-25''"
    "EncodeAllocationName ''p'' ''10.0.0.0/26'' = ''p-10-0-0-0-26''"
    by (simp_all add: EncodeAllocationName_def ReplaceAll_def)
  have "cidr_addrs ''10.0.0.0/25'' \<inter> cidr_addrs ''10.0.0.0/26'' \<noteq> {}"
    unfolding cidr_addrs_v4 [OF demo_texts(5)] cidr_addrs_v4 [OF demo_texts(2)]
    by (rule ex_in_conv [THEN iffD1], rule exI [of _ 167772160]) simp
  then have "CIDROverlaps ''10.0.0.0/25'' ''10.0.0.0/26''" using CIDROverlaps_v4 [OF demo_texts(5,2)] by simp
  then show ?thesis
    by (simp add: allocateCIDR_def AllocationMaxRetries_def numeral_eq_Suc prepare_retry_def selectCandidateCIDR_def
        demo_claim_def demo_pool_def block_size_of_def subnet_cidrs_def Let_def createAllocation_def new_subnet_def
        mem_kube_def create_obj_def meta_key_def recordCreateMetrics_def recordLatency_def owned_by_def empty_store_def
        f [unfolded numeral_eq_Suc] n)
qed

end
