(* ===== verification/Claim_Reconciler.thy ===== *)
theory Claim_Reconciler
  imports Allocator
begin

text \<open>
  \<^verbatim>\<open>internal/controller/reconciler.go\<close> and the reconciler of
  \<^verbatim>\<open>controller.go\<close>: one reconciliation of a SubnetClaim. A reconciliation returns
  the \<open>ctrl.Result\<close>, the error (\<open>None\<close> for nil), the gauge registry and the world, or
  \<open>None\<close> for a panic. The lemmas show that a reconciliation keeps the allocations of a
  pool disjoint, what the status update leaves behind, and that the outer retry loop runs
  once.
\<close>

section \<open>Validation\<close>

definition validateClaim :: "SubnetClaim \<Rightarrow> SubnetPool \<Rightarrow> error option" where
  "validateClaim claim pool =
     (let bs = sc_BlockSize (sc_spec claim); rc = sc_RequestedCIDR (sc_spec claim);
          mn = sp_MinBlockSize (sp_spec pool); mx = sp_MaxBlockSize (sp_spec pool)
      in if bs \<noteq> 0 \<and> mn \<noteq> 0 \<and> bs < mn
         then Some (Errorf (''blockSize '' @ Itoa bs @ '' is smaller than pool minimum '' @ Itoa mn))
         else if bs \<noteq> 0 \<and> mx \<noteq> 0 \<and> bs > mx
         then Some (Errorf (''blockSize '' @ Itoa bs @ '' is larger than pool maximum '' @ Itoa mx))
         else if rc = '''' then None
         else case ParseCIDR rc of
           Inl err \<Rightarrow> Some (Wrapf ''invalid requested CIDR format: '' err)
         | Inr (_, ipNet) \<Rightarrow>
             (case ParseCIDR (sp_CIDR (sp_spec pool)) of
                Inl err \<Rightarrow> Some (Wrapf ''invalid pool CIDR format: '' err)
              | Inr (_, poolNet) \<Rightarrow>
                  let requestedPrefixLen = fst (Mask_Size (IPNet_Mask ipNet))
                  in if \<not> IPNet_Contains poolNet (IPNet_IP ipNet)
                     then Some (Errorf (''requested CIDR '' @ rc @ '' is outside pool '' @ sp_CIDR (sp_spec pool)))
                     else if mn \<noteq> 0 \<and> requestedPrefixLen < mn
                     then Some (Errorf (''requested CIDR prefix length /'' @ Itoa requestedPrefixLen
                                          @ '' is smaller than pool minimum /'' @ Itoa mn))
                     else if mx \<noteq> 0 \<and> requestedPrefixLen > mx
                     then Some (Errorf (''requested CIDR prefix length /'' @ Itoa requestedPrefixLen
                                          @ '' is larger than pool maximum /'' @ Itoa mx))
                     else None))"

section \<open>Status update\<close>

definition ready_condition :: "string \<Rightarrow> string \<Rightarrow> string \<Rightarrow> int \<Rightarrow> int \<Rightarrow> Condition" where
  "ready_condition phase allocatedCIDR msg gen now =
     (let (readyStatus, readyReason, readyMessage) =
        (if phase = ClaimBound then (''True'', ''Allocated'', ''CIDR '' @ allocatedCIDR @ '' allocated'')
         else if phase = ClaimError then (''False'', ''Error'', msg)
         else (''False'', ''Pending'', ''Allocation in progress''))
      in \<lparr>co_Type = ''Ready'', co_Status = readyStatus, co_ObservedGeneration = gen,
          co_LastTransitionTime = now, co_Reason = readyReason, co_Message = readyMessage\<rparr>)"

text \<open>The object the closure of \<open>RetryOnConflict\<close> sends.\<close>

definition with_claim_status :: "'w kube \<Rightarrow> string \<Rightarrow> string \<Rightarrow> string \<Rightarrow> int \<Rightarrow> SubnetClaim \<Rightarrow> SubnetClaim" where
  "with_claim_status k phase allocatedCIDR msg now latest =
     latest\<lparr>sc_status := (sc_status latest)\<lparr>
        sc_Phase := phase, sc_AllocatedCIDR := allocatedCIDR, sc_Message := msg,
        sc_ObservedGeneration := Generation (sc_meta latest),
        sc_Conditions := k_SetStatusCondition k (sc_Conditions (sc_status latest))
          (ready_condition phase allocatedCIDR msg (Generation (sc_meta latest)) now)\<rparr>\<rparr>"

definition update_claim_once ::
    "'w kube \<Rightarrow> SubnetClaim \<Rightarrow> string \<Rightarrow> string \<Rightarrow> string \<Rightarrow> 'w \<Rightarrow> (error, unit) result \<times> 'w" where
  "update_claim_once k claim phase allocatedCIDR msg w =
     (case k_get_claim k (Namespace (sc_meta claim), Name (sc_meta claim)) w of
        (Inl err, w1) \<Rightarrow> (Inl err, w1)
      | (Inr latest, w1) \<Rightarrow>
          k_update_claim_status k (with_claim_status k phase allocatedCIDR msg (k_now k w1) latest) w1)"

definition NotFoundRetryMax :: nat where
  "NotFoundRetryMax = 3"

text \<open>The outer loop over NotFound errors: \<open>n\<close> rounds are left; the result is \<open>lastErr\<close>.\<close>

fun notfound_loop ::
    "'w kube \<Rightarrow> ('w \<Rightarrow> (error, unit) result \<times> 'w) \<Rightarrow> error option \<Rightarrow> nat \<Rightarrow> nat \<Rightarrow> 'w \<Rightarrow> error option \<times> 'w" where
  "notfound_loop k f lastErr notFoundRetry 0 w = (lastErr, w)"
| "notfound_loop k f lastErr notFoundRetry (Suc n) w =
     (let w0 = (if notFoundRetry > 0 then k_emit k (SleepMs 100) w else w)
      in case k_RetryOnConflict k 5 f w0 of
           (Inr _, w1) \<Rightarrow> (None, w1)
         | (Inl err, w1) \<Rightarrow>
             if k_IsNotFound k err \<and> notFoundRetry < NotFoundRetryMax
             then notfound_loop k f (Some err) (Suc notFoundRetry) n w1
             else (Some err, w1))"

definition updateClaimStatus ::
    "'w kube \<Rightarrow> SubnetClaim \<Rightarrow> string \<Rightarrow> string \<Rightarrow> string \<Rightarrow> 'w \<Rightarrow> (Result \<times> error option) \<times> 'w" where
  "updateClaimStatus k claim phase allocatedCIDR msg w =
     (if sc_Phase (sc_status claim) = phase \<and> sc_AllocatedCIDR (sc_status claim) = allocatedCIDR
         \<and> sc_Message (sc_status claim) = msg
      then ((no_requeue, None), w)
      else case notfound_loop k (update_claim_once k claim phase allocatedCIDR msg) None 0 (Suc NotFoundRetryMax) w of
        (Some lastErr, w1) \<Rightarrow> ((no_requeue, Some lastErr), w1)
      | (None, w1) \<Rightarrow>
          ((if phase = ClaimPending then no_requeue\<lparr>RequeueAfter := 10\<rparr> else no_requeue, None), w1))"

section \<open>Reconciliation\<close>

definition MaxRetries :: nat where
  "MaxRetries = 65"

text \<open>The metrics of free blocks after a success; the marking loop ignores errors.\<close>

definition record_free_blocks ::
    "'w kube \<Rightarrow> bool \<Rightarrow> SubnetPool \<Rightarrow> Subnet list \<Rightarrow> string \<Rightarrow> registry \<times> 'w \<Rightarrow> registry \<times> 'w" where
  "record_free_blocks k legacy pool allocs allocatedCIDR s =
     (case NewCIDRMap (sp_CIDR (sp_spec pool)) of
        Inl _ \<Rightarrow> s
      | Inr m \<Rightarrow>
          let m' = mark_used m (map (\<lambda>a. sn_CIDR (sn_spec a)) allocs @ [allocatedCIDR]);
              freeCount = GetFreeBlockCount m'
          in fold (\<lambda>sizeKey. recordPoolMetrics k legacy pool (''/'' @ sizeKey) (the (freeCount sizeKey)))
               (k_order k (snd s) (dom freeCount)) s)"

text \<open>A status update beside the registry.\<close>

definition with_reg :: "registry \<Rightarrow> (Result \<times> error option) \<times> 'w \<Rightarrow> (Result \<times> error option) \<times> registry \<times> 'w" where
  "with_reg r x = (fst x, r, snd x)"

definition on_allocated ::
    "'w kube \<Rightarrow> bool \<Rightarrow> SubnetClaim \<Rightarrow> SubnetPool \<Rightarrow> Subnet list \<Rightarrow> string \<Rightarrow> registry \<times> 'w
     \<Rightarrow> (Result \<times> error option) \<times> registry \<times> 'w" where
  "on_allocated k legacy claim pool allocs allocatedCIDR s =
     (let w1 = EmitAllocationSuccess k claim allocatedCIDR (recordAllocSuccess k claim allocatedCIDR (snd s));
          s2 = record_free_blocks k legacy pool allocs allocatedCIDR (fst s, w1)
      in with_reg (fst s2) (updateClaimStatus k claim ClaimBound allocatedCIDR '''' (snd s2)))"

definition on_exhausted ::
    "'w kube \<Rightarrow> SubnetClaim \<Rightarrow> SubnetPool \<Rightarrow> error \<Rightarrow> registry \<times> 'w \<Rightarrow> (Result \<times> error option) \<times> registry \<times> 'w" where
  "on_exhausted k claim pool err s =
     with_reg (fst s)
       (updateClaimStatus k claim ClaimError ''''
          (''Pool '' @ Name (sp_meta pool) @ '' is exhausted: '' @ err_text err)
          (recordAllocationError k claim ''exhausted'' (EmitPoolExhausted k claim (Name (sp_meta pool)) (snd s))))"

definition on_failed ::
    "'w kube \<Rightarrow> SubnetClaim \<Rightarrow> error \<Rightarrow> nat \<Rightarrow> registry \<times> 'w \<Rightarrow> (Result \<times> error option) \<times> registry \<times> 'w" where
  "on_failed k claim err retry s =
     (let w1 = recordAllocationError k claim ''conflict'' (EmitAllocationConflict k claim (err_text err) (snd s))
      in if retry = MaxRetries - 1 \<and> IsConflictError k err
         then ((no_requeue\<lparr>RequeueAfter := 30\<rparr>, None), fst s, w1)
         else with_reg (fst s) (updateClaimStatus k claim ClaimError '''' (err_text err) w1))"

text \<open>Step 5, the allocation loop: \<open>n\<close> rounds are left.\<close>

fun process_loop ::
    "'w kube \<Rightarrow> bool \<Rightarrow> SubnetClaim \<Rightarrow> SubnetPool \<Rightarrow> Subnet list \<Rightarrow> nat \<Rightarrow> nat \<Rightarrow> registry \<times> 'w
     \<Rightarrow> ((Result \<times> error option) \<times> registry \<times> 'w) option" where
  "process_loop k legacy claim pool allocs retry 0 s =
     (let errMsg = ''Failed to allocate CIDR after '' @ Itoa (int MaxRetries) @ '' retries due to conflicts''
      in Some (with_reg (fst s) (updateClaimStatus k claim ClaimError '''' errMsg
                (recordAllocationError k claim ''max_retries'' (EmitAllocationConflict k claim errMsg (snd s))))))"
| "process_loop k legacy claim pool allocs retry (Suc n) s =
     (let r = fst s; w0 = k_emit k (SleepMs 30) (snd s)
      in case (if retry > 0 then k_list_subnets k (Namespace (sc_meta claim)) (sc_PoolRef (sc_spec claim)) w0
               else (Inr allocs, w0)) of
           (Inl err, w1) \<Rightarrow> Some ((no_requeue, Some err), r, w1)
         | (Inr allocs1, w1) \<Rightarrow>
             (case allocateCIDR k claim pool allocs1 w1 of
                None \<Rightarrow> None
              | Some (Inr (allocated, allocatedCIDR), pool1, w2) \<Rightarrow>
                  if allocated then Some (on_allocated k legacy claim pool1 allocs1 allocatedCIDR (r, w2))
                  else process_loop k legacy claim pool1 allocs1 (Suc retry) n (r, w2)
              | Some (Inl err, pool1, w2) \<Rightarrow>
                  if IsExhaustedError err then Some (on_exhausted k claim pool1 err (r, w2))
                  else if IsConflictError k err \<and> retry < MaxRetries - 1 then
                    (case k_get_subnet k (Namespace (sc_meta claim), sc_ClusterID (sc_spec claim))
                            (k_emit k SleepJitter (recordRetry k (int retry + 1) w2)) of
                       (Inr existingAlloc, w3) \<Rightarrow>
                         Some (with_reg r (updateClaimStatus k claim ClaimBound (sn_CIDR (sn_spec existingAlloc)) '''' w3))
                     | (Inl _, w3) \<Rightarrow> process_loop k legacy claim pool1 allocs1 (Suc retry) n (r, w3))
                  else Some (on_failed k claim err retry (r, w2))))"

text \<open>Steps 3 to 5, for a validated claim.\<close>

definition allocate_for_claim ::
    "'w kube \<Rightarrow> bool \<Rightarrow> SubnetClaim \<Rightarrow> SubnetPool \<Rightarrow> registry \<times> 'w
     \<Rightarrow> ((Result \<times> error option) \<times> registry \<times> 'w) option" where
  "allocate_for_claim k legacy claim pool s =
     (let r = fst s
      in case k_get_subnet k (Namespace (sc_meta claim), sc_ClusterID (sc_spec claim)) (snd s) of
           (Inr existing, w1) \<Rightarrow>
             if sn_PoolRef (sn_spec existing) \<noteq> sc_PoolRef (sc_spec claim) then
               let errMsg = ''Existing allocation for ClusterID '' @ sc_ClusterID (sc_spec claim)
                              @ '' found but in different pool: '' @ sn_PoolRef (sn_spec existing)
               in Some (with_reg r (updateClaimStatus k claim ClaimError '''' errMsg (EmitAllocationConflict k claim errMsg w1)))
             else Some (with_reg r (updateClaimStatus k claim ClaimBound (sn_CIDR (sn_spec existing)) ''''
                          (EmitAllocationSuccess k claim (sn_CIDR (sn_spec existing)) w1)))
         | (Inl err, w1) \<Rightarrow>
             if \<not> k_IsNotFound k err then Some ((no_requeue, Some err), r, w1)
             else (case k_list_subnets k (Namespace (sc_meta claim)) (sc_PoolRef (sc_spec claim)) w1 of
                     (Inl err, w2) \<Rightarrow> Some ((no_requeue, Some err), r, w2)
                   | (Inr allocs, w2) \<Rightarrow> process_loop k legacy claim pool allocs 0 MaxRetries (r, w2)))"

definition processClaimReconciliation ::
    "'w kube \<Rightarrow> bool \<Rightarrow> SubnetClaim \<Rightarrow> registry \<times> 'w \<Rightarrow> ((Result \<times> error option) \<times> registry \<times> 'w) option" where
  "processClaimReconciliation k legacy claim s =
     (let st = sc_status claim; gen = Generation (sc_meta claim); r = fst s; w = snd s;
          poolRef = sc_PoolRef (sc_spec claim); notFoundMsg = ''Pool '' @ poolRef @ '' not found''
      in if sc_Phase st = ClaimBound \<and> sc_AllocatedCIDR st \<noteq> '''' \<and> sc_ObservedGeneration st = gen
         then Some ((no_requeue, None), r, w)
         else if sc_Phase st = ClaimBound \<and> sc_AllocatedCIDR st \<noteq> '''' then
           (if sc_ObservedGeneration st \<noteq> gen
            then Some (with_reg r (updateClaimStatus k claim ClaimBound (sc_AllocatedCIDR st) '''' w))
            else Some ((no_requeue, None), r, w))
         else case k_get_pool k (Namespace (sc_meta claim), poolRef) w of
           (Inl err, w1) \<Rightarrow>
             if k_IsNotFound k err then
               (if sc_Phase st \<noteq> ClaimError \<or> sc_Message st \<noteq> notFoundMsg
                then Some (with_reg r (updateClaimStatus k claim ClaimError '''' notFoundMsg w1))
                else Some ((no_requeue\<lparr>RequeueAfter := 10\<rparr>, None), r, w1))
             else Some ((no_requeue, Some err), r, w1)
         | (Inr pool, w1) \<Rightarrow>
             (case validateClaim claim pool of
                Some err \<Rightarrow>
                  Some (with_reg r (updateClaimStatus k claim ClaimError '''' (err_text err)
                         (recordAllocationError k claim ''validation'' (EmitValidationFailed k claim (err_text err) w1))))
              | None \<Rightarrow> allocate_for_claim k legacy claim pool (r, w1)))"

definition Claim_Reconcile ::
    "'w kube \<Rightarrow> bool \<Rightarrow> NamespacedName \<Rightarrow> registry \<times> 'w \<Rightarrow> ((Result \<times> error option) \<times> registry \<times> 'w) option" where
  "Claim_Reconcile k legacy req s =
     (case k_get_claim k req (snd s) of
        (Inl err, w1) \<Rightarrow> Some ((no_requeue, if k_IsNotFound k err then None else Some err), fst s, w1)
      | (Inr claim, w1) \<Rightarrow> processClaimReconciliation k legacy claim (fst s, w1))"

section \<open>Metadata helpers\<close>

definition IPAMLabel :: string where
  "IPAMLabel = ''plexaubnet.io/ipam''"

definition IPAMFinalizer :: string where
  "IPAMFinalizer = ''ipam.plexaubnet.io/finalizer''"

definition applyCommonMetadata :: "ObjectMeta \<Rightarrow> ObjectMeta" where
  "applyCommonMetadata m =
     (let m = (if Labels m IPAMLabel = None then m\<lparr>Labels := (Labels m)(IPAMLabel \<mapsto> ''true'')\<rparr> else m)
      in if IPAMFinalizer \<in> set (Finalizers m) then m else m\<lparr>Finalizers := Finalizers m @ [IPAMFinalizer]\<rparr>)"

definition isAllocationImmutable :: "Subnet \<Rightarrow> Subnet \<Rightarrow> bool \<times> string" where
  "isAllocationImmutable oldAlloc newAlloc =
     (if sn_spec oldAlloc \<noteq> sn_spec newAlloc then (False, ''Subnet Spec fields are immutable'') else (True, ''''))"

section \<open>What a reconciliation leaves of the stored Subnets\<close>

text \<open>A view of the world that metrics, events and waits do not change.\<close>

definition blind :: "'w kube \<Rightarrow> ('w \<Rightarrow> 'v) \<Rightarrow> bool" where
  "blind k v \<longleftrightarrow> (\<forall>e w. v (k_emit k e w) = v w)"

lemma exclusive_blind: "exclusive_store k subs \<Longrightarrow> blind k subs"
  by (simp add: blind_def exclusive_storeD(10))

lemma emit_blind:
  assumes "blind k v"
  shows "v (EmitAllocationSuccess k claim c w) = v w"
    and "v (EmitAllocationConflict k claim c w) = v w"
    and "v (EmitPoolExhausted k claim c w) = v w"
    and "v (EmitValidationFailed k claim c w) = v w"
    and "v (recordAllocSuccess k claim c w) = v w"
    and "v (recordAllocationError k claim c w) = v w"
    and "v (recordCreateMetrics k res w) = v w"
    and "v (recordLatency k w) = v w"
    and "v (recordRetry k i w) = v w"
    and "v (k_emit k ef w) = v w"
  using assms by (simp_all add: EmitAllocationSuccess_def EmitAllocationConflict_def EmitPoolExhausted_def
      EmitValidationFailed_def recordAllocSuccess_def recordAllocationError_def recordRetry_def Let_def
      recordCreateMetrics_def recordLatency_def blind_def)

lemma registerPoolGaugeForSize_blind:
  "blind k v \<Longrightarrow> v (snd (snd (registerPoolGaugeForSize k p sz s))) = v (snd s)"
  by (simp add: registerPoolGaugeForSize_def Let_def blind_def split: prod.splits option.splits)

lemma recordPoolMetrics_blind:
  assumes k: "blind k v"
  shows "v (snd (recordPoolMetrics k legacy pool key n s)) = v (snd s)"
proof -
  have "v (snd (snd (ensurePoolGauge k p sz s))) = v (snd s)" for p sz
    using registerPoolGaugeForSize_blind [OF k] by (simp add: ensurePoolGauge_def split: option.splits)
  then show ?thesis
    using k by (simp add: recordPoolMetrics_def Let_def blind_def split: prod.splits)
      (metis snd_conv)
qed

lemma record_free_blocks_blind:
  assumes k: "blind k v"
  shows "v (snd (record_free_blocks k legacy pool allocs c s)) = v (snd s)"
proof -
  have q: "v (snd (fold (\<lambda>key. recordPoolMetrics k legacy pool (f key) (g key)) keys t)) = v (snd t)" for f g keys t
    by (induction keys arbitrary: t) (simp_all add: recordPoolMetrics_blind [OF k])
  show ?thesis by (cases "NewCIDRMap (sp_CIDR (sp_spec pool))") (simp_all add: record_free_blocks_def Let_def q)
qed

text \<open>Each outcome ends in a status update, or in nothing, after calls no view sees.\<close>

lemma outcome_status:
  assumes k: "blind k v"
  shows "\<exists>w. v w = v (snd s) \<and> snd (snd (on_allocated k legacy claim pool allocs c s)) =
      snd (updateClaimStatus k claim ClaimBound c '''' w)"
    and "\<exists>w m. v w = v (snd s) \<and> snd (snd (on_exhausted k claim pool err s)) =
      snd (updateClaimStatus k claim ClaimError '''' m w)"
    and "\<exists>w. v w = v (snd s) \<and> (snd (snd (on_failed k claim err retry s)) = w
      \<or> snd (snd (on_failed k claim err retry s)) = snd (updateClaimStatus k claim ClaimError '''' (err_text err) w))"
proof -
  let ?w = "snd (record_free_blocks k legacy pool allocs c
    (fst s, EmitAllocationSuccess k claim c (recordAllocSuccess k claim c (snd s))))"
  have "v ?w = v (snd s)" by (simp add: record_free_blocks_blind [OF k] emit_blind [OF k])
  moreover have "snd (snd (on_allocated k legacy claim pool allocs c s)) = snd (updateClaimStatus k claim ClaimBound c '''' ?w)"
    by (simp add: on_allocated_def with_reg_def Let_def)
  ultimately show "\<exists>w. v w = v (snd s) \<and> snd (snd (on_allocated k legacy claim pool allocs c s)) =
      snd (updateClaimStatus k claim ClaimBound c '''' w)" by blast
  let ?w = "recordAllocationError k claim ''exhausted'' (EmitPoolExhausted k claim (Name (sp_meta pool)) (snd s))"
  have "v ?w = v (snd s)" by (simp add: emit_blind [OF k])
  then show "\<exists>w m. v w = v (snd s) \<and> snd (snd (on_exhausted k claim pool err s)) =
      snd (updateClaimStatus k claim ClaimError '''' m w)"
    by (intro exI [of _ ?w]) (auto simp: on_exhausted_def with_reg_def)
  let ?w = "recordAllocationError k claim ''conflict'' (EmitAllocationConflict k claim (err_text err) (snd s))"
  have "v ?w = v (snd s)" by (simp add: emit_blind [OF k])
  then show "\<exists>w. v w = v (snd s) \<and> (snd (snd (on_failed k claim err retry s)) = w
      \<or> snd (snd (on_failed k claim err retry s)) = snd (updateClaimStatus k claim ClaimError '''' (err_text err) w))"
    by (intro exI [of _ ?w]) (simp add: on_failed_def with_reg_def Let_def)
qed

lemma update_claim_once_quiet:
  assumes ex: "exclusive_store k subs" and u: "update_claim_once k claim ph c m w = (r, w')"
  shows "subs w' = subs w"
proof -
  obtain g w1 where g: "k_get_claim k (Namespace (sc_meta claim), Name (sc_meta claim)) w = (g, w1)" by fastforce
  have s: "subs w1 = subs w" by (rule exclusive_storeD(8) [OF ex g])
  show ?thesis
    using u s exclusive_storeD(9) [OF ex, of _ w1 r w'] by (cases g) (simp_all add: update_claim_once_def g)
qed

text \<open>Both retry loops keep what the retried function and a wait keep.\<close>

lemma notfound_loop_invariant:
  assumes law: "retry_law k" and step: "\<And>w r w'. I w \<Longrightarrow> f w = (r, w') \<Longrightarrow> I w'"
    and emit: "\<And>w e. e = SleepJitter \<or> e = SleepMs 100 \<Longrightarrow> I w \<Longrightarrow> I (k_emit k e w)"
  shows "I w \<Longrightarrow> I (snd (notfound_loop k f lastErr i n w))"
proof (induction n arbitrary: lastErr i w)
  case (Suc n)
  let ?w0 = "if i > 0 then k_emit k (SleepMs 100) w else w"
  obtain r1 w1 where c: "k_RetryOnConflict k 5 f ?w0 = (r1, w1)" by fastforce
  have "I ?w0" using Suc.prems emit by simp
  have c': "k_OnError k (Suc 4) (k_IsConflict k) f ?w0 = (r1, w1)" using c by (simp add: k_RetryOnConflict_def)
  have "I w1" by (rule OnError_invariant [where I = I, OF law _ _ c' \<open>I ?w0\<close>]) (fact step, simp add: emit)
  with Suc.IH c show ?case by (cases r1) (simp_all add: Let_def)
qed simp

lemma updateClaimStatus_invariant:
  assumes law: "retry_law k" and emit: "\<And>w e. e = SleepJitter \<or> e = SleepMs 100 \<Longrightarrow> I w \<Longrightarrow> I (k_emit k e w)"
    and step: "\<And>w r w'. I w \<Longrightarrow> update_claim_once k claim ph c m w = (r, w') \<Longrightarrow> I w'" and I: "I w"
  shows "I (snd (updateClaimStatus k claim ph c m w))"
proof -
  let ?l = "notfound_loop k (update_claim_once k claim ph c m) None 0 (Suc NotFoundRetryMax) w"
  have s: "I (snd ?l)"
    by (rule notfound_loop_invariant [where I = I, OF law _ _ I]) (fact step, fact emit)
  obtain e w1 where l: "?l = (e, w1)" by fastforce
  show ?thesis
    using s I by (cases e) (simp_all add: updateClaimStatus_def l del: notfound_loop.simps)
qed

lemma updateClaimStatus_quiet:
  assumes ex: "exclusive_store k subs" and law: "retry_law k"
  shows "subs (snd (updateClaimStatus k claim ph c m w)) = subs w"
  by (rule updateClaimStatus_invariant [OF law, where I = "\<lambda>v. subs v = subs w"])
    (simp_all add: exclusive_storeD(10) [OF ex] update_claim_once_quiet [OF ex])

section \<open>The allocation loop of the reconciler\<close>

lemma allocate_loop_success: "allocate_loop k claim pool ss U retry n w = Some (Inr (b, c), p', w') \<Longrightarrow> b"
  by (induction n arbitrary: pool ss U retry w)
    (auto simp: Let_def split: prod.splits sum.splits option.splits if_splits)

lemma allocateCIDR_success: "allocateCIDR k claim pool ss w = Some (Inr (b, c), p', w') \<Longrightarrow> b"
  by (auto simp: allocateCIDR_def dest: allocate_loop_success split: option.splits)

lemma allocateCIDR_not_conflict:
  assumes "apierrors_laws k" "get_pool_law k" "set_ref_law k"
    and "allocateCIDR k claim pool ss w = Some (Inl e, pool', w')"
  shows "\<not> IsConflictError k e"
  using allocate_loop_not_conflict [OF assms(1-3)] assms(4) by (auto simp: allocateCIDR_def split: option.splits)

text \<open>The first round in closed form: it is the only one.\<close>

definition first_round ::
    "'w kube \<Rightarrow> bool \<Rightarrow> SubnetClaim \<Rightarrow> SubnetPool \<Rightarrow> Subnet list \<Rightarrow> registry \<times> 'w
     \<Rightarrow> ((Result \<times> error option) \<times> registry \<times> 'w) option" where
  "first_round k legacy claim pool allocs s =
     (case allocateCIDR k claim pool allocs (k_emit k (SleepMs 30) (snd s)) of
        None \<Rightarrow> None
      | Some (Inr (_, c), pool1, w) \<Rightarrow> Some (on_allocated k legacy claim pool1 allocs c (fst s, w))
      | Some (Inl err, pool1, w) \<Rightarrow>
          Some (if IsExhaustedError err then on_exhausted k claim pool1 err (fst s, w)
                else on_failed k claim err 0 (fst s, w)))"

lemma process_loop_first:
  assumes "apierrors_laws k" "get_pool_law k" "set_ref_law k"
  shows "process_loop k legacy claim pool allocs 0 (Suc n) s = first_round k legacy claim pool allocs s"
proof -
  let ?a = "allocateCIDR k claim pool allocs (k_emit k (SleepMs 30) (snd s))"
  have "\<not> IsConflictError k e" if "?a = Some (Inl e, p1, w1)" for e p1 w1
    using allocateCIDR_not_conflict [OF assms that] .
  moreover have "?a \<noteq> Some (Inr (False, c), p1, w1)" for c p1 w1
    using allocateCIDR_success [of k claim pool allocs _ False c p1 w1] by blast
  ultimately show ?thesis
    by (cases ?a) (auto simp: first_round_def Let_def split: prod.splits sum.splits)
qed

section \<open>Bound claims\<close>

text \<open>
  The claims the API server holds as Bound, with their CIDR: only a status update adds one,
  the one it sends; a claim that is read is a stored one of that key.
\<close>

definition bound_claim :: "SubnetClaim \<Rightarrow> bool" where
  "bound_claim c \<longleftrightarrow> sc_Phase (sc_status c) = ClaimBound"

definition claim_cell :: "SubnetClaim \<Rightarrow> NamespacedName \<times> string" where
  "claim_cell c = (meta_key (sc_meta c), sc_AllocatedCIDR (sc_status c))"

definition claim_store :: "'w kube \<Rightarrow> ('w \<Rightarrow> (NamespacedName \<times> string) set) \<Rightarrow> bool" where
  "claim_store k bounds \<longleftrightarrow>
     (\<forall>c w r w'. k_update_claim_status k c w = (r, w') \<longrightarrow>
        bounds w' \<subseteq> bounds w \<union> (if bound_claim c then {claim_cell c} else {}))
     \<and> (\<forall>key w r w'. k_get_claim k key w = (r, w') \<longrightarrow> bounds w' = bounds w
          \<and> (\<forall>c. r = Inr c \<longrightarrow> meta_key (sc_meta c) = key \<and> (bound_claim c \<longrightarrow> claim_cell c \<in> bounds w)))
     \<and> (\<forall>ns p w r w'. k_list_subnets k ns p w = (r, w') \<longrightarrow> bounds w' = bounds w)
     \<and> (\<forall>s w r w'. k_create_subnet k s w = (r, w') \<longrightarrow> bounds w' = bounds w)
     \<and> (\<forall>key w r w'. k_get_subnet k key w = (r, w') \<longrightarrow> bounds w' = bounds w)
     \<and> (\<forall>key w r w'. k_get_pool k key w = (r, w') \<longrightarrow> bounds w' = bounds w)
     \<and> (\<forall>e w. bounds (k_emit k e w) = bounds w)"

lemma claim_storeD:
  assumes "claim_store k bounds"
  shows "k_update_claim_status k c w = (r, w') \<Longrightarrow> bounds w' \<subseteq> bounds w \<union> (if bound_claim c then {claim_cell c} else {})"
    and "k_get_claim k key w = (rc, w') \<Longrightarrow> bounds w' = bounds w"
    and "k_get_claim k key w = (Inr c, w') \<Longrightarrow> meta_key (sc_meta c) = key"
    and "k_get_claim k key w = (Inr c, w') \<Longrightarrow> bound_claim c \<Longrightarrow> claim_cell c \<in> bounds w"
    and "k_list_subnets k ns p w = (rl, w') \<Longrightarrow> bounds w' = bounds w"
    and "k_create_subnet k s w = (rs, w') \<Longrightarrow> bounds w' = bounds w"
    and "k_get_subnet k key w = (rs, w') \<Longrightarrow> bounds w' = bounds w"
    and "k_get_pool k key w = (rp, w') \<Longrightarrow> bounds w' = bounds w"
    and "bounds (k_emit k e w) = bounds w"
proof -
  note a = assms [unfolded claim_store_def]
  show "k_update_claim_status k c w = (r, w') \<Longrightarrow> bounds w' \<subseteq> bounds w \<union> (if bound_claim c then {claim_cell c} else {})"
    using conjunct1 [OF a] by blast
  note a = conjunct2 [OF a]
  show "k_get_claim k key w = (rc, w') \<Longrightarrow> bounds w' = bounds w"
    and "k_get_claim k key w = (Inr c, w') \<Longrightarrow> meta_key (sc_meta c) = key"
    and "k_get_claim k key w = (Inr c, w') \<Longrightarrow> bound_claim c \<Longrightarrow> claim_cell c \<in> bounds w"
    using conjunct1 [OF a] by blast+
  note a = conjunct2 [OF a]
  show "k_list_subnets k ns p w = (rl, w') \<Longrightarrow> bounds w' = bounds w" using conjunct1 [OF a] by blast
  note a = conjunct2 [OF a]
  show "k_create_subnet k s w = (rs, w') \<Longrightarrow> bounds w' = bounds w" using conjunct1 [OF a] by blast
  note a = conjunct2 [OF a]
  show "k_get_subnet k key w = (rs, w') \<Longrightarrow> bounds w' = bounds w" using conjunct1 [OF a] by blast
  note a = conjunct2 [OF a]
  show "k_get_pool k key w = (rp, w') \<Longrightarrow> bounds w' = bounds w" using conjunct1 [OF a] by blast
  note a = conjunct2 [OF a]
  show "bounds (k_emit k e w) = bounds w" using a by blast
qed

text \<open>Every Bound claim is backed by a stored Subnet of its namespace with its CIDR.\<close>

definition holds_cidr :: "subnet_set \<Rightarrow> string \<Rightarrow> string \<Rightarrow> bool" where
  "holds_cidr S ns c \<longleftrightarrow> (\<exists>x\<in>S. fst (fst x) = ns \<and> sn_CIDR (snd x) = c)"

definition backed :: "subnet_set \<Rightarrow> (NamespacedName \<times> string) set \<Rightarrow> bool" where
  "backed S B \<longleftrightarrow> (\<forall>b\<in>B. holds_cidr S (fst (fst b)) (snd b))"

lemma backed_mono: "backed S B \<Longrightarrow> S \<subseteq> S' \<Longrightarrow> backed S' B"
  by (force simp: backed_def holds_cidr_def)

lemma update_claim_once_backed:
  assumes cs: "claim_store k bounds" and b: "backed S (bounds w)"
    and ok: "ph = ClaimBound \<Longrightarrow> holds_cidr S (Namespace (sc_meta claim)) c"
    and u: "update_claim_once k claim ph c m w = (r, w')"
  shows "backed S (bounds w')"
proof -
  obtain g w1 where g: "k_get_claim k (Namespace (sc_meta claim), Name (sc_meta claim)) w = (g, w1)" by fastforce
  have s: "bounds w1 = bounds w" by (rule claim_storeD(2) [OF cs g])
  show ?thesis
  proof (cases g)
    case (Inl e)
    then show ?thesis using u g s b by (simp add: update_claim_once_def)
  next
    case (Inr latest)
    let ?new = "with_claim_status k ph c m (k_now k w1) latest"
    have "meta_key (sc_meta latest) = (Namespace (sc_meta claim), Name (sc_meta claim))"
      using claim_storeD(3) [OF cs] g Inr by blast
    then have cell: "claim_cell ?new = ((Namespace (sc_meta claim), Name (sc_meta claim)), c)"
      by (simp add: claim_cell_def with_claim_status_def)
    have "bound_claim ?new \<longleftrightarrow> ph = ClaimBound" by (simp add: bound_claim_def with_claim_status_def)
    moreover have "k_update_claim_status k ?new w1 = (r, w')" using u g Inr by (simp add: update_claim_once_def)
    ultimately have "bounds w' \<subseteq> bounds w \<union> (if ph = ClaimBound then {claim_cell ?new} else {})"
      using claim_storeD(1) [OF cs, of ?new w1 r w'] s by simp
    then show ?thesis using b ok unfolding backed_def cell by (auto split: if_splits)
  qed
qed

lemma updateClaimStatus_backed:
  assumes cs: "claim_store k bounds" and law: "retry_law k" and b: "backed S (bounds w)"
    and ok: "ph = ClaimBound \<Longrightarrow> holds_cidr S (Namespace (sc_meta claim)) c"
  shows "backed S (bounds (snd (updateClaimStatus k claim ph c m w)))"
  by (rule updateClaimStatus_invariant [OF law, where I = "\<lambda>w. backed S (bounds w)"])
    (use b in \<open>simp_all add: claim_storeD(9) [OF cs] update_claim_once_backed [OF cs _ ok]\<close>)

section \<open>The invariant of the claim controller\<close>

text \<open>The allocator does not touch claims.\<close>

lemma claim_blind: "claim_store k bounds \<Longrightarrow> blind k bounds"
  by (simp add: blind_def claim_storeD(9))

lemma createAllocation_bounds:
  assumes cs: "claim_store k bounds" and r: "createAllocation k claim pool c n w = (r, w')"
  shows "bounds w' = bounds w"
proof (cases "k_set_ref_subnet k claim (new_subnet claim pool c n)")
  case (Inl e)
  with r show ?thesis by (auto simp: createAllocation_def)
next
  case (Inr s)
  note m = emit_blind(7) [OF claim_blind [OF cs]]
  obtain cr w1 where cr: "k_create_subnet k s w = (cr, w1)" by fastforce
  let ?w2 = "recordCreateMetrics k ''exists'' w1"
  obtain g w3 where g: "k_get_subnet k (Namespace (sc_meta claim), n) ?w2 = (g, w3)" by fastforce
  have b: "bounds w1 = bounds w" "bounds w3 = bounds w"
    using claim_storeD(6) [OF cs cr] claim_storeD(7) [OF cs g] m by simp_all
  show ?thesis
    using r Inr cr g b m by (auto simp: createAllocation_def Let_def split: sum.splits if_splits)
qed

lemma prepare_retry_bounds:
  assumes cs: "claim_store k bounds" and r: "prepare_retry k pool ss U retry w = (r, w')"
  shows "bounds w' = bounds w"
proof (cases "retry = 0")
  case False
  obtain g w1 where g: "k_get_pool k (Namespace (sp_meta pool), Name (sp_meta pool)) (k_emit k (SleepBackoff retry) w) = (g, w1)"
    by fastforce
  have b: "bounds w1 = bounds w" using claim_storeD(8) [OF cs g] by (simp add: claim_storeD(9) [OF cs])
  have l: "bounds w2 = bounds w" if "k_list_subnets k ns p w1 = (l, w2)" for ns p l w2
    using claim_storeD(5) [OF cs that] b by simp
  show ?thesis using False r g b l
    by (auto simp: prepare_retry_def refreshAllocationList_def split: sum.splits prod.splits)
qed (use r in \<open>simp add: prepare_retry_def\<close>)

lemma allocate_loop_bounds:
  assumes cs: "claim_store k bounds"
  shows "allocate_loop k claim pool ss U retry n w = Some (r, p', w') \<Longrightarrow> bounds w' = bounds w"
proof (induction n arbitrary: pool ss U retry w)
  case (Suc n)
  obtain q w1 where q: "prepare_retry k pool ss U retry w = (q, w1)" by fastforce
  have b1: "bounds w1 = bounds w" by (rule prepare_retry_bounds [OF cs q])
  show ?case
  proof (cases q)
    case (Inr t)
    obtain pool1 ss1 U1 where t: "t = (pool1, ss1, U1)" by (cases t)
    show ?thesis
    proof (cases "\<exists>c. selectCandidateCIDR (k_order k w1) claim pool1 U1 ss1 = Some (Inr c)")
      case True
      then obtain c where c: "selectCandidateCIDR (k_order k w1) claim pool1 U1 ss1 = Some (Inr c)" by blast
      obtain cr w2 where cr: "createAllocation k claim pool1 c (EncodeAllocationName (Name (sp_meta pool1)) c) w1 = (cr, w2)"
        by fastforce
      have b2: "bounds w2 = bounds w" using createAllocation_bounds [OF cs cr] b1 by simp
      show ?thesis
        using Suc.prems q Inr t c cr b2 Suc.IH by (auto simp: Let_def split: sum.splits if_splits prod.splits)
    next
      case False
      then show ?thesis using Suc.prems q Inr t b1 by (auto split: option.splits sum.splits)
    qed
  qed (use Suc.prems q b1 in simp)
qed simp

lemma allocateCIDR_bounds:
  assumes cs: "claim_store k bounds" and "allocateCIDR k claim pool ss w = Some (r, p', w')"
  shows "bounds w' = bounds w"
  using assms(2) allocate_loop_bounds [OF cs]
  by (auto simp: allocateCIDR_def emit_blind(8) [OF claim_blind [OF cs]] split: option.splits)

text \<open>
  The hypotheses: one writer on the API server, the documented behaviour of the libraries,
  and IPv4 texts in the pools and in the requests. \<open>Get\<close> returns the object of the key.
\<close>

definition single_writer ::
    "'w kube \<Rightarrow> ('w \<Rightarrow> subnet_set) \<Rightarrow> ('w \<Rightarrow> (NamespacedName \<times> string) set) \<Rightarrow> bool" where
  "single_writer k subs bounds \<longleftrightarrow>
     exclusive_store k subs \<and> claim_store k bounds \<and> set_ref_keeps k \<and> apierrors_laws k \<and> get_pool_law k
     \<and> set_ref_law k \<and> order_law k \<and> retry_law k"

definition v4_objects :: "'w kube \<Rightarrow> bool" where
  "v4_objects k \<longleftrightarrow>
     (\<forall>key w p w'. k_get_pool k key w = (Inr p, w') \<longrightarrow>
        meta_key (sp_meta p) = key \<and> pool_stable k p \<and> (\<exists>a kp. v4_cidr (sp_CIDR (sp_spec p)) a kp))
     \<and> (\<forall>key w c w'. k_get_claim k key w = (Inr c, w') \<longrightarrow> v4_request c)"

text \<open>In every pool that can be read the allocations are disjoint; every Bound claim is backed.\<close>

definition pools_disjoint :: "'w kube \<Rightarrow> subnet_set \<Rightarrow> bool" where
  "pools_disjoint k S \<longleftrightarrow>
     (\<forall>key w p w'. k_get_pool k key w = (Inr p, w') \<longrightarrow>
        alloc_inv (cidr_addrs (sp_CIDR (sp_spec p))) (fst key) (snd key) S)"

definition recon_inv :: "'w kube \<Rightarrow> ('w \<Rightarrow> subnet_set) \<Rightarrow> ('w \<Rightarrow> (NamespacedName \<times> string) set) \<Rightarrow> 'w \<Rightarrow> bool" where
  "recon_inv k subs bounds w \<longleftrightarrow> pools_disjoint k (subs w) \<and> backed (subs w) (bounds w)"

lemma v4_objectsD:
  assumes "v4_objects k"
  shows "k_get_pool k key w = (Inr p, w') \<Longrightarrow> meta_key (sp_meta p) = key"
    and "k_get_pool k key w = (Inr p, w') \<Longrightarrow> pool_stable k p"
    and "k_get_pool k key w = (Inr p, w') \<Longrightarrow> \<exists>a kp. v4_cidr (sp_CIDR (sp_spec p)) a kp"
    and "k_get_claim k key w = (Inr c, w') \<Longrightarrow> v4_request c"
  using assms unfolding v4_objects_def by blast+

lemma pools_disjoint_extend:
  assumes inv: "pools_disjoint k S" and v4: "v4_objects k" and get: "k_get_pool k key w = (Inr p, w')"
    and new: "alloc_inv (cidr_addrs (sp_CIDR (sp_spec p))) (fst key) (snd key) S'"
    and sub: "S \<subseteq> S'" "S' - S \<subseteq> in_pool_of (fst key) (snd key) S'"
  shows "pools_disjoint k S'"
  unfolding pools_disjoint_def
proof (intro allI impI)
  fix key2 w2 p2 w2'
  assume get2: "k_get_pool k key2 w2 = (Inr p2, w2')"
  show "alloc_inv (cidr_addrs (sp_CIDR (sp_spec p2))) (fst key2) (snd key2) S'"
  proof (cases "key2 = key")
    case True
    have "pool_stable k p" "meta_key (sp_meta p) = key" using v4_objectsD [OF v4] get by blast+
    then have "sp_CIDR (sp_spec p2) = sp_CIDR (sp_spec p)" using get2 True unfolding pool_stable_def by blast
    with new True show ?thesis by simp
  next
    case False
    then have "in_pool_of (fst key2) (snd key2) S' = in_pool_of (fst key2) (snd key2) S"
      using sub by (auto simp: in_pool_of_def prod_eq_iff)
    moreover have "alloc_inv (cidr_addrs (sp_CIDR (sp_spec p2))) (fst key2) (snd key2) S"
      using inv get2 unfolding pools_disjoint_def by blast
    ultimately show ?thesis by (simp add: alloc_inv_def)
  qed
qed

lemma updateClaimStatus_inv:
  assumes sw: "single_writer k subs bounds" and inv: "recon_inv k subs bounds w"
    and ok: "ph = ClaimBound \<Longrightarrow> holds_cidr (subs w) (Namespace (sc_meta claim)) c"
  shows "recon_inv k subs bounds (snd (updateClaimStatus k claim ph c m w))"
proof -
  have "exclusive_store k subs" "claim_store k bounds" "retry_law k" using sw by (simp_all add: single_writer_def)
  then show ?thesis
    using inv ok updateClaimStatus_backed [of k bounds "subs w" w ph claim c m]
    by (simp add: recon_inv_def updateClaimStatus_quiet)
qed

lemma updateClaimError_inv:
  "single_writer k subs bounds \<Longrightarrow> recon_inv k subs bounds w \<Longrightarrow>
     recon_inv k subs bounds (snd (updateClaimStatus k claim ClaimError c m w))"
  by (rule updateClaimStatus_inv) (simp_all add: phase_defs)

text \<open>One round of allocation for a claim and a pool that were read, on a current list.\<close>

lemma after_allocation:
  assumes sw: "single_writer k subs bounds"
    and inv: "\<And>v. (subs v, bounds v) = (subs w, bounds w) \<Longrightarrow> recon_inv k subs bounds v"
  shows "holds_cidr (subs w) (Namespace (sc_meta claim)) c \<Longrightarrow>
      recon_inv k subs bounds (snd (snd (on_allocated k legacy claim pool allocs c (r, w))))
      \<and> subs (snd (snd (on_allocated k legacy claim pool allocs c (r, w)))) = subs w"
    and "recon_inv k subs bounds (snd (snd (on_exhausted k claim pool e (r, w))))
      \<and> subs (snd (snd (on_exhausted k claim pool e (r, w)))) = subs w"
    and "recon_inv k subs bounds (snd (snd (on_failed k claim e n (r, w))))
      \<and> subs (snd (snd (on_failed k claim e n (r, w)))) = subs w"
proof -
  have ex: "exclusive_store k subs" and cs: "claim_store k bounds" and law: "retry_law k"
    using sw by (simp_all add: single_writer_def)
  have bl: "blind k (\<lambda>w. (subs w, bounds w))"
    by (simp add: blind_def exclusive_storeD(10) [OF ex] claim_storeD(9) [OF cs])
  note upd = updateClaimStatus_inv [OF sw] updateClaimStatus_quiet [OF ex law]
  show "recon_inv k subs bounds (snd (snd (on_allocated k legacy claim pool allocs c (r, w))))
      \<and> subs (snd (snd (on_allocated k legacy claim pool allocs c (r, w)))) = subs w"
    if "holds_cidr (subs w) (Namespace (sc_meta claim)) c"
    using outcome_status(1) [OF bl, of "(r, w)" legacy claim pool allocs c] that upd inv by auto
  show "recon_inv k subs bounds (snd (snd (on_exhausted k claim pool e (r, w))))
      \<and> subs (snd (snd (on_exhausted k claim pool e (r, w)))) = subs w"
    using outcome_status(2) [OF bl, of "(r, w)" claim pool e] upd(2) inv updateClaimError_inv [OF sw] by auto
  show "recon_inv k subs bounds (snd (snd (on_failed k claim e n (r, w))))
      \<and> subs (snd (snd (on_failed k claim e n (r, w)))) = subs w"
    using outcome_status(3) [OF bl, of "(r, w)" claim e n] upd(2) inv updateClaimError_inv [OF sw] by auto
qed

lemma first_round_safe:
  assumes sw: "single_writer k subs bounds" and v4: "v4_objects k" "v4_request claim"
    and get: "k_get_pool k (Namespace (sc_meta claim), sc_PoolRef (sc_spec claim)) w0 = (Inr pool, w1)"
    and inv: "recon_inv k subs bounds (snd s)"
    and list: "subnet_view ` set allocs = in_pool_of (Namespace (sc_meta claim)) (sc_PoolRef (sc_spec claim)) (subs (snd s))"
  shows "\<exists>out r' w'. first_round k legacy claim pool allocs s = Some (out, r', w') \<and> recon_inv k subs bounds w'
    \<and> subs (snd s) \<subseteq> subs w'"
proof -
  have ex: "exclusive_store k subs" and cs: "claim_store k bounds" and law: "retry_law k" and ord: "order_law k"
    and err: "set_ref_keeps k" "apierrors_laws k" "set_ref_law k"
    using sw by (simp_all add: single_writer_def)
  let ?w = "k_emit k (SleepMs 30) (snd s)" and ?S = "subs (snd s)"
  have key: "Namespace (sp_meta pool) = Namespace (sc_meta claim)" "Name (sp_meta pool) = sc_PoolRef (sc_spec claim)"
    using v4_objectsD(1) [OF v4(1) get] by (simp_all add: meta_key_def)
  obtain a kp where p: "v4_cidr (sp_CIDR (sp_spec pool)) a kp" using v4_objectsD(3) [OF v4(1) get] by blast
  have w: "subs ?w = ?S" "bounds ?w = bounds (snd s)"
    by (simp_all add: exclusive_storeD(10) [OF ex] claim_storeD(9) [OF cs])
  have ai: "alloc_inv (cidr_addrs (sp_CIDR (sp_spec pool))) (Namespace (sp_meta pool)) (Name (sp_meta pool)) (subs ?w)"
    using inv get unfolding recon_inv_def pools_disjoint_def w key by fastforce
  obtain r pool' w' where r: "allocateCIDR k claim pool allocs ?w = Some (r, pool', w')"
    and post: "alloc_post subs ?S claim pool r w'"
    using allocateCIDR_safe [OF ex err(1,2,3) ord v4_objectsD(2) [OF v4(1) get] p v4(2) _ ai, of allocs]
    unfolding w key list by blast
  have b: "bounds w' = bounds (snd s)" using allocateCIDR_bounds [OF cs r] w by simp
  have pd: "pools_disjoint k (subs w')"
    by (rule pools_disjoint_extend [OF _ v4(1) get, of ?S])
      (use inv post in \<open>auto simp: recon_inv_def alloc_post_def key\<close>)
  have inv': "recon_inv k subs bounds v" if "(subs v, bounds v) = (subs w', bounds w')" for v
    using that pd inv b post backed_mono [of ?S "bounds (snd s)" "subs w'"] by (auto simp: recon_inv_def alloc_post_def)
  have sub: "?S \<subseteq> subs w'" using post by (simp add: alloc_post_def)
  note after = after_allocation [OF sw inv']
  show ?thesis
  proof (cases r)
    case (Inr bc)
    then have "holds_cidr (subs w') (Namespace (sc_meta claim)) (snd bc)"
      using post by (auto simp: alloc_post_def holds_cidr_def split: prod.splits)
    from after(1) [OF _ this, of legacy pool' allocs "fst s"] show ?thesis
      using r Inr sub by (cases bc) (simp add: first_round_def prod_eq_iff split_pairs)
  next
    case (Inl e)
    show ?thesis using r Inl sub after(2,3) by (auto simp: first_round_def prod_eq_iff split_pairs)
  qed
qed

definition safe_run ::
    "'w kube \<Rightarrow> ('w \<Rightarrow> subnet_set) \<Rightarrow> ('w \<Rightarrow> (NamespacedName \<times> string) set) \<Rightarrow> 'w
     \<Rightarrow> ('o \<times> registry \<times> 'w) option \<Rightarrow> bool" where
  "safe_run k subs bounds w x \<longleftrightarrow>
     (\<exists>out r' w'. x = Some (out, r', w') \<and> recon_inv k subs bounds w' \<and> subs w \<subseteq> subs w')"

lemma safe_return:
  "recon_inv k subs bounds w' \<Longrightarrow> subs w' = subs w \<Longrightarrow> safe_run k subs bounds w (Some (out, r', w'))"
  by (simp add: safe_run_def)

lemma safe_status:
  assumes sw: "single_writer k subs bounds" and "recon_inv k subs bounds v" and "subs v = subs w"
    and "ph = ClaimBound \<Longrightarrow> holds_cidr (subs w) (Namespace (sc_meta claim)) c"
  shows "safe_run k subs bounds w (Some (with_reg r (updateClaimStatus k claim ph c m v)))"
proof -
  have "exclusive_store k subs" "retry_law k" using sw by (simp_all add: single_writer_def)
  then show ?thesis
    using updateClaimStatus_inv [OF sw assms(2), of ph claim c m] assms(3,4)
    by (simp add: with_reg_def safe_run_def updateClaimStatus_quiet)
qed

text \<open>A call that only reads keeps the invariant.\<close>

lemma recon_inv_cong:
  "recon_inv k subs bounds w \<Longrightarrow> subs w' = subs w \<Longrightarrow> bounds w' = bounds w \<Longrightarrow> recon_inv k subs bounds w'"
  by (simp add: recon_inv_def)

lemma allocate_for_claim_safe:
  assumes sw: "single_writer k subs bounds" and v4: "v4_objects k" "v4_request claim"
    and get: "k_get_pool k (Namespace (sc_meta claim), sc_PoolRef (sc_spec claim)) w0 = (Inr pool, w1)"
    and inv: "recon_inv k subs bounds (snd s)"
  shows "safe_run k subs bounds (snd s) (allocate_for_claim k legacy claim pool s)"
proof -
  have ex: "exclusive_store k subs" and cs: "claim_store k bounds"
    and err: "apierrors_laws k" "get_pool_law k" "set_ref_law k" using sw by (simp_all add: single_writer_def)
  obtain g v where g: "k_get_subnet k (Namespace (sc_meta claim), sc_ClusterID (sc_spec claim)) (snd s) = (g, v)" by fastforce
  have v: "subs v = subs (snd s)" "bounds v = bounds (snd s)"
    using exclusive_storeD(5) [OF ex g] claim_storeD(7) [OF cs g] .
  note ev = emit_blind [OF exclusive_blind [OF ex]] emit_blind [OF claim_blind [OF cs]]
  show ?thesis
  proof (cases g)
    case (Inr z)
    have "subnet_view z \<in> subs (snd s)" "Namespace (sn_meta z) = Namespace (sc_meta claim)"
      using exclusive_storeD(6) [OF ex g [unfolded Inr]] by (simp_all add: meta_key_def)
    then have hold: "holds_cidr (subs (snd s)) (Namespace (sc_meta claim)) (sn_CIDR (sn_spec z))"
      unfolding holds_cidr_def by (intro bexI [of _ "subnet_view z"]) (simp_all add: subnet_view_def meta_key_def)
    have "safe_run k subs bounds (snd s) (Some (with_reg (fst s) (updateClaimStatus k claim ClaimBound (sn_CIDR (sn_spec z)) ''''
        (EmitAllocationSuccess k claim (sn_CIDR (sn_spec z)) v))))"
      by (rule safe_status [OF sw recon_inv_cong [OF inv]]) (simp_all add: v hold ev)
    moreover have "safe_run k subs bounds (snd s) (Some (with_reg (fst s) (updateClaimStatus k claim ClaimError '''' m
        (EmitAllocationConflict k claim m v))))" for m
      by (rule safe_status [OF sw recon_inv_cong [OF inv]]) (simp_all add: v ev phase_defs)
    ultimately show ?thesis using g Inr by (simp add: allocate_for_claim_def Let_def)
  next
    case (Inl e)
    obtain l v2 where l: "k_list_subnets k (Namespace (sc_meta claim)) (sc_PoolRef (sc_spec claim)) v = (l, v2)" by fastforce
    have v2: "subs v2 = subs (snd s)" "bounds v2 = bounds (snd s)"
      using exclusive_storeD(1) [OF ex l] claim_storeD(5) [OF cs l] v by simp_all
    have ret: "safe_run k subs bounds (snd s) (Some ((no_requeue, Some e'), fst s, v))"
      "safe_run k subs bounds (snd s) (Some ((no_requeue, Some e'), fst s, v2))" for e'
      by (simp_all add: safe_return recon_inv_cong [OF inv] v v2)
    have "safe_run k subs bounds (snd s) (process_loop k legacy claim pool allocs 0 MaxRetries (fst s, v2))" if "l = Inr allocs" for allocs
      using first_round_safe [OF sw v4 get, of "(fst s, v2)" allocs legacy] recon_inv_cong [OF inv] v2
        exclusive_storeD(2) [OF ex l [unfolded that]] v process_loop_first [OF err, of legacy claim pool allocs 64]
      by (simp add: safe_run_def MaxRetries_def)
    then show ?thesis using g Inl l ret by (auto simp: allocate_for_claim_def Let_def split: sum.splits)
  qed
qed

lemma processClaimReconciliation_safe:
  assumes sw: "single_writer k subs bounds" and v4: "v4_objects k" "v4_request claim"
    and inv: "recon_inv k subs bounds (snd s)"
    and cell: "bound_claim claim \<Longrightarrow> claim_cell claim \<in> bounds (snd s)"
  shows "safe_run k subs bounds (snd s) (processClaimReconciliation k legacy claim s)"
proof (cases "sc_Phase (sc_status claim) = ClaimBound \<and> sc_AllocatedCIDR (sc_status claim) \<noteq> ''''")
  case True
  then have "holds_cidr (subs (snd s)) (Namespace (sc_meta claim)) (sc_AllocatedCIDR (sc_status claim))"
    using cell inv by (auto simp: recon_inv_def backed_def bound_claim_def claim_cell_def meta_key_def)
  then have "safe_run k subs bounds (snd s) (Some (with_reg (fst s)
      (updateClaimStatus k claim ClaimBound (sc_AllocatedCIDR (sc_status claim)) '''' (snd s))))"
    by (intro safe_status [OF sw inv]) simp_all
  then show ?thesis
    using True safe_return [OF inv refl, of "(no_requeue, None :: error option)" "fst s"]
    by (simp add: processClaimReconciliation_def Let_def)
next
  case False
  have ex: "exclusive_store k subs" and cs: "claim_store k bounds" using sw by (simp_all add: single_writer_def)
  let ?key = "(Namespace (sc_meta claim), sc_PoolRef (sc_spec claim))"
  obtain g v where g: "k_get_pool k ?key (snd s) = (g, v)" by fastforce
  have v: "subs v = subs (snd s)" "bounds v = bounds (snd s)"
    using exclusive_storeD(7) [OF ex g] claim_storeD(8) [OF cs g] .
  note ev = emit_blind [OF exclusive_blind [OF ex]] emit_blind [OF claim_blind [OF cs]]
  have inv_v: "recon_inv k subs bounds v" by (rule recon_inv_cong [OF inv v])
  have st: "safe_run k subs bounds (snd s) (Some (with_reg (fst s) (updateClaimStatus k claim ClaimError '''' m v)))" for m
    by (rule safe_status [OF sw inv_v v(1)]) (simp add: phase_defs)
  have sv: "safe_run k subs bounds (snd s) (Some (with_reg (fst s) (updateClaimStatus k claim ClaimError '''' m
      (recordAllocationError k claim t (EmitValidationFailed k claim m v)))))" for m t
    by (rule safe_status [OF sw recon_inv_cong [OF inv]]) (simp_all add: v ev phase_defs)
  show ?thesis
  proof (cases g)
    case (Inl e)
    then show ?thesis using False g st
      by (auto simp: processClaimReconciliation_def Let_def intro!: safe_return [OF inv_v v(1)])
  next
    case (Inr pool)
    have "safe_run k subs bounds (snd s) (allocate_for_claim k legacy claim pool (fst s, v))"
      using allocate_for_claim_safe [OF sw v4 g [unfolded Inr], of "(fst s, v)" legacy] inv_v v by (simp add: safe_run_def)
    then show ?thesis using False g Inr sv
      by (auto simp: processClaimReconciliation_def Let_def split: option.splits)
  qed
qed

lemma Claim_Reconcile_safe:
  assumes sw: "single_writer k subs bounds" and v4: "v4_objects k" and inv: "recon_inv k subs bounds (snd s)"
  shows "safe_run k subs bounds (snd s) (Claim_Reconcile k legacy req s)"
proof -
  have ex: "exclusive_store k subs" and cs: "claim_store k bounds" using sw by (simp_all add: single_writer_def)
  obtain g v where g: "k_get_claim k req (snd s) = (g, v)" by fastforce
  have v: "subs v = subs (snd s)" "bounds v = bounds (snd s)"
    using exclusive_storeD(8) [OF ex g] claim_storeD(2) [OF cs g] .
  have inv_v: "recon_inv k subs bounds v" by (rule recon_inv_cong [OF inv v])
  show ?thesis
  proof (cases g)
    case (Inl e)
    then show ?thesis using g by (simp add: Claim_Reconcile_def safe_return [OF inv_v v(1)])
  next
    case (Inr c)
    then have "safe_run k subs bounds v (processClaimReconciliation k legacy c (fst s, v))"
      using processClaimReconciliation_safe [OF sw v4 v4_objectsD(4) [OF v4 g [unfolded Inr]], of "(fst s, v)"] inv_v v
        claim_storeD(4) [OF cs g [unfolded Inr]] by simp
    then show ?thesis using g Inr v by (simp add: Claim_Reconcile_def safe_run_def)
  qed
qed

section \<open>The worker\<close>

definition claim_good ::
    "'w kube \<Rightarrow> ('w \<Rightarrow> subnet_set) \<Rightarrow> ('w \<Rightarrow> (NamespacedName \<times> string) set) \<Rightarrow> registry \<times> 'w \<Rightarrow> bool" where
  "claim_good k subs bounds s \<longleftrightarrow> single_writer k subs bounds \<and> v4_objects k \<and> recon_inv k subs bounds (snd s)"

interpretation cr: reconciler "Claim_Reconcile k legacy" "claim_good k subs bounds" "\<lambda>s t. subs (snd s) \<subseteq> subs (snd t)"
  for k legacy subs bounds
proof
  fix s q
  assume "claim_good k subs bounds s"
  then show "\<exists>out s'. Claim_Reconcile k legacy q s = Some (out, s') \<and> claim_good k subs bounds s' \<and> subs (snd s) \<subseteq> subs (snd s')"
    using Claim_Reconcile_safe [of k subs bounds s legacy q] by (auto simp: claim_good_def safe_run_def)
qed auto

section \<open>What a status update writes\<close>

lemma with_claim_status_eq:
  "with_claim_status k ph c m now latest =
     latest\<lparr>sc_status := \<lparr>sc_ObservedGeneration = Generation (sc_meta latest), sc_Phase = ph, sc_AllocatedCIDR = c,
       sc_Message = m, sc_Conditions = k_SetStatusCondition k (sc_Conditions (sc_status latest))
         (ready_condition ph c m (Generation (sc_meta latest)) now)\<rparr>\<rparr>"
  by (cases "sc_status latest") (simp add: with_claim_status_def)

lemma notfound_loop_last:
  assumes law: "retry_law k"
  shows "notfound_loop k f lastErr i (Suc n) w = (None, w') \<Longrightarrow> \<exists>w0. f w0 = (Inr (), w')"
proof (induction n arbitrary: lastErr i w)
  case 0
  let ?w0 = "if i > 0 then k_emit k (SleepMs 100) w else w"
  obtain r1 w1 where c: "k_RetryOnConflict k 5 f ?w0 = (r1, w1)" by fastforce
  then have "\<exists>w0. f w0 = (r1, w1)"
    using OnError_last_run [OF law, where I = "\<lambda>_. True" and n = 4 and f = f] by (simp add: k_RetryOnConflict_def)
  with 0 c show ?case by (cases r1) (auto simp: Let_def split: if_splits)
next
  case (Suc n)
  let ?w0 = "if i > 0 then k_emit k (SleepMs 100) w else w"
  obtain r1 w1 where c: "k_RetryOnConflict k 5 f ?w0 = (r1, w1)" by fastforce
  then have "\<exists>w0. f w0 = (r1, w1)"
    using OnError_last_run [OF law, where I = "\<lambda>_. True" and n = 4 and f = f] by (simp add: k_RetryOnConflict_def)
  with Suc.prems Suc.IH c show ?case
    by (cases r1) (auto simp: Let_def split: if_splits simp del: notfound_loop.simps(2) simp: notfound_loop.simps(2) [of k f lastErr i "Suc n"])
qed

lemma validateClaim_parses:
  assumes "validateClaim claim pool = None" and "sc_RequestedCIDR (sc_spec claim) \<noteq> ''''"
  shows "\<exists>ip n. ParseCIDR (sp_CIDR (sp_spec pool)) = Inr (ip, n)"
  using assms by (auto simp: validateClaim_def Let_def split: if_splits sum.splits)

section \<open>A concrete cluster\<close>

text \<open>The in-memory client with one pool, and claims that ask for a size.\<close>

definition demo_kube :: "store kube" where
  "demo_kube = (fixed_kube demo_pool)\<lparr>k_get_claim := (\<lambda>key w.
     (find_obj sc_meta (filter (\<lambda>c. sc_RequestedCIDR (sc_spec c) = '''') (st_claims w)) key, w))\<rparr>"

definition mem_bounds :: "store \<Rightarrow> (NamespacedName \<times> string) set" where
  "mem_bounds w = claim_cell ` {c \<in> set (st_claims w). bound_claim c}"

lemma demo_kube_claims: "claim_store demo_kube mem_bounds"
  unfolding claim_store_def
proof (intro conjI)
  show "\<forall>c w r w'. k_update_claim_status demo_kube c w = (r, w') \<longrightarrow>
      mem_bounds w' \<subseteq> mem_bounds w \<union> (if bound_claim c then {claim_cell c} else {})"
    by (auto simp: demo_kube_def fixed_kube_def mem_kube_def mem_bounds_def put_status_def claim_cell_def bound_claim_def)
  show "\<forall>key w r w'. k_get_claim demo_kube key w = (r, w') \<longrightarrow> mem_bounds w' = mem_bounds w
      \<and> (\<forall>c. r = Inr c \<longrightarrow> meta_key (sc_meta c) = key \<and> (bound_claim c \<longrightarrow> claim_cell c \<in> mem_bounds w))"
    by (auto simp: demo_kube_def mem_bounds_def dest!: find_obj_Inr)
qed (auto simp: demo_kube_def fixed_kube_def mem_kube_def mem_bounds_def create_obj_def split: if_splits)

lemma demo_kube_single_writer: "single_writer demo_kube (\<lambda>w. subnet_view ` set (st_subnets w)) mem_bounds"
proof -
  note l = fixed_kube_laws [of demo_pool]
  have "exclusive_store demo_kube (\<lambda>w. subnet_view ` set (st_subnets w))"
    using l(8) by (simp add: demo_kube_def exclusive_store_def)
  moreover have "retry_law demo_kube"
    by (auto simp: retry_law_def demo_kube_def fixed_kube_def mem_kube_def split: prod.splits sum.splits)
  ultimately show ?thesis
    using l(1-5) demo_kube_claims
    by (simp add: single_writer_def demo_kube_def apierrors_laws_def get_pool_law_def set_ref_law_def set_ref_keeps_def order_law_def)
qed

lemma demo_kube_v4: "v4_objects demo_kube"
proof -
  have "k_get_pool demo_kube key w = (Inr p, w') \<Longrightarrow> p = demo_pool \<and> key = meta_key (sp_meta demo_pool)" for key w p w'
    by (auto simp: demo_kube_def fixed_kube_def find_obj_def split: if_splits)
  moreover have "pool_stable demo_kube demo_pool"
    using fixed_kube_laws(7) [of demo_pool] by (simp add: demo_kube_def pool_stable_def)
  moreover have "v4_cidr (sp_CIDR (sp_spec demo_pool)) 167772160 24" using demo_texts(1) by (simp add: demo_pool_def)
  moreover have "v4_request c" if "k_get_claim demo_kube key w = (Inr c, w')" for key w c w'
    using that by (auto simp: demo_kube_def v4_request_def dest!: find_obj_Inr)
  ultimately show ?thesis unfolding v4_objects_def by blast
qed

section \<open>Properties\<close>



text \<open>
  C18. When \<open>updateClaimStatus\<close> returns no error and the wanted status differs from the one it
  was given, its last call was a status update that succeeded, of an object read just
  before: that object with the wanted phase, CIDR and message, its own generation as the
  observed one and a Ready condition for the phase, and nothing else changed.
\<close>

theorem updateClaimStatus_writes_latest:
  assumes "retry_law k" and "updateClaimStatus k claim ph c m w = ((res, None), w')"
    and "(sc_Phase (sc_status claim), sc_AllocatedCIDR (sc_status claim), sc_Message (sc_status claim)) \<noteq> (ph, c, m)"
  shows "\<exists>w0 latest w1. k_get_claim k (Namespace (sc_meta claim), Name (sc_meta claim)) w0 = (Inr latest, w1)
    \<and> k_update_claim_status k (latest\<lparr>sc_status := \<lparr>sc_ObservedGeneration = Generation (sc_meta latest),
         sc_Phase = ph, sc_AllocatedCIDR = c, sc_Message = m,
         sc_Conditions = k_SetStatusCondition k (sc_Conditions (sc_status latest))
           (ready_condition ph c m (Generation (sc_meta latest)) (k_now k w1))\<rparr>\<rparr>) w1 = (Inr (), w')"
proof -
  have "notfound_loop k (update_claim_once k claim ph c m) None 0 (Suc NotFoundRetryMax) w = (None, w')"
    using assms(2,3) by (auto simp: updateClaimStatus_def split: prod.splits option.splits if_splits simp del: notfound_loop.simps)
  from notfound_loop_last [OF assms(1) this] obtain w0 where "update_claim_once k claim ph c m w0 = (Inr (), w')" by blast
  then obtain latest w1 where
    "k_get_claim k (Namespace (sc_meta claim), Name (sc_meta claim)) w0 = (Inr latest, w1)"
    "k_update_claim_status k (with_claim_status k ph c m (k_now k w1) latest) w1 = (Inr (), w')"
    by (auto simp: update_claim_once_def split: prod.splits sum.splits)
  then show ?thesis unfolding with_claim_status_eq by blast
qed

theorem updateClaimStatus_writes_latest_witness:
  "\<exists>w0 latest w1 w'. k_get_claim mem_kube (''ns'', ''c1'') w0 = (Inr latest, w1)
    \<and> k_update_claim_status mem_kube (latest\<lparr>sc_status := \<lparr>sc_ObservedGeneration = Generation (sc_meta latest),
         sc_Phase = ClaimError, sc_AllocatedCIDR = '''', sc_Message = ''m'',
         sc_Conditions = k_SetStatusCondition mem_kube (sc_Conditions (sc_status latest))
           (ready_condition ClaimError '''' ''m'' (Generation (sc_meta latest)) (k_now mem_kube w1))\<rparr>\<rparr>) w1 = (Inr (), w')"
proof -
  let ?w = "empty_store\<lparr>st_claims := [demo_claim ''c1'' 26]\<rparr>"
  have "\<exists>res w'. updateClaimStatus mem_kube (demo_claim ''c1'' 26) ClaimError '''' ''m'' ?w = ((res, None), w')"
    by (simp add: updateClaimStatus_def update_claim_once_def k_RetryOnConflict_def mem_kube_def demo_claim_def
        empty_store_def find_obj_def meta_key_def phase_defs numeral_eq_Suc Let_def)
  then obtain res w' where u: "updateClaimStatus mem_kube (demo_claim ''c1'' 26) ClaimError '''' ''m'' ?w = ((res, None), w')"
    by blast
  have n: "Namespace (sc_meta (demo_claim ''c1'' 26)) = ''ns''" "Name (sc_meta (demo_claim ''c1'' 26)) = ''c1''"
    by (simp_all add: demo_claim_def)
  have "(sc_Phase (sc_status (demo_claim ''c1'' 26)), sc_AllocatedCIDR (sc_status (demo_claim ''c1'' 26)),
      sc_Message (sc_status (demo_claim ''c1'' 26))) \<noteq> (ClaimError, '''', ''m'')" by (simp add: demo_claim_def)
  from updateClaimStatus_writes_latest [OF mem_kube_retry u this] show ?thesis unfolding n by blast
qed

text \<open>
  C22. The allocation loop of the reconciler makes one round: with the documented behaviour of
  the libraries, the 65 rounds it allows give the result of a single one, since the
  allocator never reports a conflict and never returns without an allocation or an error.
\<close>

theorem process_loop_one_round:
  assumes "apierrors_laws k" and "get_pool_law k" and "set_ref_law k"
  shows "process_loop k legacy claim pool allocs 0 MaxRetries s = process_loop k legacy claim pool allocs 0 1 s"
  using process_loop_first [OF assms, of legacy claim pool allocs 64 s] process_loop_first [OF assms, of legacy claim pool allocs 0 s]
  by (simp add: MaxRetries_def)

theorem process_loop_one_round_witness:
  "process_loop mem_kube False (demo_claim ''c1'' 26) demo_pool [] 0 MaxRetries (\<lambda>_. None, empty_store)
     = process_loop mem_kube False (demo_claim ''c1'' 26) demo_pool [] 0 1 (\<lambda>_. None, empty_store)"
  by (rule process_loop_one_round [OF mem_kube_apierrors mem_kube_get_pool mem_kube_set_ref])

text \<open>
  A claim that is Bound to a CIDR without a message is left alone by a reconciliation: no call
  is made. This holds for a new generation too, so the observed generation, which the
  branch for that case is there to update, stays behind.
\<close>

lemma bound_claim_untouched:
  assumes "sc_Phase (sc_status claim) = ClaimBound" and "sc_AllocatedCIDR (sc_status claim) \<noteq> ''''"
    and "sc_Message (sc_status claim) = ''''"
  shows "processClaimReconciliation k legacy claim s = Some ((no_requeue, None), s)"
  using assms by (simp add: processClaimReconciliation_def updateClaimStatus_def with_reg_def Let_def)

text \<open>
  A claim that passes \<open>validateClaim\<close> cannot make the allocator dereference a nil network:
  the selection on the pool it was validated against does not panic, for any texts, IPv6
  included.
\<close>

lemma validated_claim_no_panic:
  assumes "validateClaim claim pool = None"
  shows "selectCandidateCIDR order claim pool used existing \<noteq> None"
proof (cases "sc_RequestedCIDR (sc_spec claim) = ''''")
  case True
  then show ?thesis by (auto simp: selectCandidateCIDR_def Let_def split: sum.splits)
next
  case False
  with validateClaim_parses [OF assms] show ?thesis
    by (auto simp: selectCandidateCIDR_def validateRequestedCIDR_def split: sum.splits option.splits)
qed


end
