(* ===== verification/Subnet_Controller.thy ===== *)
theory Subnet_Controller
  imports Metrics
begin

text \<open>
  \<^verbatim>\<open>internal/controller/subnet_controller.go\<close> and
  \<^verbatim>\<open>statusutil/subnet_status_patch.go\<close>: the reconciliation of a Subnet sets its
  phase, through a status patch that is retried on conflicts. A mutate function takes the
  current time, which the source reads inside it. The phases form a state machine,
  \<open>phase_step\<close>; the reconciler is shown to follow it.
\<close>

section \<open>Status patch\<close>

definition equalSubnetStatus :: "SubnetStatus \<Rightarrow> SubnetStatus \<Rightarrow> bool" where
  "equalSubnetStatus old new =
     (if sn_Phase old \<noteq> sn_Phase new then False
      else case (sn_AllocatedAt old, sn_AllocatedAt new) of
        (None, None) \<Rightarrow> True | (None, Some _) \<Rightarrow> False | (Some _, None) \<Rightarrow> False | (Some a, Some b) \<Rightarrow> a = b)"

text \<open>The two metrics of a status update.\<close>

definition recordSubnetStatusUpdate :: "'w kube \<Rightarrow> string \<Rightarrow> 'w \<Rightarrow> 'w" where
  "recordSubnetStatusUpdate k res w =
     k_emit k (HistogramObserve ''SubnetStatusUpdateLatency'' [res])
       (k_emit k (CounterInc ''SubnetStatusUpdateTotal'' [res]) w)"

text \<open>The function that is retried.\<close>

definition patch_once ::
    "'w kube \<Rightarrow> Subnet \<Rightarrow> (int \<Rightarrow> SubnetStatus \<Rightarrow> SubnetStatus) \<Rightarrow> 'w \<Rightarrow> (error, unit) result \<times> 'w" where
  "patch_once k sub mutate w =
     (case k_get_subnet k (Namespace (sn_meta sub), Name (sn_meta sub)) w of
        (Inl err, w1) \<Rightarrow>
          if k_IsNotFound k err then (Inr (), recordSubnetStatusUpdate k ''skipped_deleted'' w1) else (Inl err, w1)
      | (Inr baseForMerge, w1) \<Rightarrow>
          let oldStatus = sn_status baseForMerge;
              currentSubnet = baseForMerge\<lparr>sn_status := mutate (k_now k w1) oldStatus\<rparr>
          in if DeletionTimestamp (sn_meta currentSubnet) \<noteq> None
             then (Inr (), recordSubnetStatusUpdate k ''skipped_deleting'' w1)
             else if equalSubnetStatus oldStatus (sn_status currentSubnet)
             then (Inr (), recordSubnetStatusUpdate k ''unchanged'' w1)
             else (case k_patch_subnet_status k baseForMerge currentSubnet w1 of
                     (Inl err, w2) \<Rightarrow>
                       if k_IsNotFound k err then (Inr (), recordSubnetStatusUpdate k ''skipped_deleted'' w2)
                       else (Inl err, w2)
                   | (Inr _, w2) \<Rightarrow> (Inr (), recordSubnetStatusUpdate k ''success'' w2)))"

definition PatchSubnetStatus ::
    "'w kube \<Rightarrow> Subnet \<Rightarrow> (int \<Rightarrow> SubnetStatus \<Rightarrow> SubnetStatus) \<Rightarrow> 'w \<Rightarrow> error option \<times> 'w" where
  "PatchSubnetStatus k sub mutate w =
     (let f = patch_once k sub mutate; steps = 5 + 1;
          actualRetries = int (k_OnError_runs k steps (k_IsConflict k) f w) - 1
      in case k_OnError k steps (k_IsConflict k) f w of
           (finalError, w1) \<Rightarrow>
             let w2 = (if actualRetries > 0 then k_emit k (CounterInc ''SubnetStatusRetryTotal'' [Itoa actualRetries]) w1 else w1)
             in case finalError of
                  Inl e \<Rightarrow> (Some e, recordSubnetStatusUpdate k ''error'' w2)
                | Inr _ \<Rightarrow> (None, w2))"

section \<open>Reconciliation\<close>

text \<open>The mutate function of \<open>updateSubnetPhase\<close>.\<close>

definition set_phase :: "string \<Rightarrow> int \<Rightarrow> SubnetStatus \<Rightarrow> SubnetStatus" where
  "set_phase phase now status =
     (let status = (if sn_Phase status \<noteq> phase then status\<lparr>sn_Phase := phase\<rparr> else status)
      in if phase = SubnetPhaseAllocated \<and> sn_AllocatedAt status = None
         then status\<lparr>sn_AllocatedAt := Some now\<rparr> else status)"

definition updateSubnetPhase :: "'w kube \<Rightarrow> Subnet \<Rightarrow> string \<Rightarrow> 'w \<Rightarrow> error option \<times> 'w" where
  "updateSubnetPhase k subnet phase = PatchSubnetStatus k subnet (set_phase phase)"

definition updateSubnetStatus :: "'w kube \<Rightarrow> Subnet \<Rightarrow> string \<Rightarrow> 'w \<Rightarrow> error option \<times> 'w" where
  "updateSubnetStatus k subnet phase = updateSubnetPhase k subnet phase"

text \<open>Steps 2 and 3: the reference to the parent pool and its existence.\<close>

definition check_parent :: "'w kube \<Rightarrow> Subnet \<Rightarrow> 'w \<Rightarrow> (Result \<times> error option) \<times> 'w" where
  "check_parent k allocation w =
     (if sn_PoolRef (sn_spec allocation) = ''''
      then ((no_requeue, None), snd (updateSubnetPhase k allocation SubnetPhaseFailed w))
      else case k_get_pool k (Namespace (sn_meta allocation), sn_PoolRef (sn_spec allocation)) w of
        (Inl err, w1) \<Rightarrow> ((no_requeue, Some err), snd (updateSubnetPhase k allocation SubnetPhaseFailed w1))
      | (Inr _, w1) \<Rightarrow> ((no_requeue, None), w1))"

definition Subnet_Reconcile :: "'w kube \<Rightarrow> NamespacedName \<Rightarrow> 'w \<Rightarrow> (Result \<times> error option) \<times> 'w" where
  "Subnet_Reconcile k req w =
     (case k_get_subnet k req w of
        (Inl err, w1) \<Rightarrow> ((no_requeue, if k_IsNotFound k err then None else Some err), w1)
      | (Inr allocation, w1) \<Rightarrow>
          if sn_Phase (sn_status allocation) = '''' then
            (case updateSubnetPhase k allocation SubnetPhaseAllocated w1 of
               (Some err, w2) \<Rightarrow> ((no_requeue, if k_IsNotFound k err then None else Some err), w2)
             | (None, w2) \<Rightarrow> check_parent k allocation w2)
          else check_parent k allocation w1)"

section \<open>Mappers\<close>

definition enqueueParentPool :: "string \<Rightarrow> string \<Rightarrow> NamespacedName list" where
  "enqueueParentPool ns name = [(ns, name)]"

text \<open>The event type is only a metrics label. \<open>None\<close>: the object is not a Subnet.\<close>

definition mapSubnetToParentPool :: "'w kube \<Rightarrow> Subnet option \<Rightarrow> 'w \<Rightarrow> NamespacedName list \<times> 'w" where
  "mapSubnetToParentPool k obj w =
     (case obj of
        None \<Rightarrow> ([], w)
      | Some subnet \<Rightarrow>
          if sn_PoolRef (sn_spec subnet) = '''' then ([], w)
          else
            let eventType = (if DeletionTimestamp (sn_meta subnet) \<noteq> None then ''delete''
                             else if Generation (sn_meta subnet) = 1 then ''create'' else ''update'')
            in (enqueueParentPool (Namespace (sn_meta subnet)) (sn_PoolRef (sn_spec subnet)),
                RecordParentPoolRequeue k eventType w))"

definition mapPoolToSubnets :: "'w kube \<Rightarrow> SubnetPool option \<Rightarrow> 'w \<Rightarrow> NamespacedName list \<times> 'w" where
  "mapPoolToSubnets k obj w =
     (case obj of
        None \<Rightarrow> ([], w)
      | Some pool \<Rightarrow>
          (case k_list_subnets k (Namespace (sp_meta pool)) (Name (sp_meta pool)) w of
             (Inl _, w1) \<Rightarrow> ([], w1)
           | (Inr items, w1) \<Rightarrow> (map (\<lambda>a. (Namespace (sn_meta a), Name (sn_meta a))) items, w1)))"

section \<open>The phases as a state machine\<close>

inductive phase_step :: "SubnetStatus \<Rightarrow> SubnetStatus \<Rightarrow> bool" where
  allocate: "sn_Phase st = '''' \<Longrightarrow>
    phase_step st (st\<lparr>sn_Phase := SubnetPhaseAllocated,
      sn_AllocatedAt := Some (case sn_AllocatedAt st of None \<Rightarrow> now | Some t \<Rightarrow> t)\<rparr>)"
| fail: "phase_step st (st\<lparr>sn_Phase := SubnetPhaseFailed\<rparr>)"

inductive_cases phase_stepE: "phase_step st st'"
inductive_simps phase_step_simps: "phase_step st st'"

lemma equalSubnetStatus_iff: "equalSubnetStatus a b \<longleftrightarrow> sn_Phase a = sn_Phase b \<and> sn_AllocatedAt a = sn_AllocatedAt b"
  by (simp add: equalSubnetStatus_def split: option.splits)

lemma equalSubnetStatus_eq: "equalSubnetStatus (a :: SubnetStatus) b \<longleftrightarrow> a = b"
  by (cases a; cases b) (simp add: equalSubnetStatus_iff)

text \<open>Applying the mutate function a second time changes nothing, at any later time.\<close>

lemma set_phase_idem: "set_phase p t2 (set_phase p t1 st) = set_phase p t1 st"
  by (auto simp: set_phase_def Let_def)

lemma set_phase_allocate: "sn_Phase st = '''' \<Longrightarrow> phase_step st (set_phase SubnetPhaseAllocated t st)"
proof -
  assume p: "sn_Phase st = ''''"
  have "set_phase SubnetPhaseAllocated t st = st\<lparr>sn_Phase := SubnetPhaseAllocated,
      sn_AllocatedAt := Some (case sn_AllocatedAt st of None \<Rightarrow> t | Some t \<Rightarrow> t)\<rparr>"
    using p by (cases st) (auto simp: set_phase_def phase_defs split: option.splits)
  then show ?thesis using allocate [OF p, of t] by simp
qed

lemma set_phase_fail: "phase_step st (set_phase SubnetPhaseFailed t st)"
proof -
  have "set_phase SubnetPhaseFailed t st = st\<lparr>sn_Phase := SubnetPhaseFailed\<rparr>"
    by (cases st) (auto simp: set_phase_def phase_defs)
  then show ?thesis using fail [of st] by simp
qed

lemma phase_failed_final: "phase_step\<^sup>*\<^sup>* st st' \<Longrightarrow> sn_Phase st = SubnetPhaseFailed \<Longrightarrow> sn_Phase st' = SubnetPhaseFailed"
  by (induction rule: rtranclp_induct) (auto elim!: phase_stepE simp: phase_defs)

lemma phase_allocatedAt_kept: "phase_step\<^sup>*\<^sup>* st st' \<Longrightarrow> sn_AllocatedAt st = Some t \<Longrightarrow> sn_AllocatedAt st' = Some t"
  by (induction rule: rtranclp_induct) (auto elim!: phase_stepE)

lemma phase_never_cleared: "phase_step\<^sup>*\<^sup>* st st' \<Longrightarrow> sn_Phase st \<noteq> '''' \<Longrightarrow> sn_Phase st' \<noteq> ''''"
  by (induction rule: rtranclp_induct) (auto elim!: phase_stepE simp: phase_defs)

section \<open>The reconciler follows the machine\<close>

text \<open>
  The API server seen by a single writer of Subnet statuses: \<open>Get\<close> returns the stored
  status, a successful patch stores the one it carries, a failed one and the other calls
  leave all statuses alone.
\<close>

definition status_store :: "'w kube \<Rightarrow> ('w \<Rightarrow> NamespacedName \<rightharpoonup> SubnetStatus) \<Rightarrow> bool" where
  "status_store k sts \<longleftrightarrow>
     (\<forall>key w r w'. k_get_subnet k key w = (r, w') \<longrightarrow> sts w' = sts w
        \<and> (\<forall>s. r = Inr s \<longrightarrow> meta_key (sn_meta s) = key \<and> sts w key = Some (sn_status s)))
     \<and> (\<forall>b s w e w'. k_patch_subnet_status k b s w = (Inl e, w') \<longrightarrow> sts w' = sts w)
     \<and> (\<forall>b s w u w'. k_patch_subnet_status k b s w = (Inr u, w') \<longrightarrow>
          sts w' = (if meta_key (sn_meta s) \<in> dom (sts w) then (sts w)(meta_key (sn_meta s) \<mapsto> sn_status s) else sts w))
     \<and> (\<forall>key w r w'. k_get_pool k key w = (r, w') \<longrightarrow> sts w' = sts w)
     \<and> (\<forall>e w. sts (k_emit k e w) = sts w)"

lemma status_storeD:
  assumes "status_store k sts"
  shows "k_get_subnet k key w = (r, w') \<Longrightarrow> sts w' = sts w"
    and "k_get_subnet k key w = (Inr s, w') \<Longrightarrow> meta_key (sn_meta s) = key"
    and "k_get_subnet k key w = (Inr s, w') \<Longrightarrow> sts w key = Some (sn_status s)"
    and "k_patch_subnet_status k b s w = (Inl e, w') \<Longrightarrow> sts w' = sts w"
    and "k_patch_subnet_status k b s w = (Inr u, w') \<Longrightarrow> sts w (meta_key (sn_meta s)) = Some st \<Longrightarrow>
      sts w' = (sts w)(meta_key (sn_meta s) \<mapsto> sn_status s)"
    and "k_get_pool k key w = (rp, w') \<Longrightarrow> sts w' = sts w"
    and "sts (k_emit k ef w) = sts w"
    and "sts (recordSubnetStatusUpdate k res w) = sts w"
proof -
  note a = assms [unfolded status_store_def]
  show "k_get_subnet k key w = (r, w') \<Longrightarrow> sts w' = sts w"
    and "k_get_subnet k key w = (Inr s, w') \<Longrightarrow> meta_key (sn_meta s) = key"
    and "k_get_subnet k key w = (Inr s, w') \<Longrightarrow> sts w key = Some (sn_status s)"
    using conjunct1 [OF a] by blast+
  note a = conjunct2 [OF a]
  show "k_patch_subnet_status k b s w = (Inl e, w') \<Longrightarrow> sts w' = sts w" using conjunct1 [OF a] by blast
  note a = conjunct2 [OF a]
  show "k_patch_subnet_status k b s w = (Inr u, w') \<Longrightarrow> sts w (meta_key (sn_meta s)) = Some st \<Longrightarrow>
      sts w' = (sts w)(meta_key (sn_meta s) \<mapsto> sn_status s)"
    using conjunct1 [OF a] by (metis domI)
  note a = conjunct2 [OF a]
  show "k_get_pool k key w = (rp, w') \<Longrightarrow> sts w' = sts w" using conjunct1 [OF a] by blast
  note a = conjunct2 [OF a]
  show "sts (k_emit k ef w) = sts w" "sts (recordSubnetStatusUpdate k res w) = sts w"
    using a by (simp_all add: recordSubnetStatusUpdate_def)
qed

text \<open>What runs of the patch function can have done since the statuses were \<open>m\<close>.\<close>

definition patched :: "NamespacedName \<Rightarrow> string \<Rightarrow> (NamespacedName \<rightharpoonup> SubnetStatus) \<Rightarrow> (NamespacedName \<rightharpoonup> SubnetStatus) \<Rightarrow> bool" where
  "patched key ph m m' \<longleftrightarrow> m' = m \<or> (\<exists>t st. m key = Some st \<and> m' = m(key \<mapsto> set_phase ph t st))"

lemma patch_once_patched:
  assumes ss: "status_store k sts" and p: "patched (meta_key (sn_meta sub)) ph m (sts w)"
    and r: "patch_once k sub (set_phase ph) w = (r, w')"
  shows "patched (meta_key (sn_meta sub)) ph m (sts w')"
proof -
  let ?key = "meta_key (sn_meta sub)"
  obtain g w1 where g: "k_get_subnet k ?key w = (g, w1)" by fastforce
  have s1: "sts w1 = sts w" by (rule status_storeD(1) [OF ss g])
  show ?thesis
  proof (cases g)
    case (Inl e)
    then show ?thesis using r g s1 p status_storeD(8) [OF ss]
      by (auto simp: patch_once_def meta_key_def split: if_splits)
  next
    case (Inr b)
    have key: "meta_key (sn_meta b) = ?key" and st: "sts w ?key = Some (sn_status b)"
      using status_storeD(2,3) [OF ss g [unfolded Inr]] .
    let ?new = "set_phase ph (k_now k w1) (sn_status b)" and ?s = "b\<lparr>sn_status := set_phase ph (k_now k w1) (sn_status b)\<rparr>"
    have new: "patched ?key ph m ((sts w)(?key \<mapsto> ?new))"
    proof (cases "sts w = m")
      case True
      then show ?thesis using st by (auto simp: patched_def)
    next
      case False
      then obtain t st0 where t: "m ?key = Some st0" "sts w = m(?key \<mapsto> set_phase ph t st0)"
        using p by (auto simp: patched_def)
      then have "sn_status b = set_phase ph t st0" using st by simp
      then have "(sts w)(?key \<mapsto> ?new) = sts w" using st by (simp add: set_phase_idem fun_upd_idem)
      then show ?thesis using p by simp
    qed
    obtain q w2 where q: "k_patch_subnet_status k b ?s w1 = (q, w2)" by fastforce
    have "sts w2 = sts w \<or> sts w2 = (sts w)(?key \<mapsto> ?new)"
    proof (cases q)
      case (Inl e)
      then show ?thesis using status_storeD(4) [OF ss q [unfolded Inl]] s1 by simp
    next
      case (Inr u)
      show ?thesis using status_storeD(5) [OF ss q [unfolded Inr], of "sn_status b"] key st s1 by simp
    qed
    then have p2: "patched ?key ph m (sts w2)" using new p by auto
    show ?thesis
      using r g Inr q p2 p s1 status_storeD(8) [OF ss]
      by (auto simp: patch_once_def meta_key_def Let_def split: if_splits sum.splits)
  qed
qed

lemma updateSubnetPhase_patched:
  assumes ss: "status_store k sts" and law: "retry_law k"
  shows "patched (meta_key (sn_meta sub)) ph (sts w) (sts (snd (updateSubnetPhase k sub ph w)))"
proof -
  let ?f = "patch_once k sub (set_phase ph)" and ?P = "\<lambda>v. patched (meta_key (sn_meta sub)) ph (sts w) (sts v)"
  obtain r w1 where r: "k_OnError k (Suc 5) (k_IsConflict k) ?f w = (r, w1)" by fastforce
  have "?P w1"
    by (rule OnError_invariant [where I = ?P, OF law _ _ r])
      (use patch_once_patched [OF ss] status_storeD(7) [OF ss] in \<open>auto simp: patched_def [of _ _ "sts w" "sts w"]\<close>)
  then show ?thesis
    using r status_storeD(7,8) [OF ss]
    by (cases r) (auto simp: updateSubnetPhase_def PatchSubnetStatus_def Let_def)
qed

text \<open>
  The abstract step: of all stored statuses only that of \<open>req\<close> may change, and it changes
  along the machine.
\<close>

definition evolves :: "NamespacedName \<Rightarrow> (NamespacedName \<rightharpoonup> SubnetStatus) \<Rightarrow> (NamespacedName \<rightharpoonup> SubnetStatus) \<Rightarrow> bool" where
  "evolves req m m' \<longleftrightarrow> (\<forall>key. key \<noteq> req \<longrightarrow> m' key = m key)
     \<and> (case (m req, m' req) of
          (None, None) \<Rightarrow> True | (Some st, Some st') \<Rightarrow> phase_step\<^sup>*\<^sup>* st st' | _ \<Rightarrow> False)"

lemma evolves_refl: "evolves req m m"
  by (simp add: evolves_def split: option.splits)

lemma evolves_trans: "evolves req m m' \<Longrightarrow> evolves req m' m'' \<Longrightarrow> evolves req m m''"
  unfolding evolves_def by (auto split: option.splits intro: rtranclp_trans)

lemma patched_evolves:
  assumes "patched req ph m m'"
    and "ph = SubnetPhaseFailed \<or> ph = SubnetPhaseAllocated \<and> (\<forall>st. m req = Some st \<longrightarrow> sn_Phase st = '''')"
  shows "evolves req m m'"
proof (cases "m' = m")
  case False
  then obtain t st where m': "m req = Some st" "m' = m(req \<mapsto> set_phase ph t st)"
    using assms(1) by (auto simp: patched_def)
  have "phase_step st (set_phase ph t st)"
    using assms(2) m'(1) set_phase_fail [of st t] set_phase_allocate [of st t] by auto
  then show ?thesis using m' by (simp add: evolves_def)
qed (simp add: evolves_refl)

lemma check_parent_evolves:
  assumes ss: "status_store k sts" and law: "retry_law k"
  shows "evolves (meta_key (sn_meta a)) (sts w) (sts (snd (check_parent k a w)))"
proof -
  have f: "evolves (meta_key (sn_meta a)) (sts v) (sts (snd (updateSubnetPhase k a SubnetPhaseFailed v)))" for v
    by (rule patched_evolves [OF updateSubnetPhase_patched [OF ss law]]) simp
  obtain g w1 where g: "k_get_pool k (Namespace (sn_meta a), sn_PoolRef (sn_spec a)) w = (g, w1)" by fastforce
  have "sts w1 = sts w" by (rule status_storeD(6) [OF ss g])
  then show ?thesis using f [of w] f [of w1] g
    by (cases g) (auto simp: check_parent_def evolves_refl)
qed

lemma Subnet_Reconcile_evolves:
  assumes ss: "status_store k sts" and law: "retry_law k"
  shows "evolves req (sts w) (sts (snd (Subnet_Reconcile k req w)))"
proof -
  obtain g w1 where g: "k_get_subnet k req w = (g, w1)" by fastforce
  have s1: "sts w1 = sts w" by (rule status_storeD(1) [OF ss g])
  show ?thesis
  proof (cases g)
    case (Inl e)
    then show ?thesis using g s1 by (simp add: Subnet_Reconcile_def evolves_refl)
  next
    case (Inr a)
    have key: "meta_key (sn_meta a) = req" and st: "sts w req = Some (sn_status a)"
      using status_storeD(2,3) [OF ss g [unfolded Inr]] .
    have c: "evolves req (sts v) (sts (snd (check_parent k a v)))" for v
      using check_parent_evolves [OF ss law, of a v] key by simp
    obtain e w2 where u: "updateSubnetPhase k a SubnetPhaseAllocated w1 = (e, w2)" by fastforce
    have "evolves req (sts w) (sts w2)" if "sn_Phase (sn_status a) = ''''"
      using patched_evolves [OF updateSubnetPhase_patched [OF ss law, of a SubnetPhaseAllocated w1]] u key s1 st that by simp
    then show ?thesis
      using g Inr u c [of w1] c [of w2] s1 evolves_trans [of req "sts w" "sts w2"]
      by (cases e) (auto simp: Subnet_Reconcile_def)
  qed
qed

section \<open>What a successful reconciliation leaves\<close>

text \<open>The Subnet stays: no call reports it missing, no read shows it being deleted.\<close>

definition stays :: "'w kube \<Rightarrow> NamespacedName \<Rightarrow> bool" where
  "stays k key \<longleftrightarrow>
     (\<forall>w e w'. k_get_subnet k key w = (Inl e, w') \<longrightarrow> \<not> k_IsNotFound k e)
     \<and> (\<forall>w s w'. k_get_subnet k key w = (Inr s, w') \<longrightarrow> DeletionTimestamp (sn_meta s) = None)
     \<and> (\<forall>b s w e w'. meta_key (sn_meta s) = key \<longrightarrow> k_patch_subnet_status k b s w = (Inl e, w') \<longrightarrow> \<not> k_IsNotFound k e)"

lemma patch_once_done:
  assumes ss: "status_store k sts" and stay: "stays k (meta_key (sn_meta sub))"
    and r: "patch_once k sub (set_phase ph) w = (Inr (), w')"
  shows "\<exists>st t. sts w (meta_key (sn_meta sub)) = Some st \<and> sts w' (meta_key (sn_meta sub)) = Some (set_phase ph t st)"
proof -
  let ?key = "meta_key (sn_meta sub)"
  obtain g w1 where g: "k_get_subnet k ?key w = (g, w1)" by fastforce
  have s1: "sts w1 = sts w" by (rule status_storeD(1) [OF ss g])
  obtain b where b: "g = Inr b"
    using r g stay by (cases g) (auto simp: patch_once_def meta_key_def stays_def split: if_splits)
  have key: "meta_key (sn_meta b) = ?key" and st: "sts w ?key = Some (sn_status b)"
    using status_storeD(2,3) [OF ss g [unfolded b]] .
  have dt: "DeletionTimestamp (sn_meta b) = None" using stay g b unfolding stays_def by blast
  let ?new = "set_phase ph (k_now k w1) (sn_status b)"
  obtain q w2 where q: "k_patch_subnet_status k b (b\<lparr>sn_status := ?new\<rparr>) w1 = (q, w2)" by fastforce
  have "\<not> k_IsNotFound k e" if "q = Inl e" for e
    using stay q key that unfolding stays_def by (metis Subnet.select_convs(1) Subnet.surjective Subnet.update_convs(3))
  moreover have "sts w2 = (sts w)(?key \<mapsto> ?new)" if "q = Inr u" for u
    using status_storeD(5) [OF ss q [unfolded that], of "sn_status b"] key st s1 by simp
  ultimately have "sts w' ?key = Some ?new"
    using r g b q dt st s1 status_storeD(8) [OF ss]
    by (auto simp: patch_once_def meta_key_def Let_def equalSubnetStatus_eq split: if_splits sum.splits)
  with st show ?thesis by blast
qed

lemma updateSubnetPhase_done:
  assumes ss: "status_store k sts" and law: "retry_law k" and stay: "stays k (meta_key (sn_meta sub))"
    and u: "updateSubnetPhase k sub ph w = (None, w')"
  shows "\<exists>st t. sts w' (meta_key (sn_meta sub)) = Some (set_phase ph t st)"
proof -
  let ?f = "patch_once k sub (set_phase ph)"
  obtain r w1 where r: "k_OnError k (Suc 5) (k_IsConflict k) ?f w = (r, w1)" by fastforce
  have r1: "r = Inr ()" "sts w' = sts w1"
    using u r status_storeD(7,8) [OF ss]
    by (cases r; auto simp: updateSubnetPhase_def PatchSubnetStatus_def Let_def)+
  obtain w0 where "?f w0 = (Inr (), w1)"
    using OnError_last_run [OF law, where I = "\<lambda>_. True" and f = ?f] r r1 by blast
  from patch_once_done [OF ss stay this] show ?thesis using r1(2) by auto
qed

lemma patch_once_not_NotFound: "patch_once k sub f w = (Inl e, w') \<Longrightarrow> \<not> k_IsNotFound k e"
  by (auto simp: patch_once_def Let_def split: prod.splits sum.splits if_splits)

lemma updateSubnetPhase_not_NotFound:
  assumes law: "retry_law k" and u: "updateSubnetPhase k sub ph w = (Some e, w')"
  shows "\<not> k_IsNotFound k e"
proof -
  let ?f = "patch_once k sub (set_phase ph)"
  obtain r w1 where r: "k_OnError k (Suc 5) (k_IsConflict k) ?f w = (r, w1)" by fastforce
  have "r = Inl e" using u r by (cases r) (auto simp: updateSubnetPhase_def PatchSubnetStatus_def Let_def)
  then obtain w0 where "?f w0 = (Inl e, w1)"
    using OnError_last_run [OF law, where I = "\<lambda>_. True" and f = ?f] r by blast
  then show ?thesis by (rule patch_once_not_NotFound)
qed

lemma set_phase_allocated:
  "\<exists>t'. set_phase SubnetPhaseAllocated t st = \<lparr>sn_Phase = SubnetPhaseAllocated, sn_AllocatedAt = Some t'\<rparr>"
  by (cases st) (auto simp: set_phase_def Let_def)

section \<open>The worker\<close>

definition subnet_good :: "'w kube \<Rightarrow> ('w \<Rightarrow> NamespacedName \<rightharpoonup> SubnetStatus) \<Rightarrow> 'w \<Rightarrow> bool" where
  "subnet_good k sts w \<longleftrightarrow> status_store k sts \<and> retry_law k"

interpretation sr: reconciler "\<lambda>q w. Some (Subnet_Reconcile k q w)" "subnet_good k sts"
    "\<lambda>w w'. \<forall>key. rel_option phase_step\<^sup>*\<^sup>* (sts w key) (sts w' key)"
  for k sts
proof
  fix w q
  assume "subnet_good k sts w"
  then have ss: "status_store k sts" "retry_law k" by (simp_all add: subnet_good_def)
  obtain out w' where r: "Subnet_Reconcile k q w = (out, w')" by fastforce
  then have "evolves q (sts w) (sts w')" using Subnet_Reconcile_evolves [OF ss, of q w] by simp
  then have "rel_option phase_step\<^sup>*\<^sup>* (sts w key) (sts w' key)" for key
    by (cases "key = q") (auto simp: evolves_def option.rel_refl split: option.splits simp del: split_paired_All)
  with r ss show "\<exists>out w'. Some (Subnet_Reconcile k q w) = Some (out, w') \<and> subnet_good k sts w'
      \<and> (\<forall>key. rel_option phase_step\<^sup>*\<^sup>* (sts w key) (sts w' key))"
    by (simp add: subnet_good_def)
next
  fix w
  show "\<forall>key. rel_option phase_step\<^sup>*\<^sup>* (sts w key) (sts w key)" by (simp add: option.rel_refl)
next
  fix u v w
  assume "\<forall>key. rel_option phase_step\<^sup>*\<^sup>* (sts u key) (sts v key)" "\<forall>key. rel_option phase_step\<^sup>*\<^sup>* (sts v key) (sts w key)"
  then show "\<forall>key. rel_option phase_step\<^sup>*\<^sup>* (sts u key) (sts w key)"
    by (metis (no_types, lifting) option.rel_transp rtranclp_trans transpD transpI)
qed

section \<open>The in-memory store\<close>

definition mem_sts :: "store \<Rightarrow> NamespacedName \<rightharpoonup> SubnetStatus" where
  "mem_sts w key = map_option sn_status (find (\<lambda>x. meta_key (sn_meta x) = key) (st_subnets w))"

lemma mem_kube_status_store: "status_store mem_kube mem_sts"
  unfolding status_store_def
proof (intro conjI)
  show "\<forall>key w r w'. k_get_subnet mem_kube key w = (r, w') \<longrightarrow> mem_sts w' = mem_sts w
      \<and> (\<forall>s. r = Inr s \<longrightarrow> meta_key (sn_meta s) = key \<and> mem_sts w key = Some (sn_status s))"
    by (auto simp: mem_kube_def find_obj_def mem_sts_def find_Some_iff split: option.splits)
  show "\<forall>b s w u w'. k_patch_subnet_status mem_kube b s w = (Inr u, w') \<longrightarrow>
      mem_sts w' = (if meta_key (sn_meta s) \<in> dom (mem_sts w)
        then (mem_sts w)(meta_key (sn_meta s) \<mapsto> sn_status s) else mem_sts w)"
    by (auto simp: mem_kube_def mem_sts_def fun_eq_iff find_put_status)
qed (simp_all add: mem_kube_def mem_sts_def fun_eq_iff)

definition demo_subnet :: "string \<Rightarrow> Subnet" where
  "demo_subnet ph = \<lparr>sn_meta = empty_meta\<lparr>Name := ''s'', Namespace := ''ns''\<rparr>,
     sn_spec = \<lparr>sn_PoolRef = ''p'', sn_CIDR = ''10.0.0.0/26'', sn_ClusterID = ''c'', sn_ClaimRef = \<lparr>cr_Name = ''c'', cr_UID = ''u''\<rparr>\<rparr>,
     sn_status = \<lparr>sn_Phase = ph, sn_AllocatedAt = None\<rparr>\<rparr>"

definition subnet_world :: "string \<Rightarrow> store" where
  "subnet_world ph = \<lparr>st_pools = [], st_subnets = [demo_subnet ph], st_claims = [], st_poolclaims = [], st_log = []\<rparr>"

text \<open>A client with one Subnet that is never deleted, and its pool.\<close>

definition demo_stay :: "store kube" where
  "demo_stay = mem_kube\<lparr>
     k_get_subnet := (\<lambda>key w. case find (\<lambda>x. meta_key (sn_meta x) = key) (st_subnets w) of
        None \<Rightarrow> (Inl (Errorf ''cache not ready''), w)
      | Some s \<Rightarrow> if DeletionTimestamp (sn_meta s) = None then (Inr s, w) else (Inl (Errorf ''terminating''), w)),
     k_get_pool := (\<lambda>key w. (Inr \<lparr>sp_meta = empty_meta\<lparr>Name := ''p'', Namespace := ''ns''\<rparr>,
        sp_spec = \<lparr>sp_CIDR = ''10.0.0.0/24'', sp_DefaultBlockSize = 0, sp_MinBlockSize = 0, sp_MaxBlockSize = 0,
          sp_Strategy = ''''\<rparr>, sp_status = empty_pool_status\<rparr>, w))\<rparr>"

lemma demo_stay_laws: "status_store demo_stay mem_sts" "retry_law demo_stay" "stays demo_stay key"
proof -
  have "\<forall>key w r w'. k_get_subnet demo_stay key w = (r, w') \<longrightarrow> mem_sts w' = mem_sts w
      \<and> (\<forall>s. r = Inr s \<longrightarrow> meta_key (sn_meta s) = key \<and> mem_sts w key = Some (sn_status s))"
    by (auto simp: demo_stay_def mem_sts_def find_Some_iff split: option.splits if_splits)
  moreover have "k_patch_subnet_status demo_stay = k_patch_subnet_status mem_kube" "k_emit demo_stay = k_emit mem_kube"
    by (simp_all add: demo_stay_def)
  moreover have "\<forall>key w r w'. k_get_pool demo_stay key w = (r, w') \<longrightarrow> mem_sts w' = mem_sts w"
    by (simp add: demo_stay_def)
  ultimately show "status_store demo_stay mem_sts"
    using mem_kube_status_store unfolding status_store_def by simp
  show "retry_law demo_stay" by (auto simp: retry_law_def demo_stay_def mem_kube_def split: prod.splits sum.splits)
  show "stays demo_stay key"
    unfolding stays_def by (auto simp: demo_stay_def mem_kube_def split: option.splits if_splits)
qed

section \<open>Properties\<close>



text \<open>
  C23. The phase Failed is final and the time of allocation is written once: whatever requests
  the worker serves, a Failed Subnet stays Failed and a time that is set stays. One failed
  read of the pool, of any kind, therefore leaves the Subnet Failed for good.
\<close>

theorem subnet_failed_is_final:
  assumes "status_store k sts" and "retry_law k" and "sts w key = Some st"
    and "run_requests (\<lambda>q w. Some (Subnet_Reconcile k q w)) reqs w = Some w'"
  shows "\<exists>st'. sts w' key = Some st'
    \<and> (sn_Phase st = SubnetPhaseFailed \<longrightarrow> sn_Phase st' = SubnetPhaseFailed)
    \<and> (\<forall>t. sn_AllocatedAt st = Some t \<longrightarrow> sn_AllocatedAt st' = Some t)"
proof -
  have "rel_option phase_step\<^sup>*\<^sup>* (sts w key) (sts w' key)"
  proof -
    have "subnet_good k sts w" using assms(1,2) by (simp add: subnet_good_def)
    from sr.run_good [OF this, of reqs] assms(4) show ?thesis by (metis option.inject)
  qed
  then obtain st' where "sts w' key = Some st'" "phase_step\<^sup>*\<^sup>* st st'"
    using assms(3) by (auto simp: option_rel_Some1)
  then show ?thesis using phase_failed_final phase_allocatedAt_kept by blast
qed

theorem subnet_failed_is_final_witness:
  "\<exists>w' st'. run_requests (\<lambda>q w. Some (Subnet_Reconcile mem_kube q w)) [(''ns'', ''s'')] (subnet_world SubnetPhaseFailed) = Some w'
     \<and> mem_sts w' (''ns'', ''s'') = Some st' \<and> sn_Phase st' = SubnetPhaseFailed"
proof -
  obtain w' where w': "run_requests (\<lambda>q w. Some (Subnet_Reconcile mem_kube q w)) [(''ns'', ''s'')] (subnet_world SubnetPhaseFailed) = Some w'"
    by (cases "Subnet_Reconcile mem_kube (''ns'', ''s'') (subnet_world SubnetPhaseFailed)") simp
  have "mem_sts (subnet_world SubnetPhaseFailed) (''ns'', ''s'') = Some \<lparr>sn_Phase = SubnetPhaseFailed, sn_AllocatedAt = None\<rparr>"
    by (simp add: mem_sts_def subnet_world_def demo_subnet_def meta_key_def)
  from subnet_failed_is_final [OF mem_kube_status_store mem_kube_retry this w'] w' show ?thesis by auto
qed

text \<open>
  C24. A reconciliation of a new Subnet that returns no error has allocated it: if the Subnet has
  a pool reference, stays in the store and is not being deleted, its phase is Allocated
  afterwards and its time of allocation is set.
\<close>

theorem Subnet_Reconcile_allocates:
  assumes "status_store k sts" and "retry_law k" and "stays k req"
    and "k_get_subnet k req w = (Inr s, w1)" and "sn_Phase (sn_status s) = ''''" and "sn_PoolRef (sn_spec s) \<noteq> ''''"
    and "Subnet_Reconcile k req w = ((res, None), w')"
  shows "\<exists>t. sts w' req = Some \<lparr>sn_Phase = SubnetPhaseAllocated, sn_AllocatedAt = Some t\<rparr>"
proof -
  have key: "meta_key (sn_meta s) = req" by (rule status_storeD(2) [OF assms(1,4)])
  obtain e w2 where u: "updateSubnetPhase k s SubnetPhaseAllocated w1 = (e, w2)" by fastforce
  have "e = None"
    using assms(4,5,7) u updateSubnetPhase_not_NotFound [OF assms(2), of s SubnetPhaseAllocated w1 _ w2]
    by (cases e) (auto simp: Subnet_Reconcile_def split: if_splits)
  then obtain st t where a: "sts w2 req = Some (set_phase SubnetPhaseAllocated t st)"
    using updateSubnetPhase_done [OF assms(1,2), of s SubnetPhaseAllocated w1 w2] key u assms(3) by auto
  have "check_parent k s w2 = ((res, None), w')" using assms(4,5,7) u \<open>e = None\<close> by (simp add: Subnet_Reconcile_def)
  then obtain p where "k_get_pool k (Namespace (sn_meta s), sn_PoolRef (sn_spec s)) w2 = (Inr p, w')"
    using assms(6) by (auto simp: check_parent_def split: sum.splits prod.splits)
  then have "sts w' = sts w2" by (rule status_storeD(6) [OF assms(1)])
  then show ?thesis using a set_phase_allocated [of t st] by auto
qed

theorem Subnet_Reconcile_allocates_witness:
  "\<exists>t w'. Subnet_Reconcile demo_stay (''ns'', ''s'') (subnet_world '''') = ((no_requeue, None), w')
     \<and> mem_sts w' (''ns'', ''s'') = Some \<lparr>sn_Phase = SubnetPhaseAllocated, sn_AllocatedAt = Some t\<rparr>"
proof -
  have g: "k_get_subnet demo_stay (''ns'', ''s'') (subnet_world '''') = (Inr (demo_subnet ''''), subnet_world '''')"
    by (simp add: demo_stay_def subnet_world_def demo_subnet_def find_obj_def meta_key_def mem_kube_def empty_meta_def)
  obtain w' where r: "Subnet_Reconcile demo_stay (''ns'', ''s'') (subnet_world '''') = ((no_requeue, None), w')"
    by (simp add: Subnet_Reconcile_def updateSubnetPhase_def PatchSubnetStatus_def patch_once_def check_parent_def
        demo_stay_def mem_kube_def subnet_world_def demo_subnet_def find_obj_def meta_key_def Let_def numeral_eq_Suc
        recordSubnetStatusUpdate_def empty_meta_def set_phase_def phase_defs equalSubnetStatus_def)
  show ?thesis
    using Subnet_Reconcile_allocates [OF demo_stay_laws g _ _ r] r by (auto simp: demo_subnet_def)
qed

end
