(* ===== verification/Statuscalc.thy ===== *)
theory Statuscalc
  imports Go_Net Api_Types
begin

text \<open>
  \<^verbatim>\<open>internal/controller/statuscalc/statuscalc.go\<close>: the status numbers of a pool.
  Go's \<open>int\<close> and \<open>uint\<close> have 64 bits; the subtraction of the shift count wraps and a
  shift by 64 or more gives 0, which the definitions write out. The lemmas give the value
  of the free count for every prefix length and show that the map of CIDRs holds the last
  owner of every listed CIDR.
\<close>

section \<open>Code\<close>

definition estimateFreeCountCap :: "int \<Rightarrow> string list \<Rightarrow> int" where
  "estimateFreeCountCap blockSize childCIDRs =
     (if length childCIDRs = 0 then 2
      else let estimatedCap = 2 + int (length childCIDRs) div 10
           in if estimatedCap < 8 then 8 else estimatedCap)"

record CalculateResult =
  AllocatedCount :: int
  FreeCountBySize :: "string \<rightharpoonup> int"
  AllocatedCIDRs :: "string \<rightharpoonup> string"

text \<open>\<open>1 << (uint(blockSize) - uint(ones))\<close> on 64-bit words, read back as a signed number.\<close>

definition shift_blocks :: "int \<Rightarrow> int \<Rightarrow> int" where
  "shift_blocks blockSize ones =
     (let count = (of_int blockSize :: 64 word) - of_int ones
      in if unat count \<ge> 64 then 0 else sint (push_bit (unat count) (1 :: 64 word)))"

text \<open>
  The result is returned beside the error, as in the source: on an invalid pool CIDR it
  holds the counts of the lists and an empty map of free counts.
\<close>

definition Calculate :: "string \<Rightarrow> Subnet list \<Rightarrow> string list \<Rightarrow> CalculateResult \<times> error option" where
  "Calculate poolCIDR allocations childCIDRs =
     (let totalAllocations = int (length allocations) + int (length childCIDRs);
          owners = foldl (\<lambda>m alloc. m(sn_CIDR (sn_spec alloc) \<mapsto> sn_ClusterID (sn_spec alloc))) Map.empty allocations;
          owners = foldl (\<lambda>m childCIDR. m(childCIDR \<mapsto> ''child-pool'')) owners childCIDRs;
          r = \<lparr>AllocatedCount = totalAllocations, FreeCountBySize = Map.empty, AllocatedCIDRs = owners\<rparr>
      in case ParseCIDR poolCIDR of
           Inl err \<Rightarrow> (r, Some (Wrapf ''invalid pool CIDR format: '' err))
         | Inr (_, ipNet) \<Rightarrow>
             let (ones, bits) = Mask_Size (IPNet_Mask ipNet);
                 blockSize = 24;
                 maxBlocks = shift_blocks blockSize ones;
                 maxBlocks = (if bits = 128 \<and> ones < 64 then 1000000 else maxBlocks);
                 freeCount = maxBlocks - totalAllocations;
                 freeCount = (if freeCount < 0 then 0 else freeCount)
             in (r\<lparr>FreeCountBySize := [''/'' @ Itoa blockSize \<mapsto> freeCount, Itoa blockSize \<mapsto> freeCount]\<rparr>, None))"

definition NormalizeBlockSizeKey :: "string \<Rightarrow> (error, string) result" where
  "NormalizeBlockSizeKey key =
     (let key = TrimPrefix key ''/''
      in case Atoi key of
           Inl err \<Rightarrow> Inl (Wrapf ''invalid block size key format: '' err)
         | Inr _ \<Rightarrow> Inr key)"

section \<open>The shift\<close>

lemma shift_blocks_small:
  assumes "0 \<le> ones" and "ones \<le> 24"
  shows "shift_blocks 24 ones = 2 ^ nat (24 - ones)"
proof -
  obtain n where n: "ones = int n" "n \<le> 24" using assms by (intro that [of "nat ones"]) linarith+
  have c: "(of_int 24 :: 64 word) - of_int ones = of_nat (24 - n)"
    using n by (simp add: of_nat_diff)
  have "24 - n < (2::nat) ^ 64" by simp
  then have u: "unat (of_nat (24 - n) :: 64 word) = 24 - n" by (simp add: unat_of_nat)
  have p: "push_bit (24 - n) (1 :: 64 word) = word_of_int (2 ^ (24 - n))"
    by (simp add: push_bit_eq_mult)
  have lt: "(2::int) ^ (24 - n) < 2 ^ 63" by (rule power_strict_increasing) simp_all
  have "sint (word_of_int (2 ^ (24 - n)) :: 64 word) = signed_take_bit 63 (2 ^ (24 - n))"
    by (subst signed_of_int) simp
  also have "\<dots> = 2 ^ (24 - n)"
    by (rule signed_take_bit_int_eq_self) (use lt in \<open>simp_all add: order.trans [of _ 0]\<close>)
  finally show ?thesis
    using n unfolding shift_blocks_def Let_def c u p by (simp add: nat_diff_distrib)
qed

lemma shift_blocks_large:
  assumes "24 < ones" and "ones \<le> 128"
  shows "shift_blocks 24 ones = 0"
proof -
  obtain n where n: "ones = int n" "24 < n" "n \<le> 128" using assms by (intro that [of "nat ones"]) linarith+
  let ?c = "(of_int 24 :: 64 word) - of_int ones"
  have "64 \<le> unat ?c"
  proof (rule ccontr)
    assume "\<not> 64 \<le> unat ?c"
    then have lt: "unat ?c + n < 2 ^ 64" using n by simp
    have "unat (?c + of_nat n) = (unat ?c + n) mod 2 ^ 64"
      by (simp add: unat_word_ariths unat_of_nat mod_simps)
    with lt have "unat (?c + of_nat n) = unat ?c + n" by simp
    moreover have "?c + of_nat n = 24" unfolding n(1) by simp
    ultimately show False using n by simp
  qed
  then show ?thesis by (simp add: shift_blocks_def Let_def)
qed

section \<open>The map of owners\<close>

lemma foldl_owner:
  "foldl (\<lambda>m a. m(f a \<mapsto> g a)) m xs = m ++ map_of (rev (map (\<lambda>a. (f a, g a)) xs))"
proof (induction xs arbitrary: m)
  case Nil
  show ?case by simp
next
  case (Cons a xs)
  have "m(f a \<mapsto> g a) ++ map_of (rev (map (\<lambda>a. (f a, g a)) xs))
      = m ++ map_of (rev (map (\<lambda>a. (f a, g a)) xs) @ [(f a, g a)])"
    by (simp add: map_add_def fun_eq_iff split: option.splits)
  with Cons.IH [of "m(f a \<mapsto> g a)"] show ?case by (simp only: foldl.simps list.map rev.simps)
qed

lemma owners_child: "map_of (rev (map (\<lambda>c. (c, v)) cs)) x = (if x \<in> set cs then Some v else None)"
  by (induction cs rule: rev_induct) auto

lemma Calculate_owners:
  "AllocatedCIDRs (fst (Calculate pl allocs childs)) =
     map_of (rev (map (\<lambda>a. (sn_CIDR (sn_spec a), sn_ClusterID (sn_spec a))) allocs))
       ++ map_of (rev (map (\<lambda>c. (c, ''child-pool'')) childs))"
  unfolding Calculate_def Let_def foldl_owner
  by (auto split: sum.splits prod.splits)

lemma Mask_Size_parsed:
  assumes "ParseCIDR s = Inr (i, n)"
  shows "0 \<le> fst (Mask_Size (IPNet_Mask n)) \<and> fst (Mask_Size (IPNet_Mask n)) \<le> 128"
proof -
  obtain l k where "parsed_net n l k" by (rule ParseCIDR_parsed_net [OF assms])
  then show ?thesis by (auto simp: parsed_net_def Mask_Size_mask_bytes)
qed

section \<open>Properties\<close>

text \<open>
  C39. The free count \<open>Calculate\<close> reports for a pool that parses: the number of /24 blocks of the
  pool (none for a prefix longer than 24, the cap of one million for an IPv6 prefix shorter
  than 64) minus the number of allocations and children, but never below zero; it stands
  under the keys 24 and /24 and there are no other keys.
\<close>

theorem Calculate_free_count:
  assumes "ParseCIDR pl = Inr (i, n)" and "Mask_Size (IPNet_Mask n) = (ones, bts)"
  shows "snd (Calculate pl allocs childs) = None
    \<and> (let blocks = (if bts = 128 \<and> ones < 64 then 1000000 else if ones \<le> 24 then 2 ^ nat (24 - ones) else 0);
           free = max 0 (blocks - (int (length allocs) + int (length childs)))
       in FreeCountBySize (fst (Calculate pl allocs childs)) = [''/24'' \<mapsto> free, ''24'' \<mapsto> free]
          \<and> AllocatedCount (fst (Calculate pl allocs childs)) = int (length allocs) + int (length childs))"
proof -
  have o: "0 \<le> ones" "ones \<le> 128" using Mask_Size_parsed [OF assms(1)] assms(2) by auto
  have "Itoa 24 = ''24''" by code_simp
  moreover have "shift_blocks 24 ones = (if ones \<le> 24 then 2 ^ nat (24 - ones) else 0)"
    using shift_blocks_small [OF o(1)] shift_blocks_large [OF _ o(2)] by auto
  ultimately show ?thesis using assms by (simp add: Calculate_def Let_def max_def)
qed

theorem Calculate_free_count_witness:
  "FreeCountBySize (fst (Calculate (IP_String [10, 0, 0, 0] @ ''/'' @ nat_str 20) [] [''x''])) ''24'' = Some 15"
proof -
  have p: "ParseCIDR (IP_String [10, 0, 0, 0] @ ''/'' @ nat_str 20) = Inr (v4InV6Prefix @ [10, 0, 0, 0], v4_net [10, 0, 0, 0] 20)"
    by (rule ParseCIDR_print) simp_all
  have m: "Mask_Size (IPNet_Mask (v4_net [10, 0, 0, 0] 20)) = (20, 32)"
    using Mask_Size_mask_bytes [of 20 4] by (simp add: v4_net_def)
  show ?thesis using Calculate_free_count [OF p m, of "[]" "[''x'']"] by (simp add: Let_def)
qed



text \<open>
  A key \<open>NormalizeBlockSizeKey\<close> returns is in normal form: normalising it again gives it back,
  and it differs from the argument at most by one leading slash.
\<close>

lemma NormalizeBlockSizeKey_normal:
  assumes "NormalizeBlockSizeKey key = Inr key'"
  shows "NormalizeBlockSizeKey key' = Inr key' \<and> (key = key' \<or> key = ''/'' @ key')"
proof -
  have k: "key' = TrimPrefix key ''/''" and a: "\<exists>z. Atoi key' = Inr z"
    using assms by (auto simp: NormalizeBlockSizeKey_def Let_def split: sum.splits)
  have "\<not> HasPrefix key' ''/''"
  proof
    assume "HasPrefix key' ''/''"
    then obtain r where "key' = CHR ''/'' # r" by (auto simp: HasPrefix_iff)
    then have "Atoi key' = Inl (NumErr ''Atoi'' key' ''invalid syntax'')" by (simp add: Atoi_def is_digit_def)
    with a show False by simp
  qed
  then have "TrimPrefix key' ''/'' = key'" by (simp add: TrimPrefix_def)
  moreover have "key = key' \<or> key = ''/'' @ key'" using k by (auto simp: TrimPrefix_def HasPrefix_iff)
  ultimately show ?thesis using a by (auto simp: NormalizeBlockSizeKey_def)
qed

end
