(* ===== verification/Pool_Status.thy ===== *)
theory Pool_Status
  imports Metrics Statuscalc
begin

text \<open>
  \<^verbatim>\<open>internal/controller/poolstatus_controller.go\<close>, \<^verbatim>\<open>pager.go\<close>,
  \<^verbatim>\<open>manual_scan_prod.go\<close> and \<^verbatim>\<open>manual_scan_debug.go\<close>: the status of a pool is computed from a paged list of
  its Subnets and patched when it differs. The paging loop ends when the server stops
  sending continue tokens; it is a partial function whose value \<open>None\<close> means that it does
  not return. The lemmas show when it returns, what it collects and which status is stored.
\<close>

section \<open>The pager\<close>

definition PageSize :: nat where
  "PageSize = 1000"

text \<open>The loop: \<open>continueOption\<close> is the token, empty before the first page.\<close>

partial_function (option) list_pages ::
    "'w kube \<Rightarrow> SubnetPool \<Rightarrow> string \<Rightarrow> Subnet list \<Rightarrow> 'w \<Rightarrow> ((error, Subnet list) result \<times> 'w) option" where
  [code]: "list_pages k pool continueOption allSubnets w =
     (case k_list_subnets_page k (Namespace (sp_meta pool)) (Name (sp_meta pool)) PageSize continueOption w of
        (Inl err, w1) \<Rightarrow> Some (Inl err, w1)
      | (Inr (items, token), w1) \<Rightarrow>
          let all = allSubnets @ items; w2 = k_emit k (CounterInc ''SubnetListPagesTotal'' []) w1
          in if token = '''' then Some (Inr all, k_emit k (CounterInc ''SubnetListContinueSkippedTotal'' []) w2)
             else list_pages k pool token all w2)"

definition listSubnetsPaged :: "'w kube \<Rightarrow> SubnetPool \<Rightarrow> 'w \<Rightarrow> ((error, Subnet list) result \<times> 'w) option" where
  "listSubnetsPaged k pool w = list_pages k pool '''' [] w"

section \<open>Reconciliation\<close>

definition manualSubnetScan :: "SubnetPool \<Rightarrow> int" where
  "manualSubnetScan pool = 0"

text \<open>
  The debug build counts the Subnets of the namespace by hand; \<open>listAll\<close> is the client's list
  without a field selector. The count is only logged.
\<close>

fun count_matches :: "SubnetPool \<Rightarrow> Subnet list \<Rightarrow> int" where
  "count_matches pool [] = 0"
| "count_matches pool (s # ss) = (if sn_PoolRef (sn_spec s) = Name (sp_meta pool) then 1 else 0) + count_matches pool ss"

definition manualSubnetScan_debug ::
    "(string \<Rightarrow> 'w \<Rightarrow> (error, Subnet list) result \<times> 'w) \<Rightarrow> SubnetPool \<Rightarrow> 'w \<Rightarrow> int \<times> 'w" where
  "manualSubnetScan_debug listAll pool w =
     (case listAll (Namespace (sp_meta pool)) w of
        (Inl _, w1) \<Rightarrow> (0, w1)
      | (Inr items, w1) \<Rightarrow> (count_matches pool items, w1))"

text \<open>The count agrees with a list by the field index.\<close>

lemma count_matches_index: "count_matches pool ss = int (length (filter (\<lambda>s. sn_PoolRef (sn_spec s) = Name (sp_meta pool)) ss))"
  by (induction ss) simp_all

text \<open>The status built from the calculation; the fields that are not set are zero.\<close>

definition new_pool_status :: "CalculateResult \<Rightarrow> SubnetPoolStatus" where
  "new_pool_status calcResult = empty_pool_status\<lparr>sp_AllocatedCount := AllocatedCount calcResult,
     sp_FreeCountBySize := FreeCountBySize calcResult, sp_AllocatedCIDRs := AllocatedCIDRs calcResult\<rparr>"

text \<open>The function retried on conflicts. A re-read pool has the name of the first one.\<close>

definition pool_patch_once ::
    "'w kube \<Rightarrow> NamespacedName \<Rightarrow> SubnetPoolStatus \<Rightarrow> 'w \<Rightarrow> (error, unit) result \<times> 'w" where
  "pool_patch_once k req newStatus w =
     (case k_get_pool k req w of
        (Inl err, w1) \<Rightarrow> if k_IsNotFound k err then (Inr (), w1) else (Inl err, w1)
      | (Inr pool, w1) \<Rightarrow>
          if DeletionTimestamp (sp_meta pool) \<noteq> None then (Inr (), w1)
          else (case k_patch_pool_status k pool (pool\<lparr>sp_status := newStatus\<rparr>) w1 of
                  (Inr _, w2) \<Rightarrow> (Inr (), w2)
                | (Inl err, w2) \<Rightarrow>
                    if k_IsNotFound k err then (Inr (), w2)
                    else (Inl err, if k_IsConflict k err then recordPoolStatusRetry k (Name (sp_meta pool)) w2 else w2)))"

text \<open>Step 5: compare and patch.\<close>

definition patch_pool_status ::
    "'w kube \<Rightarrow> NamespacedName \<Rightarrow> SubnetPool \<Rightarrow> SubnetPoolStatus \<Rightarrow> 'w \<Rightarrow> (Result \<times> error option) \<times> 'w" where
  "patch_pool_status k req pool newStatus w =
     (if k_DeepEqual_pool_status k (sp_status pool) newStatus then ((no_requeue, None), w)
      else case k_RetryOnConflict k 5 (pool_patch_once k req newStatus) w of
        (Inl err, w1) \<Rightarrow> ((no_requeue, Some err), recordPoolStatusUpdate k (Name (sp_meta pool)) ''failure'' w1)
      | (Inr _, w1) \<Rightarrow> ((no_requeue, None), recordPoolStatusUpdate k (Name (sp_meta pool)) ''success'' w1))"

definition PoolStatus_Reconcile ::
    "'w kube \<Rightarrow> NamespacedName \<Rightarrow> 'w \<Rightarrow> ((Result \<times> error option) \<times> 'w) option" where
  "PoolStatus_Reconcile k req w =
     (case k_get_pool k req w of
        (Inl err, w1) \<Rightarrow> Some ((no_requeue, if k_IsNotFound k err then None else Some err), w1)
      | (Inr pool, w1) \<Rightarrow>
          (case listSubnetsPaged k pool w1 of
             None \<Rightarrow> None
           | Some (Inl err, w2) \<Rightarrow> Some ((no_requeue, Some err), w2)
           | Some (Inr allSubnets, w2) \<Rightarrow>
               (case Calculate (sp_CIDR (sp_spec pool)) allSubnets [] of
                  (_, Some err) \<Rightarrow> Some ((no_requeue, Some err), w2)
                | (calcResult, None) \<Rightarrow> Some (patch_pool_status k req pool (new_pool_status calcResult) w2))))"

section \<open>Mappers\<close>

text \<open>\<open>None\<close>: the object has another type. Both readings of the namespace are the same field.\<close>

definition mapAllocToPool :: "Subnet option \<Rightarrow> NamespacedName list" where
  "mapAllocToPool obj =
     (case obj of
        None \<Rightarrow> []
      | Some allocation \<Rightarrow>
          if sn_PoolRef (sn_spec allocation) = '''' then []
          else let ns = Namespace (sn_meta allocation);
                   ns = (if ns = '''' then Namespace (sn_meta allocation) else ns)
               in if ns = '''' then [] else [(ns, sn_PoolRef (sn_spec allocation))])"

definition parent_label :: string where
  "parent_label = ''plexaubnet.io/parent''"

definition mapChildToParent :: "SubnetPool option \<Rightarrow> NamespacedName list" where
  "mapChildToParent obj =
     (case obj of
        None \<Rightarrow> []
      | Some childPool \<Rightarrow>
          (case Labels (sp_meta childPool) parent_label of
             None \<Rightarrow> []
           | Some parentName \<Rightarrow>
               if parentName = '''' then []
               else let ns = Namespace (sp_meta childPool);
                        ns = (if ns = '''' then Namespace (sp_meta childPool) else ns)
                    in if ns = '''' then [] else [(ns, parentName)]))"

section \<open>What the pager collects\<close>

text \<open>
  The documented behaviour of chunked lists: behind a token stands the list of the items
  still to come, the first call starts with the whole list; a page is a prefix of it, with
  a token for the rest, and a page with a token is not empty.
\<close>

definition paging_law :: "'w kube \<Rightarrow> string \<Rightarrow> string \<Rightarrow> (string \<Rightarrow> Subnet list) \<Rightarrow> bool" where
  "paging_law k ns p rest \<longleftrightarrow>
     (\<forall>tok w items tok' w'. k_list_subnets_page k ns p PageSize tok w = (Inr (items, tok'), w') \<longrightarrow>
        rest tok = items @ (if tok' = '''' then [] else rest tok') \<and> (tok' \<noteq> '''' \<longrightarrow> items \<noteq> []))"

lemma list_pages_collects:
  assumes law: "paging_law k (Namespace (sp_meta pool)) (Name (sp_meta pool)) rest"
  shows "\<exists>r w'. list_pages k pool tok acc w = Some (r, w') \<and> (\<forall>xs. r = Inr xs \<longrightarrow> xs = acc @ rest tok)"
proof (induction "length (rest tok)" arbitrary: tok acc w rule: less_induct)
  case less
  obtain g w1 where g: "k_list_subnets_page k (Namespace (sp_meta pool)) (Name (sp_meta pool)) PageSize tok w = (g, w1)" by fastforce
  show ?case
  proof (cases g)
    case (Inl e)
    then show ?thesis using g by (subst list_pages.simps) simp
  next
    case (Inr x)
    obtain items tok' where x: "x = (items, tok')" by (cases x)
    have l: "rest tok = items @ (if tok' = '''' then [] else rest tok')" "tok' \<noteq> '''' \<longrightarrow> items \<noteq> []"
      using law g Inr x unfolding paging_law_def by blast+
    show ?thesis
    proof (cases "tok' = ''''")
      case True
      then show ?thesis using g Inr x l by (subst list_pages.simps) (simp add: Let_def)
    next
      case False
      let ?w2 = "k_emit k (CounterInc ''SubnetListPagesTotal'' []) w1"
      have "length (rest tok') < length (rest tok)" using l False by simp
      from less.hyps [OF this, of "acc @ items" ?w2] show ?thesis
        using g Inr x l False by (subst list_pages.simps) (auto simp: Let_def)
    qed
  qed
qed

text \<open>For the loop to end it is enough that the tokens of a list make progress.\<close>

definition paging_progress :: "'w kube \<Rightarrow> (string \<Rightarrow> nat) \<Rightarrow> bool" where
  "paging_progress k left \<longleftrightarrow>
     (\<forall>ns p tok w items tok' w'. k_list_subnets_page k ns p PageSize tok w = (Inr (items, tok'), w') \<longrightarrow>
        tok' \<noteq> '''' \<longrightarrow> left tok' < left tok)"

lemma list_pages_returns:
  assumes "paging_progress k left"
  shows "list_pages k pool tok acc w \<noteq> None"
proof (induction "left tok" arbitrary: tok acc w rule: less_induct)
  case less
  obtain g w1 where g: "k_list_subnets_page k (Namespace (sp_meta pool)) (Name (sp_meta pool)) PageSize tok w = (g, w1)" by fastforce
  have "left tok' < left tok" if "g = Inr (items, tok')" "tok' \<noteq> ''''" for items tok'
    using assms g that unfolding paging_progress_def by blast
  with less.hyps show ?case
    by (subst list_pages.simps) (auto simp: g Let_def split: sum.splits)
qed

section \<open>Which status is stored\<close>

text \<open>The API server seen by a single writer of pool statuses.\<close>

definition pool_status_store :: "'w kube \<Rightarrow> ('w \<Rightarrow> NamespacedName \<rightharpoonup> SubnetPoolStatus) \<Rightarrow> bool" where
  "pool_status_store k pst \<longleftrightarrow>
     (\<forall>key w r w'. k_get_pool k key w = (r, w') \<longrightarrow> pst w' = pst w
        \<and> (\<forall>p. r = Inr p \<longrightarrow> meta_key (sp_meta p) = key \<and> pst w key = Some (sp_status p)))
     \<and> (\<forall>b p w e w'. k_patch_pool_status k b p w = (Inl e, w') \<longrightarrow> pst w' = pst w)
     \<and> (\<forall>b p w u w'. k_patch_pool_status k b p w = (Inr u, w') \<longrightarrow>
          pst w' = (if meta_key (sp_meta p) \<in> dom (pst w) then (pst w)(meta_key (sp_meta p) \<mapsto> sp_status p) else pst w))
     \<and> (\<forall>ns p n t w r w'. k_list_subnets_page k ns p n t w = (r, w') \<longrightarrow> pst w' = pst w)
     \<and> (\<forall>e w. pst (k_emit k e w) = pst w)"

lemma pool_status_storeD:
  assumes "pool_status_store k pst"
  shows "k_get_pool k key w = (r, w') \<Longrightarrow> pst w' = pst w"
    and "k_get_pool k key w = (Inr p, w') \<Longrightarrow> meta_key (sp_meta p) = key"
    and "k_get_pool k key w = (Inr p, w') \<Longrightarrow> pst w key = Some (sp_status p)"
    and "k_patch_pool_status k b p w = (Inl e, w') \<Longrightarrow> pst w' = pst w"
    and "k_patch_pool_status k b p w = (Inr u, w') \<Longrightarrow> pst w (meta_key (sp_meta p)) = Some st \<Longrightarrow>
      pst w' = (pst w)(meta_key (sp_meta p) \<mapsto> sp_status p)"
    and "k_list_subnets_page k ns pn n t w = (rl, w') \<Longrightarrow> pst w' = pst w"
    and "pst (k_emit k ef w) = pst w"
proof -
  note a = assms [unfolded pool_status_store_def]
  show "k_get_pool k key w = (r, w') \<Longrightarrow> pst w' = pst w"
    and "k_get_pool k key w = (Inr p, w') \<Longrightarrow> meta_key (sp_meta p) = key"
    and "k_get_pool k key w = (Inr p, w') \<Longrightarrow> pst w key = Some (sp_status p)"
    using conjunct1 [OF a] by blast+
  note a = conjunct2 [OF a]
  show "k_patch_pool_status k b p w = (Inl e, w') \<Longrightarrow> pst w' = pst w" using conjunct1 [OF a] by blast
  note a = conjunct2 [OF a]
  show "k_patch_pool_status k b p w = (Inr u, w') \<Longrightarrow> pst w (meta_key (sp_meta p)) = Some st \<Longrightarrow>
      pst w' = (pst w)(meta_key (sp_meta p) \<mapsto> sp_status p)"
    using conjunct1 [OF a] by (metis domI)
  note a = conjunct2 [OF a]
  show "k_list_subnets_page k ns pn n t w = (rl, w') \<Longrightarrow> pst w' = pst w" using conjunct1 [OF a] by blast
  note a = conjunct2 [OF a]
  show "pst (k_emit k ef w) = pst w" using a by simp
qed

text \<open>The pool stays: no call reports it missing, no read shows it being deleted.\<close>

definition pool_stays :: "'w kube \<Rightarrow> NamespacedName \<Rightarrow> bool" where
  "pool_stays k key \<longleftrightarrow>
     (\<forall>w e w'. k_get_pool k key w = (Inl e, w') \<longrightarrow> \<not> k_IsNotFound k e)
     \<and> (\<forall>w p w'. k_get_pool k key w = (Inr p, w') \<longrightarrow> DeletionTimestamp (sp_meta p) = None)
     \<and> (\<forall>b p w e w'. meta_key (sp_meta p) = key \<longrightarrow> k_patch_pool_status k b p w = (Inl e, w') \<longrightarrow> \<not> k_IsNotFound k e)"

text \<open>In the model a nil map or slice is an empty one, which \<open>Semantic.DeepEqual\<close> identifies.\<close>

definition deep_equal_law :: "'w kube \<Rightarrow> bool" where
  "deep_equal_law k \<longleftrightarrow> (\<forall>a b. k_DeepEqual_pool_status k a b \<longleftrightarrow> a = b)"

lemma list_pages_pst:
  assumes ps: "pool_status_store k pst"
    and law: "paging_law k (Namespace (sp_meta pool)) (Name (sp_meta pool)) rest"
  shows "list_pages k pool tok acc w = Some (r, w') \<Longrightarrow> pst w' = pst w"
proof (induction "length (rest tok)" arbitrary: tok acc w rule: less_induct)
  case less
  obtain g w1 where g: "k_list_subnets_page k (Namespace (sp_meta pool)) (Name (sp_meta pool)) PageSize tok w = (g, w1)" by fastforce
  have w1: "pst w1 = pst w" by (rule pool_status_storeD(6) [OF ps g])
  note eq = less.prems [unfolded list_pages.simps [of k pool tok acc w] g]
  show ?case
  proof (cases g)
    case (Inl e)
    then show ?thesis using eq w1 by simp
  next
    case (Inr x)
    obtain items tok' where x: "x = (items, tok')" by (cases x)
    show ?thesis
    proof (cases "tok' = ''''")
      case True
      then show ?thesis using eq Inr x w1 pool_status_storeD(7) [OF ps] by (auto simp: Let_def)
    next
      case False
      have "length (rest tok') < length (rest tok)"
        using law g Inr x False unfolding paging_law_def by fastforce
      from less.hyps [OF this] eq Inr x False w1 pool_status_storeD(7) [OF ps] show ?thesis by (simp add: Let_def)
    qed
  qed
qed

lemma pool_patch_once_done:
  assumes ps: "pool_status_store k pst" and stay: "pool_stays k req"
    and r: "pool_patch_once k req new w = (Inr (), w')"
  shows "pst w' req = Some new"
proof -
  obtain g w1 where g: "k_get_pool k req w = (g, w1)" by fastforce
  have w1: "pst w1 = pst w" by (rule pool_status_storeD(1) [OF ps g])
  obtain p where p: "g = Inr p"
    using r g stay by (cases g) (auto simp: pool_patch_once_def pool_stays_def split: if_splits)
  have key: "meta_key (sp_meta p) = req" and st: "pst w req = Some (sp_status p)"
    using pool_status_storeD(2,3) [OF ps g [unfolded p]] .
  have dt: "DeletionTimestamp (sp_meta p) = None" using stay g p unfolding pool_stays_def by blast
  let ?new = "p\<lparr>sp_status := new\<rparr>"
  obtain q w2 where q: "k_patch_pool_status k p ?new w1 = (q, w2)" by fastforce
  have "\<not> k_IsNotFound k e" if "q = Inl e" for e
  proof -
    have "meta_key (sp_meta ?new) = req" using key by simp
    then show ?thesis using stay q that unfolding pool_stays_def by blast
  qed
  moreover have "pst w2 = (pst w)(req \<mapsto> new)" if "q = Inr u" for u
    using pool_status_storeD(5) [OF ps q [unfolded that], of "sp_status p"] key st w1 by simp
  ultimately show ?thesis
    using r g p q dt by (cases q) (auto simp: pool_patch_once_def split: if_splits)
qed

lemma patch_pool_status_done:
  assumes ps: "pool_status_store k pst" and stay: "pool_stays k req" and law: "retry_law k" and de: "deep_equal_law k"
    and st: "pst w req = Some (sp_status pool)" and r: "patch_pool_status k req pool new w = ((res, None), w')"
  shows "pst w' req = Some new"
proof (cases "sp_status pool = new")
  case True
  then show ?thesis using r st de by (auto simp: patch_pool_status_def deep_equal_law_def)
next
  case False
  let ?f = "pool_patch_once k req new"
  obtain q w1 where q: "k_OnError k (Suc 4) (k_IsConflict k) ?f w = (q, w1)" by fastforce
  have q1: "q = Inr ()" "w' = recordPoolStatusUpdate k (Name (sp_meta pool)) ''success'' w1"
    using r q False de by (cases q; auto simp: patch_pool_status_def deep_equal_law_def k_RetryOnConflict_def)+
  obtain w0 where "?f w0 = (Inr (), w1)"
    using OnError_last_run [OF law, where I = "\<lambda>_. True" and f = ?f] q q1 by blast
  then show ?thesis
    using pool_patch_once_done [OF ps stay] pool_status_storeD(7) [OF ps] q1 by (simp add: recordPoolStatusUpdate_def)
qed

section \<open>The worker\<close>

lemma PoolStatus_Reconcile_returns:
  assumes "paging_progress k left"
  shows "PoolStatus_Reconcile k q w \<noteq> None"
  using list_pages_returns [OF assms]
  by (auto simp: PoolStatus_Reconcile_def listSubnetsPaged_def split: sum.splits prod.splits option.splits simp del: not_None_eq)

definition pool_status_good :: "'w kube \<Rightarrow> (string \<Rightarrow> nat) \<Rightarrow> 'w \<Rightarrow> bool" where
  "pool_status_good k left w \<longleftrightarrow> paging_progress k left"

interpretation pr: reconciler "PoolStatus_Reconcile k" "pool_status_good k left" "\<lambda>_ _. True" for k left
proof
  fix w q
  assume "pool_status_good k left w"
  with PoolStatus_Reconcile_returns [of k left q w]
  show "\<exists>out w'. PoolStatus_Reconcile k q w = Some (out, w') \<and> pool_status_good k left w' \<and> True"
    by (auto simp: pool_status_good_def)
qed simp_all

section \<open>A concrete server\<close>

text \<open>Two Subnets in two pages, and a pool that is never deleted.\<close>

definition paged_subnet :: "string \<Rightarrow> Subnet" where
  "paged_subnet c = \<lparr>sn_meta = empty_meta\<lparr>Name := c, Namespace := ''ns''\<rparr>,
     sn_spec = \<lparr>sn_PoolRef = ''p'', sn_CIDR = c, sn_ClusterID = ''c'', sn_ClaimRef = \<lparr>cr_Name = ''c'', cr_UID = ''u''\<rparr>\<rparr>,
     sn_status = \<lparr>sn_Phase = '''', sn_AllocatedAt = None\<rparr>\<rparr>"

definition demo_rest :: "string \<Rightarrow> Subnet list" where
  "demo_rest tok = (if tok = '''' then [paged_subnet ''10.0.0.0/24'', paged_subnet ''10.0.1.0/24'']
     else [paged_subnet ''10.0.1.0/24''])"

definition demo_paged :: "store kube" where
  "demo_paged = mem_kube\<lparr>
     k_get_pool := (\<lambda>key w. case find (\<lambda>x. meta_key (sp_meta x) = key) (st_pools w) of
        None \<Rightarrow> (Inl (Errorf ''cache not ready''), w)
      | Some p \<Rightarrow> if DeletionTimestamp (sp_meta p) = None then (Inr p, w) else (Inl (Errorf ''terminating''), w)),
     k_list_subnets_page := (\<lambda>ns p n tok w.
        if tok = '''' then (Inr ([paged_subnet ''10.0.0.0/24''], ''t''), w) else (Inr ([paged_subnet ''10.0.1.0/24''], ''''), w))\<rparr>"

definition mem_pst :: "store \<Rightarrow> NamespacedName \<rightharpoonup> SubnetPoolStatus" where
  "mem_pst w key = map_option sp_status (find (\<lambda>x. meta_key (sp_meta x) = key) (st_pools w))"

definition paged_pool :: SubnetPool where
  "paged_pool = \<lparr>sp_meta = empty_meta\<lparr>Name := ''p'', Namespace := ''ns''\<rparr>,
     sp_spec = \<lparr>sp_CIDR = IP_String [10, 0, 0, 0] @ ''/'' @ nat_str 16, sp_DefaultBlockSize = 0, sp_MinBlockSize = 0, sp_MaxBlockSize = 0,
       sp_Strategy = ''''\<rparr>, sp_status = empty_pool_status\<rparr>"

definition pool_world :: store where
  "pool_world = \<lparr>st_pools = [paged_pool], st_subnets = [], st_claims = [], st_poolclaims = [], st_log = []\<rparr>"

lemma demo_paged_paging: "paging_law demo_paged ns p demo_rest"
  by (auto simp: paging_law_def demo_paged_def demo_rest_def split: if_splits)

lemma demo_paged_laws:
  "pool_status_store demo_paged mem_pst" "pool_stays demo_paged key" "retry_law demo_paged" "deep_equal_law demo_paged"
proof -
  show "pool_status_store demo_paged mem_pst"
    unfolding pool_status_store_def
  proof (intro conjI)
    show "\<forall>key w r w'. k_get_pool demo_paged key w = (r, w') \<longrightarrow> mem_pst w' = mem_pst w
        \<and> (\<forall>p. r = Inr p \<longrightarrow> meta_key (sp_meta p) = key \<and> mem_pst w key = Some (sp_status p))"
      by (auto simp: demo_paged_def mem_pst_def find_Some_iff split: option.splits if_splits)
    show "\<forall>b p w u w'. k_patch_pool_status demo_paged b p w = (Inr u, w') \<longrightarrow>
        mem_pst w' = (if meta_key (sp_meta p) \<in> dom (mem_pst w)
          then (mem_pst w)(meta_key (sp_meta p) \<mapsto> sp_status p) else mem_pst w)"
      by (auto simp: demo_paged_def mem_kube_def mem_pst_def fun_eq_iff find_put_status)
  qed (auto simp: demo_paged_def mem_kube_def mem_pst_def fun_eq_iff split: if_splits)
  show "pool_stays demo_paged key"
    unfolding pool_stays_def by (auto simp: demo_paged_def mem_kube_def split: option.splits if_splits)
  show "retry_law demo_paged" by (auto simp: retry_law_def demo_paged_def mem_kube_def split: prod.splits sum.splits)
  show "deep_equal_law demo_paged" by (simp add: deep_equal_law_def demo_paged_def mem_kube_def)
qed

section \<open>Properties\<close>

text \<open>
  C19. The pager returns, whatever the number of pages: with the documented behaviour of chunked
  lists it ends with an error of the server or with exactly the Subnets of the pool, in
  order and without repetition of a page.
\<close>

theorem listSubnetsPaged_complete:
  assumes "paging_law k (Namespace (sp_meta pool)) (Name (sp_meta pool)) rest"
  shows "\<exists>r w'. listSubnetsPaged k pool w = Some (r, w') \<and> (\<forall>xs. r = Inr xs \<longrightarrow> xs = rest '''')"
  using list_pages_collects [OF assms, of "''''" "[]" w] by (simp add: listSubnetsPaged_def)

theorem listSubnetsPaged_complete_witness:
  "\<exists>w'. listSubnetsPaged demo_paged paged_pool pool_world
     = Some (Inr [paged_subnet ''10.0.0.0/24'', paged_subnet ''10.0.1.0/24''], w')"
proof -
  have "\<exists>xs w'. listSubnetsPaged demo_paged paged_pool pool_world = Some (Inr xs, w')"
    unfolding listSubnetsPaged_def
    by (subst list_pages.simps, simp add: demo_paged_def Let_def, subst list_pages.simps, simp add: Let_def)
  with listSubnetsPaged_complete [OF demo_paged_paging, of paged_pool pool_world] show ?thesis
    by (auto simp: demo_rest_def)
qed

text \<open>
  A worker of the pool status controller serves any sequence of requests to the end: when
  the continue tokens of the server make progress no reconciliation runs forever.
\<close>

lemma pool_status_worker_returns:
  assumes "paging_progress k left"
  shows "\<exists>w'. run_requests (PoolStatus_Reconcile k) reqs w = Some w'"
  using pr.run_good [of k left w reqs] assms by (auto simp: pool_status_good_def)

text \<open>
  C20. After a reconciliation without an error the stored status of the pool is the one computed
  from all its Subnets: their number, the free count and the owner of every CIDR. The
  observed generation is 0 and there are no conditions, whatever was stored before.
\<close>

theorem PoolStatus_Reconcile_stores:
  assumes "pool_status_store k pst" and "pool_stays k req" and "retry_law k" and "deep_equal_law k"
    and "\<forall>ns p. paging_law k ns p (rest ns p)" and "k_get_pool k req w = (Inr pool, w1)"
    and "PoolStatus_Reconcile k req w = Some ((res, None), w')"
  shows "\<exists>calc. Calculate (sp_CIDR (sp_spec pool)) (rest (fst req) (snd req) '''') [] = (calc, None)
    \<and> pst w' req = Some \<lparr>sp_ObservedGeneration = 0, sp_AllocatedCount = int (length (rest (fst req) (snd req) '''')),
        sp_FreeCountBySize = FreeCountBySize calc, sp_AllocatedCIDRs = AllocatedCIDRs calc, sp_Conditions = []\<rparr>"
proof -
  have key: "meta_key (sp_meta pool) = req" and st: "pst w req = Some (sp_status pool)"
    using pool_status_storeD(2,3) [OF assms(1,6)] .
  let ?L = "rest (fst req) (snd req) ''''"
  have law: "paging_law k (Namespace (sp_meta pool)) (Name (sp_meta pool)) (rest (fst req) (snd req))"
    using assms(5) key by (auto simp: meta_key_def)
  obtain r w2 where l: "listSubnetsPaged k pool w1 = Some (r, w2)" and rL: "\<And>xs. r = Inr xs \<Longrightarrow> xs = ?L"
    using list_pages_collects [OF law, of "''''" "[]" w1] by (auto simp: listSubnetsPaged_def)
  have w2: "pst w2 = pst w"
    using list_pages_pst [OF assms(1) law] l pool_status_storeD(1) [OF assms(1,6)] by (auto simp: listSubnetsPaged_def)
  obtain calc where c: "r = Inr ?L" "Calculate (sp_CIDR (sp_spec pool)) ?L [] = (calc, None)"
    and p: "patch_pool_status k req pool (new_pool_status calc) w2 = ((res, None), w')"
    using assms(6,7) l rL by (cases r) (auto simp: PoolStatus_Reconcile_def split: prod.splits option.splits)
  have "pst w' req = Some (new_pool_status calc)"
    using patch_pool_status_done [OF assms(1-4) _ p] st w2 by simp
  moreover have "AllocatedCount calc = int (length ?L)"
    using c(2) by (auto simp: Calculate_def Let_def split: sum.splits prod.splits if_splits)
  ultimately show ?thesis
    using c(2) by (auto simp: new_pool_status_def empty_pool_status_def)
qed

theorem PoolStatus_Reconcile_stores_witness:
  "\<exists>st w'. PoolStatus_Reconcile demo_paged (''ns'', ''p'') pool_world = Some ((no_requeue, None), w')
     \<and> mem_pst w' (''ns'', ''p'') = Some st \<and> sp_AllocatedCount st = 2"
proof -
  have g: "k_get_pool demo_paged (''ns'', ''p'') pool_world = (Inr paged_pool, pool_world)"
    by (simp add: demo_paged_def pool_world_def paged_pool_def meta_key_def empty_meta_def)
  have "\<exists>xs w2. listSubnetsPaged demo_paged paged_pool pool_world = Some (Inr xs, w2) \<and> st_pools w2 = [paged_pool]"
    unfolding listSubnetsPaged_def
    by (subst list_pages.simps, simp add: demo_paged_def Let_def, subst list_pages.simps,
        simp add: Let_def mem_kube_def pool_world_def)
  then obtain xs w2 where l: "listSubnetsPaged demo_paged paged_pool pool_world = Some (Inr xs, w2)" "st_pools w2 = [paged_pool]"
    by blast
  have "ParseCIDR (sp_CIDR (sp_spec paged_pool)) = Inr (v4InV6Prefix @ [10, 0, 0, 0], v4_net [10, 0, 0, 0] 16)"
    using ParseCIDR_print [of "[10, 0, 0, 0]" 16] by (simp add: paged_pool_def)
  then have "snd (Calculate (sp_CIDR (sp_spec paged_pool)) xs []) = None"
    unfolding Calculate_def Let_def by (simp split: prod.splits)
  then obtain calc where c: "Calculate (sp_CIDR (sp_spec paged_pool)) xs [] = (calc, None)"
    by (cases "Calculate (sp_CIDR (sp_spec paged_pool)) xs []") simp
  have "\<exists>w'. patch_pool_status demo_paged (''ns'', ''p'') paged_pool (new_pool_status calc) w2 = ((no_requeue, None), w')"
    using l(2) by (simp add: patch_pool_status_def k_RetryOnConflict_def demo_paged_def mem_kube_def numeral_eq_Suc
        pool_patch_once_def paged_pool_def meta_key_def empty_meta_def)
  then obtain w' where r: "PoolStatus_Reconcile demo_paged (''ns'', ''p'') pool_world = Some ((no_requeue, None), w')"
    by (auto simp: PoolStatus_Reconcile_def g l c)
  show ?thesis
    using PoolStatus_Reconcile_stores [OF demo_paged_laws, of "\<lambda>_ _. demo_rest", OF _ g r] r demo_paged_paging
    by (auto simp: demo_rest_def)
qed

end
