(* ===== verification/Pool_Claim.thy ===== *)
theory Pool_Claim
  imports Kube "HOL-Library.Multiset"
begin

text \<open>
  \<^verbatim>\<open>internal/controller/poolclaim_controller.go\<close>: a SubnetPoolClaim is turned into an
  internal SubnetClaim and, once that is Bound, into a child SubnetPool. The reconciler
  works from the state of the objects it owns; the lemmas show that it never owns more than
  one of each, over any sequence of requests.
\<close>

section \<open>Ownership\<close>

fun isOwnedBy_refs :: "OwnerReference list \<Rightarrow> string \<Rightarrow> bool" where
  "isOwnedBy_refs [] uid = False"
| "isOwnedBy_refs (ref # refs) uid = (if or_UID ref = uid then True else isOwnedBy_refs refs uid)"

definition isOwnedBy :: "ObjectMeta \<Rightarrow> ObjectMeta \<Rightarrow> bool" where
  "isOwnedBy obj owner = isOwnedBy_refs (OwnerReferences obj) (UID owner)"

definition getOwnedSubnetClaims :: "'w kube \<Rightarrow> SubnetPoolClaim \<Rightarrow> 'w \<Rightarrow> (error, SubnetClaim list) result \<times> 'w" where
  "getOwnedSubnetClaims k poolClaim w =
     (case k_list_claims k (Namespace (pc_meta poolClaim)) w of
        (Inl err, w1) \<Rightarrow> (Inl err, w1)
      | (Inr items, w1) \<Rightarrow> (Inr (filter (\<lambda>c. isOwnedBy (sc_meta c) (pc_meta poolClaim)) items), w1))"

definition getOwnedSubnetPools :: "'w kube \<Rightarrow> SubnetPoolClaim \<Rightarrow> 'w \<Rightarrow> (error, SubnetPool list) result \<times> 'w" where
  "getOwnedSubnetPools k poolClaim w =
     (case k_list_pools k (Namespace (pc_meta poolClaim)) w of
        (Inl err, w1) \<Rightarrow> (Inl err, w1)
      | (Inr items, w1) \<Rightarrow> (Inr (filter (\<lambda>p. isOwnedBy (sp_meta p) (pc_meta poolClaim)) items), w1))"

section \<open>Creation\<close>

definition internal_claim :: "SubnetPoolClaim \<Rightarrow> SubnetClaim" where
  "internal_claim poolClaim =
     \<lparr>sc_meta = empty_meta\<lparr>GenerateName := Name (pc_meta poolClaim) @ ''-'', Namespace := Namespace (pc_meta poolClaim)\<rparr>,
      sc_spec = \<lparr>sc_PoolRef = pc_ParentPoolRef (pc_spec poolClaim), sc_ClusterID = UID (pc_meta poolClaim),
        sc_BlockSize = pc_DesiredBlockSize (pc_spec poolClaim), sc_RequestedCIDR = ''''\<rparr>,
      sc_status = \<lparr>sc_ObservedGeneration = 0, sc_Phase = '''', sc_AllocatedCIDR = '''', sc_Message = '''', sc_Conditions = []\<rparr>\<rparr>"

definition createInternalSubnetClaim :: "'w kube \<Rightarrow> SubnetPoolClaim \<Rightarrow> 'w \<Rightarrow> (error, SubnetClaim) result \<times> 'w" where
  "createInternalSubnetClaim k poolClaim w =
     (case k_set_ref_claim k poolClaim (internal_claim poolClaim) of
        Inl err \<Rightarrow> (Inl (Wrapf ''failed to set controller reference: '' err), w)
      | Inr claim \<Rightarrow> k_create_claim k claim w)"

definition child_pool :: "SubnetPoolClaim \<Rightarrow> string \<Rightarrow> SubnetPool" where
  "child_pool poolClaim allocatedCIDR =
     \<lparr>sp_meta = empty_meta\<lparr>GenerateName := Name (pc_meta poolClaim) @ ''-'', Namespace := Namespace (pc_meta poolClaim),
        Labels := [''plexaubnet.io/parent'' \<mapsto> pc_ParentPoolRef (pc_spec poolClaim), ''plexaubnet.io/ipam'' \<mapsto> ''true'']\<rparr>,
      sp_spec = \<lparr>sp_CIDR = allocatedCIDR, sp_DefaultBlockSize = 0, sp_MinBlockSize = 0, sp_MaxBlockSize = 0, sp_Strategy = ''''\<rparr>,
      sp_status = empty_pool_status\<rparr>"

definition createChildPool :: "'w kube \<Rightarrow> SubnetPoolClaim \<Rightarrow> string \<Rightarrow> 'w \<Rightarrow> (error, SubnetPool) result \<times> 'w" where
  "createChildPool k poolClaim allocatedCIDR w =
     (case k_set_ref_pool k poolClaim (child_pool poolClaim allocatedCIDR) of
        Inl err \<Rightarrow> (Inl (Wrapf ''failed to set controller reference: '' err), w)
      | Inr pool \<Rightarrow> k_create_pool k pool w)"

section \<open>Status\<close>

definition update_poolclaim_once ::
    "'w kube \<Rightarrow> SubnetPoolClaim \<Rightarrow> string \<Rightarrow> string \<Rightarrow> string \<Rightarrow> 'w \<Rightarrow> (error, unit) result \<times> 'w" where
  "update_poolclaim_once k poolClaim boundPoolName phase msg w =
     (case k_get_poolclaim k (Namespace (pc_meta poolClaim), Name (pc_meta poolClaim)) w of
        (Inl err, w1) \<Rightarrow> (Inl err, w1)
      | (Inr latest, w1) \<Rightarrow>
          k_update_poolclaim_status k (latest\<lparr>pc_status := (pc_status latest)\<lparr>
             pc_ObservedGeneration := Generation (pc_meta latest), pc_Phase := phase,
             pc_BoundPoolName := boundPoolName, pc_Message := msg\<rparr>\<rparr>) w1)"

definition updatePoolClaimStatus ::
    "'w kube \<Rightarrow> SubnetPoolClaim \<Rightarrow> string \<Rightarrow> string \<Rightarrow> string \<Rightarrow> 'w \<Rightarrow> (error, unit) result \<times> 'w" where
  "updatePoolClaimStatus k poolClaim boundPoolName phase msg =
     k_RetryOnConflict k (k_DefaultRetry_Steps k) (update_poolclaim_once k poolClaim boundPoolName phase msg)"

section \<open>Reconciliation\<close>

definition requeue_after :: "int \<Rightarrow> Result" where
  "requeue_after s = no_requeue\<lparr>RequeueAfter := s\<rparr>"

text \<open>The status update that ends a reconciliation.\<close>

definition finish_status ::
    "'w kube \<Rightarrow> SubnetPoolClaim \<Rightarrow> string \<Rightarrow> string \<Rightarrow> string \<Rightarrow> 'w \<Rightarrow> (Result \<times> error option) \<times> 'w" where
  "finish_status k poolClaim boundPoolName phase msg w =
     (case updatePoolClaimStatus k poolClaim boundPoolName phase msg w of
        (Inl err, w1) \<Rightarrow> ((requeue_after 5, Some err), w1)
      | (Inr _, w1) \<Rightarrow> ((no_requeue, None), w1))"

definition reconcileBoundClaim ::
    "'w kube \<Rightarrow> SubnetPoolClaim \<Rightarrow> SubnetClaim \<Rightarrow> 'w \<Rightarrow> (Result \<times> error option) \<times> 'w" where
  "reconcileBoundClaim k poolClaim claim w =
     (case getOwnedSubnetPools k poolClaim w of
        (Inl err, w1) \<Rightarrow> ((no_requeue, Some err), w1)
      | (Inr [], w1) \<Rightarrow>
          (case createChildPool k poolClaim (sc_AllocatedCIDR (sc_status claim)) w1 of
             (Inl err, w2) \<Rightarrow> ((requeue_after 5, Some err), w2)
           | (Inr childPool, w2) \<Rightarrow> finish_status k poolClaim (Name (sp_meta childPool)) PoolClaimBound '''' w2)
      | (Inr (childPool # _), w1) \<Rightarrow> finish_status k poolClaim (Name (sp_meta childPool)) PoolClaimBound '''' w1)"

definition reconcileErrorClaim ::
    "'w kube \<Rightarrow> SubnetPoolClaim \<Rightarrow> SubnetClaim \<Rightarrow> 'w \<Rightarrow> (Result \<times> error option) \<times> 'w" where
  "reconcileErrorClaim k poolClaim claim w =
     finish_status k poolClaim '''' PoolClaimError (sc_Message (sc_status claim)) w"

definition reconcilePendingClaim :: "'w kube \<Rightarrow> SubnetPoolClaim \<Rightarrow> 'w \<Rightarrow> (Result \<times> error option) \<times> 'w" where
  "reconcilePendingClaim k poolClaim w =
     (case getOwnedSubnetClaims k poolClaim w of
        (Inl err, w1) \<Rightarrow> ((no_requeue, Some err), w1)
      | (Inr [], w1) \<Rightarrow>
          (case createInternalSubnetClaim k poolClaim w1 of
             (Inl err, w2) \<Rightarrow> ((requeue_after 5, Some err), w2)
           | (Inr _, w2) \<Rightarrow> ((no_requeue\<lparr>Requeue := True\<rparr>, None), w2))
      | (Inr (claim # _), w1) \<Rightarrow>
          let phase = sc_Phase (sc_status claim)
          in if phase = ClaimPending then ((requeue_after 5, None), w1)
             else if phase = ClaimBound then
               (if sc_AllocatedCIDR (sc_status claim) = '''' then ((requeue_after 5, None), w1)
                else reconcileBoundClaim k poolClaim claim w1)
             else if phase = ClaimError then reconcileErrorClaim k poolClaim claim w1
             else ((requeue_after 5, None), w1))"

definition PoolClaim_Reconcile :: "'w kube \<Rightarrow> NamespacedName \<Rightarrow> 'w \<Rightarrow> (Result \<times> error option) \<times> 'w" where
  "PoolClaim_Reconcile k req w =
     (case k_get_poolclaim k req w of
        (Inl err, w1) \<Rightarrow> ((no_requeue, if k_IsNotFound k err then None else Some err), w1)
      | (Inr poolClaim, w1) \<Rightarrow>
          let st = pc_status poolClaim; gen = Generation (pc_meta poolClaim)
          in if DeletionTimestamp (pc_meta poolClaim) \<noteq> None then ((no_requeue, None), w1)
             else if pc_ObservedGeneration st = gen \<and> pc_Phase st = PoolClaimBound then ((no_requeue, None), w1)
             else if pc_Phase st = '''' \<or> pc_Phase st = PoolClaimPending then reconcilePendingClaim k poolClaim w1
             else if pc_Phase st = PoolClaimBound then ((no_requeue, None), w1)
             else if pc_Phase st = PoolClaimError then
               (if pc_ObservedGeneration st \<noteq> gen then reconcilePendingClaim k poolClaim w1 else ((no_requeue, None), w1))
             else ((no_requeue, None), w1))"

section \<open>Owned objects\<close>

text \<open>How many stored objects of a namespace the owner \<open>uid\<close> has.\<close>

definition owned_count :: "('o \<Rightarrow> ObjectMeta) \<Rightarrow> 'o multiset \<Rightarrow> string \<Rightarrow> string \<Rightarrow> nat" where
  "owned_count meta M ns uid = size {#x \<in># M. Namespace (meta x) = ns \<and> isOwnedBy_refs (OwnerReferences (meta x)) uid#}"

definition one_each :: "('o \<Rightarrow> ObjectMeta) \<Rightarrow> 'o multiset \<Rightarrow> bool" where
  "one_each meta M \<longleftrightarrow> (\<forall>ns uid. owned_count meta M ns uid \<le> 1)"

lemma isOwnedBy_refs_iff: "isOwnedBy_refs refs uid \<longleftrightarrow> uid \<in> or_UID ` set refs"
  by (induction refs) auto

lemma one_each_add:
  assumes "one_each meta M" and "Namespace (meta x) = ns" and "map or_UID (OwnerReferences (meta x)) = [uid]"
    and "owned_count meta M ns uid = 0"
  shows "one_each meta (add_mset x M)"
  unfolding one_each_def
proof (intro allI)
  fix ns' uid'
  have o: "isOwnedBy_refs (OwnerReferences (meta x)) u \<longleftrightarrow> u = uid" for u
  proof -
    have "or_UID ` set (OwnerReferences (meta x)) = {uid}"
      using arg_cong [OF assms(3), of set] by simp
    then show ?thesis by (simp add: isOwnedBy_refs_iff)
  qed
  show "owned_count meta (add_mset x M) ns' uid' \<le> 1"
    using assms(1,2,4) by (cases "ns' = ns \<and> uid' = uid") (auto simp: one_each_def owned_count_def o)
qed

text \<open>A list filtered by ownership is empty exactly when the owner has no stored object.\<close>

lemma owned_empty:
  assumes "mset items = filter_mset (\<lambda>x. Namespace (meta x) = ns) M"
    and "filter (\<lambda>x. isOwnedBy (meta x) owner) items = []"
  shows "owned_count meta M ns (UID owner) = 0"
proof -
  have "{#x \<in># M. Namespace (meta x) = ns \<and> isOwnedBy_refs (OwnerReferences (meta x)) (UID owner)#}
      = filter_mset (\<lambda>x. isOwnedBy (meta x) owner) (mset items)"
    unfolding assms(1) filter_filter_mset by (simp add: isOwnedBy_def)
  also have "\<dots> = mset (filter (\<lambda>x. isOwnedBy (meta x) owner) items)" by simp
  finally show ?thesis unfolding owned_count_def assms(2) by simp
qed

text \<open>
  The API server with one writer of claims and pools: lists are current, a successful
  \<open>Create\<close> adds the object it returns, with the namespace and the owners it was given, and
  nothing else adds or removes one. \<open>SetControllerReference\<close> adds the owner.
\<close>

definition owner_store :: "'w kube \<Rightarrow> ('w \<Rightarrow> SubnetClaim multiset) \<Rightarrow> ('w \<Rightarrow> SubnetPool multiset) \<Rightarrow> bool" where
  "owner_store k cl pl \<longleftrightarrow>
     (\<forall>ns w r w'. k_list_claims k ns w = (r, w') \<longrightarrow> cl w' = cl w \<and> pl w' = pl w
        \<and> (\<forall>items. r = Inr items \<longrightarrow> mset items = filter_mset (\<lambda>c. Namespace (sc_meta c) = ns) (cl w)))
     \<and> (\<forall>ns w r w'. k_list_pools k ns w = (r, w') \<longrightarrow> cl w' = cl w \<and> pl w' = pl w
        \<and> (\<forall>items. r = Inr items \<longrightarrow> mset items = filter_mset (\<lambda>p. Namespace (sp_meta p) = ns) (pl w)))
     \<and> (\<forall>c w r w'. k_create_claim k c w = (r, w') \<longrightarrow> pl w' = pl w \<and> (\<forall>e. r = Inl e \<longrightarrow> cl w' = cl w)
        \<and> (\<forall>c'. r = Inr c' \<longrightarrow> cl w' = add_mset c' (cl w) \<and> Namespace (sc_meta c') = Namespace (sc_meta c)
             \<and> OwnerReferences (sc_meta c') = OwnerReferences (sc_meta c)))
     \<and> (\<forall>p w r w'. k_create_pool k p w = (r, w') \<longrightarrow> cl w' = cl w \<and> (\<forall>e. r = Inl e \<longrightarrow> pl w' = pl w)
        \<and> (\<forall>p'. r = Inr p' \<longrightarrow> pl w' = add_mset p' (pl w) \<and> Namespace (sp_meta p') = Namespace (sp_meta p)
             \<and> OwnerReferences (sp_meta p') = OwnerReferences (sp_meta p)))
     \<and> (\<forall>key w r w'. k_get_poolclaim k key w = (r, w') \<longrightarrow> cl w' = cl w \<and> pl w' = pl w)
     \<and> (\<forall>c w r w'. k_update_poolclaim_status k c w = (r, w') \<longrightarrow> cl w' = cl w \<and> pl w' = pl w)
     \<and> (\<forall>e w. cl (k_emit k e w) = cl w \<and> pl (k_emit k e w) = pl w)"

definition owner_ref_law :: "'w kube \<Rightarrow> bool" where
  "owner_ref_law k \<longleftrightarrow>
     (\<forall>pc c c'. k_set_ref_claim k pc c = Inr c' \<longrightarrow> Namespace (sc_meta c') = Namespace (sc_meta c)
        \<and> map or_UID (OwnerReferences (sc_meta c')) = map or_UID (OwnerReferences (sc_meta c)) @ [UID (pc_meta pc)])
     \<and> (\<forall>pc p p'. k_set_ref_pool k pc p = Inr p' \<longrightarrow> Namespace (sp_meta p') = Namespace (sp_meta p)
        \<and> map or_UID (OwnerReferences (sp_meta p')) = map or_UID (OwnerReferences (sp_meta p)) @ [UID (pc_meta pc)])"

lemma owner_storeD:
  assumes "owner_store k cl pl"
  shows "k_list_claims k ns w = (rc, w') \<Longrightarrow> cl w' = cl w \<and> pl w' = pl w"
    and "k_list_claims k ns w = (Inr cs, w') \<Longrightarrow> mset cs = filter_mset (\<lambda>c. Namespace (sc_meta c) = ns) (cl w)"
    and "k_list_pools k ns w = (rp, w') \<Longrightarrow> cl w' = cl w \<and> pl w' = pl w"
    and "k_list_pools k ns w = (Inr ps, w') \<Longrightarrow> mset ps = filter_mset (\<lambda>p. Namespace (sp_meta p) = ns) (pl w)"
    and "k_create_claim k c w = (Inl e, w') \<Longrightarrow> cl w' = cl w \<and> pl w' = pl w"
    and "k_create_claim k c w = (Inr c', w') \<Longrightarrow> cl w' = add_mset c' (cl w) \<and> pl w' = pl w
      \<and> Namespace (sc_meta c') = Namespace (sc_meta c) \<and> OwnerReferences (sc_meta c') = OwnerReferences (sc_meta c)"
    and "k_create_pool k p w = (Inl e, w') \<Longrightarrow> cl w' = cl w \<and> pl w' = pl w"
    and "k_create_pool k p w = (Inr p', w') \<Longrightarrow> pl w' = add_mset p' (pl w) \<and> cl w' = cl w
      \<and> Namespace (sp_meta p') = Namespace (sp_meta p) \<and> OwnerReferences (sp_meta p') = OwnerReferences (sp_meta p)"
    and "k_get_poolclaim k key w = (rg, w') \<Longrightarrow> cl w' = cl w \<and> pl w' = pl w"
    and "k_update_poolclaim_status k pc w = (ru, w') \<Longrightarrow> cl w' = cl w \<and> pl w' = pl w"
    and "cl (k_emit k ef w) = cl w \<and> pl (k_emit k ef w) = pl w"
proof -
  note a = assms [unfolded owner_store_def]
  show "k_list_claims k ns w = (rc, w') \<Longrightarrow> cl w' = cl w \<and> pl w' = pl w"
    "k_list_claims k ns w = (Inr cs, w') \<Longrightarrow> mset cs = filter_mset (\<lambda>c. Namespace (sc_meta c) = ns) (cl w)"
    using conjunct1 [OF a] by blast+
  note a = conjunct2 [OF a]
  show "k_list_pools k ns w = (rp, w') \<Longrightarrow> cl w' = cl w \<and> pl w' = pl w"
    "k_list_pools k ns w = (Inr ps, w') \<Longrightarrow> mset ps = filter_mset (\<lambda>p. Namespace (sp_meta p) = ns) (pl w)"
    using conjunct1 [OF a] by blast+
  note a = conjunct2 [OF a]
  show "k_create_claim k c w = (Inl e, w') \<Longrightarrow> cl w' = cl w \<and> pl w' = pl w"
    "k_create_claim k c w = (Inr c', w') \<Longrightarrow> cl w' = add_mset c' (cl w) \<and> pl w' = pl w
      \<and> Namespace (sc_meta c') = Namespace (sc_meta c) \<and> OwnerReferences (sc_meta c') = OwnerReferences (sc_meta c)"
    using conjunct1 [OF a] by blast+
  note a = conjunct2 [OF a]
  show "k_create_pool k p w = (Inl e, w') \<Longrightarrow> cl w' = cl w \<and> pl w' = pl w"
    "k_create_pool k p w = (Inr p', w') \<Longrightarrow> pl w' = add_mset p' (pl w) \<and> cl w' = cl w
      \<and> Namespace (sp_meta p') = Namespace (sp_meta p) \<and> OwnerReferences (sp_meta p') = OwnerReferences (sp_meta p)"
    using conjunct1 [OF a] by blast+
  note a = conjunct2 [OF a]
  show "k_get_poolclaim k key w = (rg, w') \<Longrightarrow> cl w' = cl w \<and> pl w' = pl w" using conjunct1 [OF a] by blast
  note a = conjunct2 [OF a]
  show "k_update_poolclaim_status k pc w = (ru, w') \<Longrightarrow> cl w' = cl w \<and> pl w' = pl w" using conjunct1 [OF a] by blast
  note a = conjunct2 [OF a]
  show "cl (k_emit k ef w) = cl w \<and> pl (k_emit k ef w) = pl w" using a by blast
qed

section \<open>At most one of each\<close>

definition one_owned :: "('w \<Rightarrow> SubnetClaim multiset) \<Rightarrow> ('w \<Rightarrow> SubnetPool multiset) \<Rightarrow> 'w \<Rightarrow> bool" where
  "one_owned cl pl w \<longleftrightarrow> one_each sc_meta (cl w) \<and> one_each sp_meta (pl w)"

lemma one_owned_cong: "one_owned cl pl w \<Longrightarrow> cl w' = cl w \<and> pl w' = pl w \<Longrightarrow> one_owned cl pl w'"
  by (simp add: one_owned_def)

text \<open>Updating the status of a SubnetPoolClaim leaves claims and pools alone.\<close>

lemma finish_status_views:
  assumes os: "owner_store k cl pl" and law: "retry_law k" "0 < k_DefaultRetry_Steps k"
  shows "cl (snd (finish_status k pc n ph m w)) = cl w \<and> pl (snd (finish_status k pc n ph m w)) = pl w"
proof -
  let ?f = "update_poolclaim_once k pc n ph m" and ?I = "\<lambda>v. cl v = cl w \<and> pl v = pl w"
  obtain s where s: "k_DefaultRetry_Steps k = Suc s" using law(2) gr0_conv_Suc by blast
  obtain r w1 where r: "k_OnError k (Suc s) (k_IsConflict k) ?f w = (r, w1)" by fastforce
  have step: "?I v'" if "?I v" "?f v = (q, v')" for v q v'
  proof -
    obtain g v1 where g: "k_get_poolclaim k (Namespace (pc_meta pc), Name (pc_meta pc)) v = (g, v1)" by fastforce
    then show ?thesis
      using that owner_storeD(9) [OF os g] owner_storeD(10) [OF os] by (cases g) (auto simp: update_poolclaim_once_def)
  qed
  have "?I w1"
    by (rule OnError_invariant [where I = ?I, OF law(1) _ _ r]) (fact step, simp_all add: owner_storeD(11) [OF os])
  then show ?thesis
    using r s by (cases r) (simp_all add: finish_status_def updatePoolClaimStatus_def k_RetryOnConflict_def)
qed

lemma finish_status_owned:
  assumes "owner_store k cl pl" and "retry_law k" "0 < k_DefaultRetry_Steps k" and "one_owned cl pl w"
  shows "one_owned cl pl (snd (finish_status k pc n ph m w))"
  using one_owned_cong [OF assms(4)] finish_status_views [OF assms(1-3)] by blast

lemma createInternalSubnetClaim_owned:
  assumes os: "owner_store k cl pl" and ref: "owner_ref_law k" and inv: "one_owned cl pl w"
    and none: "owned_count sc_meta (cl w) (Namespace (pc_meta pc)) (UID (pc_meta pc)) = 0"
  shows "one_owned cl pl (snd (createInternalSubnetClaim k pc w))"
proof (cases "k_set_ref_claim k pc (internal_claim pc)")
  case (Inl e)
  then show ?thesis using inv by (simp add: createInternalSubnetClaim_def)
next
  case (Inr c)
  have c: "Namespace (sc_meta c) = Namespace (pc_meta pc)" "map or_UID (OwnerReferences (sc_meta c)) = [UID (pc_meta pc)]"
    using ref Inr unfolding owner_ref_law_def by (simp_all add: internal_claim_def empty_meta_def)
  obtain r w1 where r: "k_create_claim k c w = (r, w1)" by fastforce
  show ?thesis
  proof (cases r)
    case (Inl e)
    then have "one_owned cl pl w1" using one_owned_cong [OF inv] owner_storeD(5) [OF os] r by blast
    then show ?thesis using \<open>k_set_ref_claim k pc _ = Inr c\<close> r by (simp add: createInternalSubnetClaim_def)
  next
    case (Inr c')
    have "cl w1 = add_mset c' (cl w) \<and> pl w1 = pl w \<and> Namespace (sc_meta c') = Namespace (sc_meta c)
        \<and> OwnerReferences (sc_meta c') = OwnerReferences (sc_meta c)"
      using owner_storeD(6) [OF os] r Inr by blast
    then have "one_owned cl pl w1"
      using one_each_add [of sc_meta "cl w" c' "Namespace (pc_meta pc)" "UID (pc_meta pc)"] c inv none by (simp add: one_owned_def)
    then show ?thesis using \<open>k_set_ref_claim k pc _ = Inr c\<close> r by (simp add: createInternalSubnetClaim_def)
  qed
qed

lemma createChildPool_owned:
  assumes os: "owner_store k cl pl" and ref: "owner_ref_law k" and inv: "one_owned cl pl w"
    and none: "owned_count sp_meta (pl w) (Namespace (pc_meta pc)) (UID (pc_meta pc)) = 0"
  shows "one_owned cl pl (snd (createChildPool k pc cidr w))"
proof (cases "k_set_ref_pool k pc (child_pool pc cidr)")
  case (Inl e)
  then show ?thesis using inv by (simp add: createChildPool_def)
next
  case (Inr p)
  have p: "Namespace (sp_meta p) = Namespace (pc_meta pc)" "map or_UID (OwnerReferences (sp_meta p)) = [UID (pc_meta pc)]"
    using ref Inr unfolding owner_ref_law_def by (simp_all add: child_pool_def empty_meta_def)
  obtain r w1 where r: "k_create_pool k p w = (r, w1)" by fastforce
  show ?thesis
  proof (cases r)
    case (Inl e)
    then have "one_owned cl pl w1" using one_owned_cong [OF inv] owner_storeD(7) [OF os] r by blast
    then show ?thesis using \<open>k_set_ref_pool k pc _ = Inr p\<close> r by (simp add: createChildPool_def)
  next
    case (Inr p')
    have "pl w1 = add_mset p' (pl w) \<and> cl w1 = cl w \<and> Namespace (sp_meta p') = Namespace (sp_meta p)
        \<and> OwnerReferences (sp_meta p') = OwnerReferences (sp_meta p)"
      using owner_storeD(8) [OF os] r Inr by blast
    then have "one_owned cl pl w1"
      using one_each_add [of sp_meta "pl w" p' "Namespace (pc_meta pc)" "UID (pc_meta pc)"] p inv none by (simp add: one_owned_def)
    then show ?thesis using \<open>k_set_ref_pool k pc _ = Inr p\<close> r by (simp add: createChildPool_def)
  qed
qed

lemma reconcileBoundClaim_owned:
  assumes os: "owner_store k cl pl" and ref: "owner_ref_law k" and law: "retry_law k" "0 < k_DefaultRetry_Steps k"
    and inv: "one_owned cl pl w"
  shows "one_owned cl pl (snd (reconcileBoundClaim k pc claim w))"
proof -
  obtain l w1 where l: "k_list_pools k (Namespace (pc_meta pc)) w = (l, w1)" by fastforce
  have same: "cl w1 = cl w \<and> pl w1 = pl w" by (rule owner_storeD(3) [OF os l])
  have w1: "one_owned cl pl w1" by (rule one_owned_cong [OF inv same])
  show ?thesis
  proof (cases l)
    case (Inl e)
    then show ?thesis using l w1 by (simp add: reconcileBoundClaim_def getOwnedSubnetPools_def)
  next
    case (Inr items)
    let ?owned = "filter (\<lambda>p. isOwnedBy (sp_meta p) (pc_meta pc)) items"
    obtain c w2 where c: "createChildPool k pc (sc_AllocatedCIDR (sc_status claim)) w1 = (c, w2)" by fastforce
    have "one_owned cl pl w2" if "?owned = []"
      using createChildPool_owned [OF os ref w1, of pc "sc_AllocatedCIDR (sc_status claim)"] c same
        owned_empty [OF owner_storeD(4) [OF os l [unfolded Inr]] that] by simp
    then show ?thesis
      using l Inr c w1 finish_status_owned [OF os law]
      by (cases ?owned; cases c) (simp_all add: reconcileBoundClaim_def getOwnedSubnetPools_def)
  qed
qed

lemma reconcilePendingClaim_owned:
  assumes os: "owner_store k cl pl" and ref: "owner_ref_law k" and law: "retry_law k" "0 < k_DefaultRetry_Steps k"
    and inv: "one_owned cl pl w"
  shows "one_owned cl pl (snd (reconcilePendingClaim k pc w))"
proof -
  obtain l w1 where l: "k_list_claims k (Namespace (pc_meta pc)) w = (l, w1)" by fastforce
  have same: "cl w1 = cl w \<and> pl w1 = pl w" by (rule owner_storeD(1) [OF os l])
  have w1: "one_owned cl pl w1" by (rule one_owned_cong [OF inv same])
  show ?thesis
  proof (cases l)
    case (Inl e)
    then show ?thesis using l w1 by (simp add: reconcilePendingClaim_def getOwnedSubnetClaims_def)
  next
    case (Inr items)
    let ?owned = "filter (\<lambda>c. isOwnedBy (sc_meta c) (pc_meta pc)) items"
    obtain c w2 where c: "createInternalSubnetClaim k pc w1 = (c, w2)" by fastforce
    have "one_owned cl pl w2" if "?owned = []"
      using createInternalSubnetClaim_owned [OF os ref w1, of pc] c same
        owned_empty [OF owner_storeD(2) [OF os l [unfolded Inr]] that] by simp
    then show ?thesis
      using l Inr c w1 finish_status_owned [OF os law] reconcileBoundClaim_owned [OF os ref law]
      by (cases ?owned; cases c) (simp_all add: reconcilePendingClaim_def getOwnedSubnetClaims_def reconcileErrorClaim_def Let_def)
  qed
qed

lemma PoolClaim_Reconcile_owned:
  assumes os: "owner_store k cl pl" and ref: "owner_ref_law k" and law: "retry_law k" "0 < k_DefaultRetry_Steps k"
    and inv: "one_owned cl pl w"
  shows "one_owned cl pl (snd (PoolClaim_Reconcile k req w))"
proof -
  obtain g w1 where g: "k_get_poolclaim k req w = (g, w1)" by fastforce
  have w1: "one_owned cl pl w1" by (rule one_owned_cong [OF inv owner_storeD(9) [OF os g]])
  then show ?thesis
    using g reconcilePendingClaim_owned [OF os ref law w1] by (cases g) (simp_all add: PoolClaim_Reconcile_def Let_def)
qed

definition poolclaim_good :: "'w kube \<Rightarrow> ('w \<Rightarrow> SubnetClaim multiset) \<Rightarrow> ('w \<Rightarrow> SubnetPool multiset) \<Rightarrow> 'w \<Rightarrow> bool" where
  "poolclaim_good k cl pl w \<longleftrightarrow> owner_store k cl pl \<and> owner_ref_law k \<and> retry_law k \<and> 0 < k_DefaultRetry_Steps k
     \<and> one_owned cl pl w"

interpretation cc: reconciler "\<lambda>q w. Some (PoolClaim_Reconcile k q w)" "poolclaim_good k cl pl" "\<lambda>_ _. True" for k cl pl
proof
  fix w q
  assume good: "poolclaim_good k cl pl w"
  obtain out w' where "PoolClaim_Reconcile k q w = (out, w')" by fastforce
  with good PoolClaim_Reconcile_owned [of k cl pl w q]
  show "\<exists>out w'. Some (PoolClaim_Reconcile k q w) = Some (out, w') \<and> poolclaim_good k cl pl w' \<and> True"
    by (simp add: poolclaim_good_def)
qed simp_all

section \<open>The in-memory store\<close>

lemma mem_kube_owners: "owner_store mem_kube (\<lambda>w. mset (st_claims w)) (\<lambda>w. mset (st_pools w))"
  unfolding owner_store_def
  by (intro conjI) (auto simp: mem_kube_def create_obj_def split: if_splits)

lemma mem_kube_owner_ref: "owner_ref_law mem_kube"
  by (simp add: owner_ref_law_def mem_kube_def owned_by_def)

lemma mem_kube_steps: "0 < k_DefaultRetry_Steps mem_kube"
  by (simp add: mem_kube_def)

definition demo_poolclaim :: SubnetPoolClaim where
  "demo_poolclaim = \<lparr>pc_meta = empty_meta\<lparr>Name := ''x'', Namespace := ''ns'', UID := ''u'', Generation := 2\<rparr>,
     pc_spec = \<lparr>pc_ParentPoolRef = ''p'', pc_DesiredBlockSize = 20\<rparr>,
     pc_status = \<lparr>pc_ObservedGeneration = 1, pc_Phase = PoolClaimError, pc_BoundPoolName = '''', pc_Message = ''m'', pc_Conditions = []\<rparr>\<rparr>"

definition poolclaim_world :: "SubnetClaim list \<Rightarrow> store" where
  "poolclaim_world cs = \<lparr>st_pools = [], st_subnets = [], st_claims = cs, st_poolclaims = [demo_poolclaim], st_log = []\<rparr>"

section \<open>Properties\<close>



text \<open>
  A SubnetPoolClaim in phase Error that is changed is not retried with the new wishes: if the
  list shows an internal claim of its own that failed, the reconciliation only writes the
  phase Error again, with the message of that claim. No claim is created for the new block
  size.
\<close>

lemma failed_poolclaim_keeps_old_claim:
  assumes "k_get_poolclaim k req w = (Inr pc, w1)" and "DeletionTimestamp (pc_meta pc) = None"
    and "pc_Phase (pc_status pc) = PoolClaimError" and "pc_ObservedGeneration (pc_status pc) \<noteq> Generation (pc_meta pc)"
    and "k_list_claims k (Namespace (pc_meta pc)) w1 = (Inr items, w2)"
    and "filter (\<lambda>c. isOwnedBy (sc_meta c) (pc_meta pc)) items = c # cs" and "sc_Phase (sc_status c) = ClaimError"
  shows "PoolClaim_Reconcile k req w =
    (case updatePoolClaimStatus k pc '''' PoolClaimError (sc_Message (sc_status c)) w2 of
       (Inl err, w3) \<Rightarrow> ((requeue_after 5, Some err), w3) | (Inr _, w3) \<Rightarrow> ((no_requeue, None), w3))"
  using assms
  by (simp add: PoolClaim_Reconcile_def reconcilePendingClaim_def getOwnedSubnetClaims_def reconcileErrorClaim_def
      finish_status_def phase_defs Let_def)

end
