(* ===== verification/Footprint.thy ===== *)
theory Footprint
  imports Claim_Reconciler Subnet_Controller Pool_Status Pool_Claim
begin

text \<open>
  Every reconciliation is a sequence of calls to the API server and of effects. \<open>reaches\<close> is
  the step relation of such sequences for a set of allowed calls; one lemma per controller
  shows that its reconciliations are sequences of the calls in its footprint. Whatever every
  call of a footprint keeps, the controller keeps.
\<close>

section \<open>Calls\<close>

datatype call =
    GetPool NamespacedName | GetSubnet NamespacedName | GetClaim NamespacedName | GetPoolClaim NamespacedName
  | ListSubnets string string | ListPage string string nat string | ListClaims string | ListPools string
  | CreateSubnet Subnet | CreateClaim SubnetClaim | CreatePool SubnetPool
  | UpdateClaim SubnetClaim | UpdatePoolClaim SubnetPoolClaim
  | PatchPool SubnetPool SubnetPool | PatchSubnet Subnet Subnet | Emit effect

fun after :: "'w kube \<Rightarrow> call \<Rightarrow> 'w \<Rightarrow> 'w" where
  "after k (GetPool key) w = snd (k_get_pool k key w)"
| "after k (GetSubnet key) w = snd (k_get_subnet k key w)"
| "after k (GetClaim key) w = snd (k_get_claim k key w)"
| "after k (GetPoolClaim key) w = snd (k_get_poolclaim k key w)"
| "after k (ListSubnets ns p) w = snd (k_list_subnets k ns p w)"
| "after k (ListPage ns p n t) w = snd (k_list_subnets_page k ns p n t w)"
| "after k (ListClaims ns) w = snd (k_list_claims k ns w)"
| "after k (ListPools ns) w = snd (k_list_pools k ns w)"
| "after k (CreateSubnet s) w = snd (k_create_subnet k s w)"
| "after k (CreateClaim c) w = snd (k_create_claim k c w)"
| "after k (CreatePool p) w = snd (k_create_pool k p w)"
| "after k (UpdateClaim c) w = snd (k_update_claim_status k c w)"
| "after k (UpdatePoolClaim c) w = snd (k_update_poolclaim_status k c w)"
| "after k (PatchPool b p) w = snd (k_patch_pool_status k b p w)"
| "after k (PatchSubnet b s) w = snd (k_patch_subnet_status k b s w)"
| "after k (Emit e) w = k_emit k e w"

inductive reaches :: "'w kube \<Rightarrow> (call \<Rightarrow> bool) \<Rightarrow> 'w \<Rightarrow> 'w \<Rightarrow> bool" for k C where
  stop: "reaches k C w w"
| call: "reaches k C w v \<Longrightarrow> C c \<Longrightarrow> reaches k C w (after k c v)"

lemma reaches_trans: "reaches k C v w \<Longrightarrow> reaches k C u v \<Longrightarrow> reaches k C u w"
  by (induction rule: reaches.induct) (auto intro: reaches.intros)

text \<open>Rule induction: a relation that every allowed call respects holds along every sequence.\<close>

lemma reaches_respects:
  assumes "reaches k C w w'" and "reflp R" and "transp R" and "\<And>c v. C c \<Longrightarrow> R v (after k c v)"
  shows "R w w'"
  using assms(1)
proof (induction rule: reaches.induct)
  case (stop w)
  then show ?case using assms(2) by (simp add: reflpD)
next
  case (call w v c)
  then show ?case using assms(3,4) by (blast dest: transpD)
qed

text \<open>One call after a sequence, in the shape of the case analyses of the source.\<close>

lemma reaches_calls:
  "k_get_pool k key v = (rp, w') \<Longrightarrow> C (GetPool key) \<Longrightarrow> reaches k C w v \<Longrightarrow> reaches k C w w'"
  "k_get_subnet k key v = (rs, w') \<Longrightarrow> C (GetSubnet key) \<Longrightarrow> reaches k C w v \<Longrightarrow> reaches k C w w'"
  "k_get_claim k key v = (rc, w') \<Longrightarrow> C (GetClaim key) \<Longrightarrow> reaches k C w v \<Longrightarrow> reaches k C w w'"
  "k_get_poolclaim k key v = (rpc, w') \<Longrightarrow> C (GetPoolClaim key) \<Longrightarrow> reaches k C w v \<Longrightarrow> reaches k C w w'"
  "k_list_subnets k ns p v = (rl, w') \<Longrightarrow> C (ListSubnets ns p) \<Longrightarrow> reaches k C w v \<Longrightarrow> reaches k C w w'"
  "k_list_subnets_page k ns p n t v = (rpg, w') \<Longrightarrow> C (ListPage ns p n t) \<Longrightarrow> reaches k C w v \<Longrightarrow> reaches k C w w'"
  "k_list_claims k ns v = (rlc, w') \<Longrightarrow> C (ListClaims ns) \<Longrightarrow> reaches k C w v \<Longrightarrow> reaches k C w w'"
  "k_list_pools k ns v = (rlp, w') \<Longrightarrow> C (ListPools ns) \<Longrightarrow> reaches k C w v \<Longrightarrow> reaches k C w w'"
  "k_create_subnet k s v = (rs, w') \<Longrightarrow> C (CreateSubnet s) \<Longrightarrow> reaches k C w v \<Longrightarrow> reaches k C w w'"
  "k_create_claim k c v = (rc, w') \<Longrightarrow> C (CreateClaim c) \<Longrightarrow> reaches k C w v \<Longrightarrow> reaches k C w w'"
  "k_create_pool k q v = (rp, w') \<Longrightarrow> C (CreatePool q) \<Longrightarrow> reaches k C w v \<Longrightarrow> reaches k C w w'"
  "k_update_claim_status k c v = (ru, w') \<Longrightarrow> C (UpdateClaim c) \<Longrightarrow> reaches k C w v \<Longrightarrow> reaches k C w w'"
  "k_update_poolclaim_status k pc v = (ru, w') \<Longrightarrow> C (UpdatePoolClaim pc) \<Longrightarrow> reaches k C w v \<Longrightarrow> reaches k C w w'"
  "k_patch_pool_status k b q v = (ru, w') \<Longrightarrow> C (PatchPool b q) \<Longrightarrow> reaches k C w v \<Longrightarrow> reaches k C w w'"
  "k_patch_subnet_status k bs s v = (ru, w') \<Longrightarrow> C (PatchSubnet bs s) \<Longrightarrow> reaches k C w v \<Longrightarrow> reaches k C w w'"
  using call [of k C w v "GetPool key"] call [of k C w v "GetSubnet key"] call [of k C w v "GetClaim key"]
    call [of k C w v "GetPoolClaim key"] call [of k C w v "ListSubnets ns p"] call [of k C w v "ListPage ns p n t"]
    call [of k C w v "ListClaims ns"] call [of k C w v "ListPools ns"] call [of k C w v "CreateSubnet s"]
    call [of k C w v "CreateClaim c"] call [of k C w v "CreatePool q"] call [of k C w v "UpdateClaim c"]
    call [of k C w v "UpdatePoolClaim pc"] call [of k C w v "PatchPool b q"] call [of k C w v "PatchSubnet bs s"]
  by simp_all

text \<open>Effects are in every footprint: every metric gets the number of label values it declares.\<close>

lemma reaches_emit: "C (Emit e) \<Longrightarrow> reaches k C w v \<Longrightarrow> reaches k C w (k_emit k e v)"
  using call [of k C w v "Emit e"] by simp

lemma reaches_OnError:
  assumes law: "retry_law k" and emit: "C (Emit SleepJitter)" and f: "\<And>w r w'. f w = (r, w') \<Longrightarrow> reaches k C w w'"
    and r: "k_OnError k (Suc n) p f v = (r, w')" and v: "reaches k C w v"
  shows "reaches k C w w'"
  by (rule OnError_invariant [where I = "reaches k C w", OF law _ _ r v])
    (blast intro: f reaches_trans, rule reaches_emit [where C = C, OF emit])

section \<open>The Subnet controller\<close>

fun subnet_calls :: "call \<Rightarrow> bool" where
  "subnet_calls (GetSubnet _) = True"
| "subnet_calls (GetPool _) = True"
| "subnet_calls (PatchSubnet b s) = (sn_meta s = sn_meta b \<and> sn_spec s = sn_spec b)"
| "subnet_calls (Emit e) = well_labelled e"
| "subnet_calls _ = False"

lemma patch_once_reaches:
  assumes "patch_once k sub m v = (r, w')" and v: "reaches k subnet_calls w v"
  shows "reaches k subnet_calls w w'"
proof -
  obtain g w1 where g: "k_get_subnet k (Namespace (sn_meta sub), Name (sn_meta sub)) v = (g, w1)" by fastforce
  have w1: "reaches k subnet_calls w w1" using reaches_calls(2) [OF g _ v] by simp
  have rec: "reaches k subnet_calls w (recordSubnetStatusUpdate k res u)" if "reaches k subnet_calls w u" for res u
    unfolding recordSubnetStatusUpdate_def by (intro reaches_emit that) simp_all
  show ?thesis
  proof (cases g)
    case (Inl e)
    then show ?thesis using assms(1) g w1 rec by (auto simp: patch_once_def split: if_splits)
  next
    case (Inr b)
    let ?s = "b\<lparr>sn_status := m (k_now k w1) (sn_status b)\<rparr>"
    obtain q w2 where q: "k_patch_subnet_status k b ?s w1 = (q, w2)" by fastforce
    have "reaches k subnet_calls w w2" using reaches_calls(15) [OF q _ w1] by simp
    then show ?thesis
      using assms(1) g Inr q w1 rec by (auto simp: patch_once_def Let_def split: if_splits sum.splits)
  qed
qed

lemma updateSubnetPhase_reaches:
  assumes law: "retry_law k" and v: "reaches k subnet_calls w v"
  shows "reaches k subnet_calls w (snd (updateSubnetPhase k sub ph v))"
proof -
  let ?f = "patch_once k sub (set_phase ph)"
  obtain r w1 where r: "k_OnError k (Suc 5) (k_IsConflict k) ?f v = (r, w1)" by fastforce
  have "reaches k subnet_calls w w1"
    by (rule reaches_OnError [where C = subnet_calls, OF law _ _ r v]) (simp, blast intro: patch_once_reaches stop)
  then have "well_labelled e \<Longrightarrow> reaches k subnet_calls w (k_emit k e w1)" "reaches k subnet_calls w w1" for e
    by (auto intro: reaches_emit)
  then show ?thesis
    using r by (cases r) (auto simp: updateSubnetPhase_def PatchSubnetStatus_def recordSubnetStatusUpdate_def Let_def
        intro!: reaches_emit)
qed

lemma Subnet_Reconcile_reaches:
  assumes law: "retry_law k"
  shows "reaches k subnet_calls w (snd (Subnet_Reconcile k req w))"
proof -
  note u = updateSubnetPhase_reaches [OF law]
  have cp: "reaches k subnet_calls w (snd (check_parent k a v))" if v: "reaches k subnet_calls w v" for a v
  proof -
    obtain g w1 where g: "k_get_pool k (Namespace (sn_meta a), sn_PoolRef (sn_spec a)) v = (g, w1)" by fastforce
    have "reaches k subnet_calls w w1" using reaches_calls(1) [OF g _ v] by simp
    then show ?thesis using u v g by (cases g) (auto simp: check_parent_def)
  qed
  obtain g w1 where g: "k_get_subnet k req w = (g, w1)" by fastforce
  have w1: "reaches k subnet_calls w w1" using reaches_calls(2) [OF g _ stop] by simp
  show ?thesis
  proof (cases g)
    case (Inl e)
    then show ?thesis using g w1 by (simp add: Subnet_Reconcile_def)
  next
    case (Inr a)
    obtain e w2 where e: "updateSubnetPhase k a SubnetPhaseAllocated w1 = (e, w2)" by fastforce
    have "reaches k subnet_calls w w2" using u [OF w1, of a SubnetPhaseAllocated] e by simp
    then show ?thesis using g Inr e w1 cp by (cases e) (auto simp: Subnet_Reconcile_def)
  qed
qed

section \<open>The pool status controller\<close>

fun pool_status_calls :: "call \<Rightarrow> bool" where
  "pool_status_calls (GetPool _) = True"
| "pool_status_calls (ListPage _ _ _ _) = True"
| "pool_status_calls (PatchPool b p) = (sp_meta p = sp_meta b \<and> sp_spec p = sp_spec b)"
| "pool_status_calls (Emit e) = well_labelled e"
| "pool_status_calls _ = False"

lemma list_pages_reaches:
  assumes "list_pages k pool tok acc v = Some x"
  shows "reaches k pool_status_calls v (snd x)"
  using _ assms
proof (rule list_pages.raw_induct [where P = "\<lambda>k pool tok acc v x. reaches k pool_status_calls v (snd x)"], goal_cases)
  case (1 lp k pool tok acc v x)
  obtain g w1 where g: "k_list_subnets_page k (Namespace (sp_meta pool)) (Name (sp_meta pool)) PageSize tok v = (g, w1)" by fastforce
  have w1: "reaches k pool_status_calls v w1" using reaches_calls(6) [OF g _ stop] by simp
  let ?w2 = "k_emit k (CounterInc ''SubnetListPagesTotal'' []) w1"
  have w2: "reaches k pool_status_calls v ?w2" by (rule reaches_emit [OF _ w1]) simp
  have rec: "reaches k pool_status_calls v (snd x)" if "lp k pool tok' all ?w2 = Some x" for tok' all
    using reaches_trans [OF 1(1) [OF that] w2] .
  have e: "reaches k pool_status_calls v (k_emit k (CounterInc ''SubnetListContinueSkippedTotal'' []) ?w2)"
    by (rule reaches_emit [OF _ w2]) simp
  show ?case
    using 1(2) g w1 rec e by (cases g) (auto simp: Let_def split: if_splits)
qed

lemma pool_patch_once_reaches:
  assumes "pool_patch_once k req new v = (r, w')"
  shows "reaches k pool_status_calls v w'"
proof -
  obtain g w1 where g: "k_get_pool k req v = (g, w1)" by fastforce
  have w1: "reaches k pool_status_calls v w1" using reaches_calls(1) [OF g _ stop] by simp
  show ?thesis
  proof (cases g)
    case (Inl e)
    then show ?thesis using assms g w1 by (auto simp: pool_patch_once_def split: if_splits)
  next
    case (Inr p)
    obtain q w2 where q: "k_patch_pool_status k p (p\<lparr>sp_status := new\<rparr>) w1 = (q, w2)" by fastforce
    have w2: "reaches k pool_status_calls v w2" using reaches_calls(14) [OF q _ w1] by simp
    then have "well_labelled ef \<Longrightarrow> reaches k pool_status_calls v (k_emit k ef w2)" for ef by (auto intro: reaches_emit)
    then show ?thesis
      using assms g Inr q w1 w2 by (cases q) (auto simp: pool_patch_once_def recordPoolStatusRetry_def split: if_splits)
  qed
qed

lemma patch_pool_status_reaches:
  assumes law: "retry_law k" and v: "reaches k pool_status_calls w v"
  shows "reaches k pool_status_calls w (snd (patch_pool_status k req pool new v))"
proof -
  let ?f = "pool_patch_once k req new"
  obtain r w1 where r: "k_OnError k (Suc 4) (k_IsConflict k) ?f v = (r, w1)" by fastforce
  have "reaches k pool_status_calls w w1"
    by (rule reaches_OnError [where C = pool_status_calls, OF law _ _ r v]) (simp, blast intro: pool_patch_once_reaches)
  then have "reaches k pool_status_calls w (recordPoolStatusUpdate k n res w1)" for n res
    unfolding recordPoolStatusUpdate_def by (intro reaches_emit) simp_all
  then show ?thesis
    using r v by (cases r) (auto simp: patch_pool_status_def k_RetryOnConflict_def)
qed

lemma PoolStatus_Reconcile_reaches:
  assumes law: "retry_law k" and r: "PoolStatus_Reconcile k req w = Some (out, w')"
  shows "reaches k pool_status_calls w w'"
proof -
  obtain g w1 where g: "k_get_pool k req w = (g, w1)" by fastforce
  have w1: "reaches k pool_status_calls w w1" using reaches_calls(1) [OF g _ stop] by simp
  show ?thesis
  proof (cases g)
    case (Inl e)
    then show ?thesis using r g w1 by (simp add: PoolStatus_Reconcile_def)
  next
    case (Inr pool)
    obtain l w2 where l: "listSubnetsPaged k pool w1 = Some (l, w2)"
      using r g Inr by (auto simp: PoolStatus_Reconcile_def split: option.splits)
    have w2: "reaches k pool_status_calls w w2"
      using list_pages_reaches [of k pool "''''" "[]" w1] l w1 reaches_trans by (fastforce simp: listSubnetsPaged_def)
    have p: "reaches k pool_status_calls w u" if "patch_pool_status k req pool new w2 = (out, u)" for new u
      using patch_pool_status_reaches [OF law w2, of req pool new] that by simp
    show ?thesis
      using r g Inr l w2 p by (cases l) (auto simp: PoolStatus_Reconcile_def split: prod.splits option.splits)
  qed
qed

section \<open>The SubnetPoolClaim controller\<close>

text \<open>It creates only its internal claims and its child pools, with itself as their owner.\<close>

fun poolclaim_calls :: "'w kube \<Rightarrow> call \<Rightarrow> bool" where
  "poolclaim_calls k (GetPoolClaim _) = True"
| "poolclaim_calls k (ListClaims _) = True"
| "poolclaim_calls k (ListPools _) = True"
| "poolclaim_calls k (CreateClaim c) = (\<exists>pc. k_set_ref_claim k pc (internal_claim pc) = Inr c)"
| "poolclaim_calls k (CreatePool p) = (\<exists>pc cidr. k_set_ref_pool k pc (child_pool pc cidr) = Inr p)"
| "poolclaim_calls k (UpdatePoolClaim _) = True"
| "poolclaim_calls k (Emit e) = well_labelled e"
| "poolclaim_calls k _ = False"

lemma finish_status_reaches:
  assumes law: "retry_law k" "0 < k_DefaultRetry_Steps k" and v: "reaches k (poolclaim_calls k) w v"
  shows "reaches k (poolclaim_calls k) w (snd (finish_status k pc n ph m v))"
proof -
  let ?f = "update_poolclaim_once k pc n ph m"
  obtain s where s: "k_DefaultRetry_Steps k = Suc s" using law(2) gr0_conv_Suc by blast
  obtain r w1 where r: "k_OnError k (Suc s) (k_IsConflict k) ?f v = (r, w1)" by fastforce
  have f: "reaches k (poolclaim_calls k) u u'" if "?f u = (q, u')" for u q u'
  proof -
    obtain g u1 where g: "k_get_poolclaim k (Namespace (pc_meta pc), Name (pc_meta pc)) u = (g, u1)" by fastforce
    have u1: "reaches k (poolclaim_calls k) u u1" using reaches_calls(4) [OF g _ stop] by simp
    have "reaches k (poolclaim_calls k) u u'" if "k_update_poolclaim_status k c u1 = (q, u')" for c
      using reaches_calls(13) [OF that _ u1] by simp
    then show ?thesis using that g u1 by (cases g) (auto simp: update_poolclaim_once_def)
  qed
  have "reaches k (poolclaim_calls k) w w1"
    by (rule reaches_OnError [where C = "poolclaim_calls k", OF law(1) _ _ r v]) (simp, rule f)
  then show ?thesis
    using r s by (cases r) (simp_all add: finish_status_def updatePoolClaimStatus_def k_RetryOnConflict_def)
qed

lemma reconcileBoundClaim_reaches:
  assumes law: "retry_law k" "0 < k_DefaultRetry_Steps k" and v: "reaches k (poolclaim_calls k) w v"
  shows "reaches k (poolclaim_calls k) w (snd (reconcileBoundClaim k pc claim v))"
proof -
  obtain l w1 where l: "k_list_pools k (Namespace (pc_meta pc)) v = (l, w1)" by fastforce
  have w1: "reaches k (poolclaim_calls k) w w1" using reaches_calls(8) [OF l _ v] by simp
  obtain c w2 where c: "createChildPool k pc (sc_AllocatedCIDR (sc_status claim)) w1 = (c, w2)" by fastforce
  have "reaches k (poolclaim_calls k) w w2"
  proof (cases "k_set_ref_pool k pc (child_pool pc (sc_AllocatedCIDR (sc_status claim)))")
    case (Inr p)
    then have "k_create_pool k p w1 = (c, w2)" using c by (simp add: createChildPool_def)
    then show ?thesis using reaches_calls(11) [OF _ _ w1, of p c w2] Inr by auto
  qed (use c w1 in \<open>simp add: createChildPool_def\<close>)
  then show ?thesis
    using l w1 c finish_status_reaches [OF law]
    by (cases l; cases c) (auto simp: reconcileBoundClaim_def getOwnedSubnetPools_def split: list.splits)
qed

lemma reconcilePendingClaim_reaches:
  assumes law: "retry_law k" "0 < k_DefaultRetry_Steps k" and v: "reaches k (poolclaim_calls k) w v"
  shows "reaches k (poolclaim_calls k) w (snd (reconcilePendingClaim k pc v))"
proof -
  obtain l w1 where l: "k_list_claims k (Namespace (pc_meta pc)) v = (l, w1)" by fastforce
  have w1: "reaches k (poolclaim_calls k) w w1" using reaches_calls(7) [OF l _ v] by simp
  obtain c w2 where c: "createInternalSubnetClaim k pc w1 = (c, w2)" by fastforce
  have "reaches k (poolclaim_calls k) w w2"
  proof (cases "k_set_ref_claim k pc (internal_claim pc)")
    case (Inr p)
    then have "k_create_claim k p w1 = (c, w2)" using c by (simp add: createInternalSubnetClaim_def)
    then show ?thesis using reaches_calls(10) [OF _ _ w1, of p c w2] Inr by auto
  qed (use c w1 in \<open>simp add: createInternalSubnetClaim_def\<close>)
  then show ?thesis
    using l w1 c finish_status_reaches [OF law w1] reconcileBoundClaim_reaches [OF law w1]
    by (cases l; cases c)
      (auto simp: reconcilePendingClaim_def getOwnedSubnetClaims_def reconcileErrorClaim_def Let_def split: list.splits)
qed

lemma PoolClaim_Reconcile_reaches:
  assumes law: "retry_law k" "0 < k_DefaultRetry_Steps k"
  shows "reaches k (poolclaim_calls k) w (snd (PoolClaim_Reconcile k req w))"
proof -
  obtain g w1 where g: "k_get_poolclaim k req w = (g, w1)" by fastforce
  have w1: "reaches k (poolclaim_calls k) w w1" using reaches_calls(4) [OF g _ stop] by simp
  then show ?thesis
    using g reconcilePendingClaim_reaches [OF law w1] by (cases g) (simp_all add: PoolClaim_Reconcile_def Let_def)
qed

section \<open>The SubnetClaim controller\<close>

text \<open>It creates only the Subnets of the allocator, and of a claim it changes only the status.\<close>

fun claim_calls :: "'w kube \<Rightarrow> call \<Rightarrow> bool" where
  "claim_calls k (GetClaim _) = True"
| "claim_calls k (GetPool _) = True"
| "claim_calls k (GetSubnet _) = True"
| "claim_calls k (ListSubnets _ _) = True"
| "claim_calls k (CreateSubnet s) = (\<exists>claim pool c n. k_set_ref_subnet k claim (new_subnet claim pool c n) = Inr s)"
| "claim_calls k (UpdateClaim c) = True"
| "claim_calls k (Emit e) = well_labelled e"
| "claim_calls k _ = False"

lemma claim_emit: "reaches k (claim_calls k) w v \<Longrightarrow> well_labelled e \<Longrightarrow> reaches k (claim_calls k) w (k_emit k e v)"
  by (rule reaches_emit) simp_all

lemma createAllocation_reaches:
  assumes r: "createAllocation k claim pool c n v = (r, w')" and v: "reaches k (claim_calls k) w v"
  shows "reaches k (claim_calls k) w w'"
proof (cases "k_set_ref_subnet k claim (new_subnet claim pool c n)")
  case (Inl e)
  with r v show ?thesis by (auto simp: createAllocation_def)
next
  case (Inr s)
  have m: "reaches k (claim_calls k) w (recordCreateMetrics k res u)" if "reaches k (claim_calls k) w u" for res u
    unfolding recordCreateMetrics_def by (intro claim_emit that) simp_all
  obtain cr w1 where cr: "k_create_subnet k s v = (cr, w1)" by fastforce
  have w1: "reaches k (claim_calls k) w w1" by (rule reaches_calls(9) [OF cr _ v]) (use Inr in auto)
  let ?w2 = "recordCreateMetrics k ''exists'' w1"
  obtain g w3 where g: "k_get_subnet k (Namespace (sc_meta claim), n) ?w2 = (g, w3)" by fastforce
  have "reaches k (claim_calls k) w w3" using reaches_calls(2) [OF g _ m [OF w1]] by simp
  then show ?thesis
    using r Inr cr g w1 m by (auto simp: createAllocation_def Let_def split: sum.splits if_splits)
qed

lemma prepare_retry_reaches:
  assumes r: "prepare_retry k pool ss U retry v = (r, w')" and v: "reaches k (claim_calls k) w v"
  shows "reaches k (claim_calls k) w w'"
proof (cases "retry = 0")
  case False
  obtain g w1 where g: "k_get_pool k (Namespace (sp_meta pool), Name (sp_meta pool)) (k_emit k (SleepBackoff retry) v) = (g, w1)"
    by fastforce
  have w1: "reaches k (claim_calls k) w w1" using reaches_calls(1) [OF g _ claim_emit [OF v]] by simp
  have "reaches k (claim_calls k) w w2" if "k_list_subnets k ns p w1 = (l, w2)" for ns p l w2
    using reaches_calls(5) [OF that _ w1] by simp
  then show ?thesis using False r g w1
    by (auto simp: prepare_retry_def refreshAllocationList_def split: sum.splits prod.splits)
qed (use r v in \<open>simp add: prepare_retry_def\<close>)

lemma allocate_loop_reaches:
  "allocate_loop k claim pool ss U retry n v = Some (r, p', w') \<Longrightarrow> reaches k (claim_calls k) w v \<Longrightarrow> reaches k (claim_calls k) w w'"
proof (induction n arbitrary: pool ss U retry v)
  case (Suc n)
  obtain q w1 where q: "prepare_retry k pool ss U retry v = (q, w1)" by fastforce
  have w1: "reaches k (claim_calls k) w w1" by (rule prepare_retry_reaches [OF q Suc.prems(2)])
  show ?case
  proof (cases q)
    case (Inr t)
    obtain pool1 ss1 U1 where t: "t = (pool1, ss1, U1)" by (cases t)
    have cr: "reaches k (claim_calls k) w w2"
      if "createAllocation k claim pool1 c m w1 = (x, w2)" for c m x w2
      by (rule createAllocation_reaches [OF that w1])
    show ?thesis
      using Suc.prems(1) q Inr t w1 cr Suc.IH
      by (auto simp: Let_def split: option.splits sum.splits if_splits prod.splits)
  qed (use Suc.prems q w1 in simp)
qed simp

lemma allocateCIDR_reaches:
  assumes "allocateCIDR k claim pool ss v = Some (r, p', w')" and v: "reaches k (claim_calls k) w v"
  shows "reaches k (claim_calls k) w w'"
  using assms allocate_loop_reaches [OF _ v]
  by (auto simp: allocateCIDR_def recordLatency_def split: option.splits intro: claim_emit)

lemma updateClaimStatus_reaches:
  assumes law: "retry_law k" and v: "reaches k (claim_calls k) w v"
  shows "reaches k (claim_calls k) w (snd (updateClaimStatus k claim ph c m v))"
proof (rule updateClaimStatus_invariant [OF law, where I = "reaches k (claim_calls k) w"])
  fix u r u'
  assume u: "reaches k (claim_calls k) w u" and r: "update_claim_once k claim ph c m u = (r, u')"
  obtain g u1 where g: "k_get_claim k (Namespace (sc_meta claim), Name (sc_meta claim)) u = (g, u1)" by fastforce
  have u1: "reaches k (claim_calls k) w u1" using reaches_calls(3) [OF g _ u] by simp
  have "reaches k (claim_calls k) w u'" if "k_update_claim_status k x u1 = (r, u')" for x
    using reaches_calls(12) [OF that _ u1] by simp
  then show "reaches k (claim_calls k) w u'" using r g u1 by (cases g) (auto simp: update_claim_once_def)
qed (use v in \<open>auto simp: claim_emit\<close>)

lemma recordPoolMetrics_reaches:
  assumes v: "reaches k (claim_calls k) w (snd s)"
  shows "reaches k (claim_calls k) w (snd (recordPoolMetrics k legacy pool key n s))"
proof -
  have "reaches k (claim_calls k) w (snd (snd (registerPoolGaugeForSize k p sz s)))" for p sz
    using v claim_emit [OF v] by (cases s) (simp add: registerPoolGaugeForSize_def Let_def split: option.splits)
  then have "reaches k (claim_calls k) w (snd (snd (ensurePoolGauge k p sz s)))" for p sz
    using v by (simp add: ensurePoolGauge_def split: option.splits)
  then have "reaches k (claim_calls k) w u" if "ensurePoolGauge k p sz s = (g, r, u)" for p sz g r u
    using that by (metis snd_conv)
  then show ?thesis
    using v by (auto simp: recordPoolMetrics_def Let_def intro!: claim_emit split: prod.splits)
qed

lemma record_free_blocks_reaches:
  assumes "reaches k (claim_calls k) w (snd s)"
  shows "reaches k (claim_calls k) w (snd (record_free_blocks k legacy pool allocs c s))"
proof -
  have "reaches k (claim_calls k) w (snd (fold (\<lambda>key. recordPoolMetrics k legacy pool (f key) (g key)) keys t))"
    if "reaches k (claim_calls k) w (snd t)" for f g keys t
    using that by (induction keys arbitrary: t) (simp_all add: recordPoolMetrics_reaches)
  from this [OF assms] show ?thesis
    by (cases "NewCIDRMap (sp_CIDR (sp_spec pool))") (simp_all add: record_free_blocks_def Let_def assms)
qed

lemma outcome_reaches:
  assumes law: "retry_law k" and v: "reaches k (claim_calls k) w v"
  shows "reaches k (claim_calls k) w (snd (snd (with_reg r (updateClaimStatus k claim ph c m v))))"
    and "reaches k (claim_calls k) w (snd (snd (on_allocated k legacy claim pool allocs c (r, v))))"
    and "reaches k (claim_calls k) w (snd (snd (on_exhausted k claim pool err (r, v))))"
    and "reaches k (claim_calls k) w (snd (snd (on_failed k claim err retry (r, v))))"
proof -
  note u = updateClaimStatus_reaches [OF law]
  show "reaches k (claim_calls k) w (snd (snd (with_reg r (updateClaimStatus k claim ph c m v))))"
    using u [OF v] by (simp add: with_reg_def)
  show "reaches k (claim_calls k) w (snd (snd (on_allocated k legacy claim pool allocs c (r, v))))"
    unfolding on_allocated_def Let_def with_reg_def EmitAllocationSuccess_def recordAllocSuccess_def
    by (simp, intro u record_free_blocks_reaches) (simp add: claim_emit v)
  show "reaches k (claim_calls k) w (snd (snd (on_exhausted k claim pool err (r, v))))"
    unfolding on_exhausted_def with_reg_def EmitPoolExhausted_def recordAllocationError_def Let_def
    by (simp, intro conjI impI u) (simp_all add: claim_emit v)
  show "reaches k (claim_calls k) w (snd (snd (on_failed k claim err retry (r, v))))"
    unfolding on_failed_def with_reg_def EmitAllocationConflict_def recordAllocationError_def Let_def
    by (simp, intro conjI impI u) (simp_all add: claim_emit v)
qed

lemma process_loop_reaches:
  assumes law: "retry_law k"
  shows "process_loop k legacy claim pool allocs retry n (r, v) = Some (out, r', w') \<Longrightarrow> reaches k (claim_calls k) w v \<Longrightarrow>
    reaches k (claim_calls k) w w'"
proof (induction n arbitrary: pool allocs retry r v)
  case 0
  have "reaches k (claim_calls k) w (recordAllocationError k claim t (EmitAllocationConflict k claim m v))" for t m
    unfolding recordAllocationError_def EmitAllocationConflict_def Let_def by (intro claim_emit 0) simp_all
  then show ?case using 0(1) updateClaimStatus_reaches [OF law] by (auto simp: Let_def with_reg_def)
next
  case (Suc n)
  note out = outcome_reaches [OF law]
  let ?w0 = "k_emit k (SleepMs 30) v"
  obtain l w1 where l: "(if retry > 0 then k_list_subnets k (Namespace (sc_meta claim)) (sc_PoolRef (sc_spec claim)) ?w0
      else (Inr allocs, ?w0)) = (l, w1)" by fastforce
  have w0: "reaches k (claim_calls k) w ?w0" by (rule claim_emit [OF Suc.prems(2)]) simp
  have w1: "reaches k (claim_calls k) w w1"
    using l w0 reaches_calls(5) [OF _ _ w0, of "Namespace (sc_meta claim)" "sc_PoolRef (sc_spec claim)" l w1]
    by (auto split: if_splits)
  note eq = Suc.prems(1) [unfolded process_loop.simps Let_def fst_conv snd_conv l]
  show ?case
  proof (cases l)
    case (Inl e)
    then show ?thesis using eq w1 by simp
  next
    case (Inr allocs1)
    obtain a pool1 w2 where a: "allocateCIDR k claim pool allocs1 w1 = Some (a, pool1, w2)"
      using eq Inr by (auto split: option.splits)
    have w2: "reaches k (claim_calls k) w w2" by (rule allocateCIDR_reaches [OF a w1])
    show ?thesis
    proof (cases a)
      case (Inr bc)
      then show ?thesis
        using eq \<open>l = Inr allocs1\<close> a Suc.IH [OF _ w2] out(2) [OF w2, of legacy claim pool1 allocs1 _ r]
        by (cases bc) (auto split: if_splits simp del: process_loop.simps dest!: arg_cong [of _ _ "\<lambda>x. snd (snd x)"])
    next
      case (Inl e)
      let ?w3 = "k_emit k SleepJitter (recordRetry k (int retry + 1) w2)"
      have w3: "reaches k (claim_calls k) w ?w3" unfolding recordRetry_def by (intro claim_emit w2) simp_all
      obtain g w4 where g: "k_get_subnet k (Namespace (sc_meta claim), sc_ClusterID (sc_spec claim)) ?w3 = (g, w4)" by fastforce
      have w4: "reaches k (claim_calls k) w w4" using reaches_calls(2) [OF g _ w3] by simp
      have o: "x = (out, r', w') \<Longrightarrow> reaches k (claim_calls k) w (snd (snd x)) \<Longrightarrow> reaches k (claim_calls k) w w'" for x by simp
      show ?thesis
        using eq \<open>l = Inr allocs1\<close> a Inl g w4 Suc.IH [OF _ w4] o [OF _ out(1) [OF w4]] o [OF _ out(3) [OF w2]] o [OF _ out(4) [OF w2]]
        by (cases g) (auto split: if_splits simp del: process_loop.simps)
    qed
  qed
qed

lemma allocate_for_claim_reaches:
  assumes law: "retry_law k" and r: "allocate_for_claim k legacy claim pool (r, v) = Some (out, r', w')"
    and v: "reaches k (claim_calls k) w v"
  shows "reaches k (claim_calls k) w w'"
proof -
  note out = outcome_reaches(1) [OF law]
  have o: "x = (out, r', w') \<Longrightarrow> reaches k (claim_calls k) w (snd (snd x)) \<Longrightarrow> reaches k (claim_calls k) w w'" for x by simp
  obtain g w1 where g: "k_get_subnet k (Namespace (sc_meta claim), sc_ClusterID (sc_spec claim)) v = (g, w1)" by fastforce
  have w1: "reaches k (claim_calls k) w w1" using reaches_calls(2) [OF g _ v] by simp
  show ?thesis
  proof (cases g)
    case (Inr s)
    have "reaches k (claim_calls k) w (EmitAllocationConflict k claim m w1)" "reaches k (claim_calls k) w (EmitAllocationSuccess k claim c w1)" for m c
      unfolding EmitAllocationConflict_def EmitAllocationSuccess_def by (simp_all add: claim_emit w1)
    then show ?thesis
      using r g Inr o [OF _ out] by (auto simp: allocate_for_claim_def Let_def split: if_splits)
  next
    case (Inl e)
    obtain l w2 where l: "k_list_subnets k (Namespace (sc_meta claim)) (sc_PoolRef (sc_spec claim)) w1 = (l, w2)" by fastforce
    have w2: "reaches k (claim_calls k) w w2" using reaches_calls(5) [OF l _ w1] by simp
    show ?thesis
      using r g Inl l w1 w2 process_loop_reaches [OF law _ w2]
      by (cases l) (auto simp: allocate_for_claim_def Let_def simp del: process_loop.simps split: if_splits)
  qed
qed

lemma Claim_Reconcile_reaches:
  assumes law: "retry_law k" and r: "Claim_Reconcile k legacy req (r, w) = Some (out, r', w')"
  shows "reaches k (claim_calls k) w w'"
proof -
  note out = outcome_reaches(1) [OF law]
  have o: "x = (out, r', w') \<Longrightarrow> reaches k (claim_calls k) w (snd (snd x)) \<Longrightarrow> reaches k (claim_calls k) w w'" for x by simp
  obtain g w1 where g: "k_get_claim k req w = (g, w1)" by fastforce
  have w1: "reaches k (claim_calls k) w w1" using reaches_calls(3) [OF g _ stop] by simp
  show ?thesis
  proof (cases g)
    case (Inl e)
    then show ?thesis using r g w1 by (simp add: Claim_Reconcile_def)
  next
    case (Inr claim)
    obtain p w2 where p: "k_get_pool k (Namespace (sc_meta claim), sc_PoolRef (sc_spec claim)) w1 = (p, w2)" by fastforce
    have w2: "reaches k (claim_calls k) w w2" using reaches_calls(1) [OF p _ w1] by simp
    then have "reaches k (claim_calls k) w (recordAllocationError k claim t (EmitValidationFailed k claim m w2))" for t m
      unfolding recordAllocationError_def EmitValidationFailed_def Let_def by (simp add: claim_emit)
    then show ?thesis
      using r g Inr p w1 w2 o [OF _ out] allocate_for_claim_reaches [OF law _ w2]
      by (cases p) (auto simp: Claim_Reconcile_def processClaimReconciliation_def Let_def split: if_splits option.splits)
  qed
qed

section \<open>Properties\<close>

text \<open>
  C26. What each controller does to the cluster: a reconciliation is a sequence of the calls in the
  footprint of its controller, for every server. The SubnetClaim controller creates only the
  Subnets of the allocator and updates only statuses of claims, the Subnet controller only
  patches statuses of Subnets, the pool status controller only those of pools, and the
  SubnetPoolClaim controller creates only its internal claims and child pools. No metric is
  ever given a wrong number of label values, which would panic.
\<close>

theorem controller_footprints:
  assumes "retry_law k" and "0 < k_DefaultRetry_Steps k"
  shows "(Claim_Reconcile k legacy q (r, w) = Some (out, r', w') \<longrightarrow> reaches k (claim_calls k) w w')
    \<and> reaches k subnet_calls w (snd (Subnet_Reconcile k q w))
    \<and> (PoolStatus_Reconcile k q w = Some (out', w'') \<longrightarrow> reaches k pool_status_calls w w'')
    \<and> reaches k (poolclaim_calls k) w (snd (PoolClaim_Reconcile k q w))"
  using Claim_Reconcile_reaches [OF assms(1)] Subnet_Reconcile_reaches [OF assms(1)]
    PoolStatus_Reconcile_reaches [OF assms(1)] PoolClaim_Reconcile_reaches [OF assms]
  by blast

theorem controller_footprints_witness:
  "reaches mem_kube subnet_calls (subnet_world '''') (snd (Subnet_Reconcile mem_kube (''ns'', ''s'') (subnet_world '''')))"
  using controller_footprints [OF mem_kube_retry mem_kube_steps, of _ "(''ns'', ''s'')" _ "subnet_world ''''"] by blast

end
