(* ===== verification/System.thy ===== *)
theory System
  imports Footprint
begin

text \<open>
  The four controllers together. The manager runs one worker per controller against the same
  API server; here their reconciliations are interleaved in any order. The footprints of the
  controllers and one law on the server, that a call changes objects of its own kind only,
  carry the invariant of each controller over the steps of the others.
\<close>

section \<open>Interleaved workers\<close>

datatype request = ClaimReq NamespacedName | SubnetReq NamespacedName | PoolReq NamespacedName | PoolClaimReq NamespacedName

text \<open>One reconciliation of one of the controllers; \<open>None\<close> is a panic or an endless loop.\<close>

fun system_step :: "'w kube \<Rightarrow> bool \<Rightarrow> request \<Rightarrow> registry \<times> 'w \<Rightarrow> ((Result \<times> error option) \<times> registry \<times> 'w) option" where
  "system_step k legacy (ClaimReq q) s = Claim_Reconcile k legacy q s"
| "system_step k legacy (SubnetReq q) s = (case Subnet_Reconcile k q (snd s) of (out, w) \<Rightarrow> Some (out, fst s, w))"
| "system_step k legacy (PoolReq q) s = map_option (\<lambda>(out, w). (out, fst s, w)) (PoolStatus_Reconcile k q (snd s))"
| "system_step k legacy (PoolClaimReq q) s = (case PoolClaim_Reconcile k q (snd s) of (out, w) \<Rightarrow> Some (out, fst s, w))"

section \<open>The server\<close>

text \<open>
  Each call changes objects of its own kind only: the set of Subnets changes when one is
  created; the set of Bound claims when the status of a claim is updated or a claim is
  created as Bound; a stored Subnet status when it is patched (creating a Subnet adds one);
  the owners of claims and pools when one is created.
\<close>

definition owners :: "('o \<Rightarrow> ObjectMeta) \<Rightarrow> 'o multiset \<Rightarrow> (string \<times> string list) multiset" where
  "owners meta M = image_mset (\<lambda>x. (Namespace (meta x), map or_UID (OwnerReferences (meta x)))) M"

fun adds_subnet :: "call \<Rightarrow> bool" where
  "adds_subnet (CreateSubnet _) = True" | "adds_subnet _ = False"

fun binds_claim :: "call \<Rightarrow> bool" where
  "binds_claim (UpdateClaim _) = True" | "binds_claim (CreateClaim c) = bound_claim c" | "binds_claim _ = False"

fun patches_subnet :: "call \<Rightarrow> bool" where
  "patches_subnet (PatchSubnet _ _) = True" | "patches_subnet _ = False"

fun adds_owned :: "call \<Rightarrow> bool" where
  "adds_owned (CreateClaim _) = True" | "adds_owned (CreatePool _) = True" | "adds_owned _ = False"

definition separate_kinds ::
    "'w kube \<Rightarrow> ('w \<Rightarrow> subnet_set) \<Rightarrow> ('w \<Rightarrow> (NamespacedName \<times> string) set) \<Rightarrow> ('w \<Rightarrow> NamespacedName \<rightharpoonup> SubnetStatus)
     \<Rightarrow> ('w \<Rightarrow> SubnetClaim multiset) \<Rightarrow> ('w \<Rightarrow> SubnetPool multiset) \<Rightarrow> bool" where
  "separate_kinds k subs bounds sts cl pl \<longleftrightarrow>
     (\<forall>c w. \<not> adds_subnet c \<longrightarrow> subs (after k c w) = subs w)
     \<and> (\<forall>c w. \<not> binds_claim c \<longrightarrow> bounds (after k c w) = bounds w)
     \<and> (\<forall>c w. \<not> patches_subnet c \<longrightarrow> sts w \<subseteq>\<^sub>m sts (after k c w))
     \<and> (\<forall>c w. \<not> adds_owned c \<longrightarrow> owners sc_meta (cl (after k c w)) = owners sc_meta (cl w)
          \<and> owners sp_meta (pl (after k c w)) = owners sp_meta (pl w))
     \<and> (\<forall>pc c c'. k_set_ref_claim k pc c = Inr c' \<longrightarrow> sc_status c' = sc_status c)"

lemma separate_kindsD:
  assumes "separate_kinds k subs bounds sts cl pl"
  shows "\<not> adds_subnet c \<Longrightarrow> subs (after k c w) = subs w"
    and "\<not> binds_claim c \<Longrightarrow> bounds (after k c w) = bounds w"
    and "\<not> patches_subnet c \<Longrightarrow> sts w \<subseteq>\<^sub>m sts (after k c w)"
    and "\<not> adds_owned c \<Longrightarrow> owners sc_meta (cl (after k c w)) = owners sc_meta (cl w)"
    and "\<not> adds_owned c \<Longrightarrow> owners sp_meta (pl (after k c w)) = owners sp_meta (pl w)"
    and "k_set_ref_claim k pc x = Inr y \<Longrightarrow> sc_status y = sc_status x"
  using assms unfolding separate_kinds_def by blast+

text \<open>Owning at most one of each is a property of the owners.\<close>

lemma owned_count_owners:
  "owned_count meta M ns uid = size {#x \<in># owners meta M. fst x = ns \<and> uid \<in> set (snd x)#}"
  by (simp add: owned_count_def owners_def isOwnedBy_refs_iff filter_mset_image_mset o_def)

lemma one_each_owners: "owners meta M' = owners meta M \<Longrightarrow> one_each meta M' \<longleftrightarrow> one_each meta M"
  by (simp add: one_each_def owned_count_owners)

section \<open>What the controllers leave to each other\<close>

text \<open>A view that no call of a footprint changes is the same at the end of a reconciliation.\<close>

lemma reaches_view:
  assumes "reaches k C w w'" and "\<And>c v. C c \<Longrightarrow> f (after k c v) = f v"
  shows "f w' = f w"
  by (rule reaches_respects [OF assms(1), where R = "\<lambda>v v'. f v' = f v"]) (auto simp: reflp_def transp_def assms(2))

lemma reaches_map_le:
  assumes "reaches k C w w'" and "\<And>c v. C c \<Longrightarrow> f v \<subseteq>\<^sub>m f (after k c v)"
  shows "f w \<subseteq>\<^sub>m f w'"
  by (rule reaches_respects [OF assms(1), where R = "\<lambda>v v'. f v \<subseteq>\<^sub>m f v'"])
    (auto simp: reflp_def transp_def assms(2) intro: map_le_trans)

lemma footprint_kinds:
  "subnet_calls c \<Longrightarrow> \<not> adds_subnet c \<and> \<not> binds_claim c \<and> \<not> adds_owned c"
  "pool_status_calls c \<Longrightarrow> \<not> adds_subnet c \<and> \<not> binds_claim c \<and> \<not> adds_owned c \<and> \<not> patches_subnet c"
  "claim_calls k c \<Longrightarrow> \<not> adds_owned c \<and> \<not> patches_subnet c"
  "poolclaim_calls k c \<Longrightarrow> \<not> adds_subnet c \<and> \<not> patches_subnet c"
  by (cases c; simp)+

lemma poolclaim_binds_none:
  assumes "separate_kinds k subs bounds sts cl pl" and "poolclaim_calls k c"
  shows "\<not> binds_claim c"
  using assms separate_kindsD(6) [OF assms(1)]
  by (cases c) (auto simp: bound_claim_def internal_claim_def phase_defs)

text \<open>Stored Subnet statuses stay and move along the phase machine; new ones may appear.\<close>

definition phases_advance :: "(NamespacedName \<rightharpoonup> SubnetStatus) \<Rightarrow> (NamespacedName \<rightharpoonup> SubnetStatus) \<Rightarrow> bool" where
  "phases_advance m m' \<longleftrightarrow> (\<forall>key st. m key = Some st \<longrightarrow> (\<exists>st'. m' key = Some st' \<and> phase_step\<^sup>*\<^sup>* st st'))"

lemma phases_advance_refl: "phases_advance m m"
  by (simp add: phases_advance_def)

lemma phases_advance_trans: "phases_advance m m' \<Longrightarrow> phases_advance m' m'' \<Longrightarrow> phases_advance m m''"
  unfolding phases_advance_def by (meson rtranclp_trans)

lemma map_le_advance: "m \<subseteq>\<^sub>m m' \<Longrightarrow> phases_advance m m'"
  unfolding phases_advance_def map_le_def by (metis domI rtranclp.rtrancl_refl)

lemma evolves_advance: "evolves req m m' \<Longrightarrow> phases_advance m m'"
  unfolding phases_advance_def
proof (intro allI impI)
  fix key st
  assume e: "evolves req m m'" and st: "m key = Some st"
  show "\<exists>st'. m' key = Some st' \<and> phase_step\<^sup>*\<^sup>* st st'"
    using e st by (cases "key = req") (auto simp: evolves_def simp del: split_paired_All split: option.splits)
qed

section \<open>The invariant of the system\<close>

text \<open>The laws of the libraries and of the server, for all four controllers.\<close>

definition cluster_laws ::
    "'w kube \<Rightarrow> ('w \<Rightarrow> subnet_set) \<Rightarrow> ('w \<Rightarrow> (NamespacedName \<times> string) set) \<Rightarrow> ('w \<Rightarrow> NamespacedName \<rightharpoonup> SubnetStatus)
     \<Rightarrow> ('w \<Rightarrow> SubnetClaim multiset) \<Rightarrow> ('w \<Rightarrow> SubnetPool multiset) \<Rightarrow> (string \<Rightarrow> nat) \<Rightarrow> bool" where
  "cluster_laws k subs bounds sts cl pl left \<longleftrightarrow>
     single_writer k subs bounds \<and> v4_objects k \<and> status_store k sts \<and> owner_store k cl pl \<and> owner_ref_law k
     \<and> 0 < k_DefaultRetry_Steps k \<and> paging_progress k left \<and> separate_kinds k subs bounds sts cl pl"

definition system_good ::
    "'w kube \<Rightarrow> ('w \<Rightarrow> subnet_set) \<Rightarrow> ('w \<Rightarrow> (NamespacedName \<times> string) set) \<Rightarrow> ('w \<Rightarrow> NamespacedName \<rightharpoonup> SubnetStatus)
     \<Rightarrow> ('w \<Rightarrow> SubnetClaim multiset) \<Rightarrow> ('w \<Rightarrow> SubnetPool multiset) \<Rightarrow> (string \<Rightarrow> nat) \<Rightarrow> registry \<times> 'w \<Rightarrow> bool" where
  "system_good k subs bounds sts cl pl left s \<longleftrightarrow>
     cluster_laws k subs bounds sts cl pl left \<and> recon_inv k subs bounds (snd s) \<and> one_owned cl pl (snd s)"

definition system_le :: "('w \<Rightarrow> subnet_set) \<Rightarrow> ('w \<Rightarrow> NamespacedName \<rightharpoonup> SubnetStatus) \<Rightarrow> registry \<times> 'w \<Rightarrow> registry \<times> 'w \<Rightarrow> bool" where
  "system_le subs sts s t \<longleftrightarrow> subs (snd s) \<subseteq> subs (snd t) \<and> phases_advance (sts (snd s)) (sts (snd t))"

lemma recon_inv_views: "recon_inv k subs bounds w \<Longrightarrow> subs w' = subs w \<Longrightarrow> bounds w' = bounds w \<Longrightarrow> recon_inv k subs bounds w'"
  by (simp add: recon_inv_def)

lemma one_owned_owners:
  "one_owned cl pl w \<Longrightarrow> owners sc_meta (cl w') = owners sc_meta (cl w) \<Longrightarrow> owners sp_meta (pl w') = owners sp_meta (pl w) \<Longrightarrow>
     one_owned cl pl w'"
  by (simp add: one_owned_def one_each_owners [of sc_meta "cl w'" "cl w"] one_each_owners [of sp_meta "pl w'" "pl w"])

lemma claim_step_good:
  assumes laws: "cluster_laws k subs bounds sts cl pl left" and good: "system_good k subs bounds sts cl pl left s"
  shows "\<exists>out s'. Claim_Reconcile k legacy q s = Some (out, s') \<and> system_good k subs bounds sts cl pl left s'
    \<and> system_le subs sts s s'"
proof -
  have sep: "separate_kinds k subs bounds sts cl pl" and sw: "single_writer k subs bounds" and v4: "v4_objects k"
    using laws by (simp_all add: cluster_laws_def)
  have retry: "retry_law k" using sw by (simp add: single_writer_def)
  obtain out r' w' where r: "Claim_Reconcile k legacy q s = Some (out, r', w')" and inv: "recon_inv k subs bounds w'"
    and le: "subs (snd s) \<subseteq> subs w'"
    using Claim_Reconcile_safe [OF sw v4, of s legacy q] good by (auto simp: system_good_def safe_run_def)
  have reach: "reaches k (claim_calls k) (snd s) w'"
    by (rule Claim_Reconcile_reaches [OF retry, of legacy q "fst s" _ out r']) (simp add: r)
  have "owners sc_meta (cl w') = owners sc_meta (cl (snd s))"
    by (rule reaches_view [OF reach, where f = "\<lambda>w. owners sc_meta (cl w)"]) (simp add: separate_kindsD(4) [OF sep] footprint_kinds(3))
  moreover have "owners sp_meta (pl w') = owners sp_meta (pl (snd s))"
    by (rule reaches_view [OF reach, where f = "\<lambda>w. owners sp_meta (pl w)"]) (simp add: separate_kindsD(5) [OF sep] footprint_kinds(3))
  moreover have "sts (snd s) \<subseteq>\<^sub>m sts w'"
    by (rule reaches_map_le [OF reach]) (simp add: separate_kindsD(3) [OF sep] footprint_kinds(3))
  ultimately show ?thesis
    using r inv le laws good by (auto simp: system_good_def system_le_def intro: map_le_advance one_owned_owners)
qed

text \<open>A step that leaves Subnets, Bound claims and owners alone.\<close>

lemma quiet_step_good:
  assumes laws: "cluster_laws k subs bounds sts cl pl left" and good: "system_good k subs bounds sts cl pl left s"
    and reach: "reaches k C (snd s) w'" and adv: "phases_advance (sts (snd s)) (sts w')"
    and C: "\<And>c. C c \<Longrightarrow> \<not> adds_subnet c \<and> \<not> binds_claim c \<and> \<not> adds_owned c"
  shows "system_good k subs bounds sts cl pl left (fst s, w') \<and> system_le subs sts s (fst s, w')"
proof -
  have sep: "separate_kinds k subs bounds sts cl pl" using laws by (simp add: cluster_laws_def)
  have "subs w' = subs (snd s)" by (rule reaches_view [OF reach]) (simp add: separate_kindsD(1) [OF sep] C)
  moreover have "bounds w' = bounds (snd s)" by (rule reaches_view [OF reach]) (simp add: separate_kindsD(2) [OF sep] C)
  moreover have "owners sc_meta (cl w') = owners sc_meta (cl (snd s))"
    by (rule reaches_view [OF reach, where f = "\<lambda>w. owners sc_meta (cl w)"]) (simp add: separate_kindsD(4) [OF sep] C)
  moreover have "owners sp_meta (pl w') = owners sp_meta (pl (snd s))"
    by (rule reaches_view [OF reach, where f = "\<lambda>w. owners sp_meta (pl w)"]) (simp add: separate_kindsD(5) [OF sep] C)
  ultimately show ?thesis
    using laws good adv by (auto simp: system_good_def system_le_def intro: one_owned_owners recon_inv_views)
qed

lemma poolclaim_step_good:
  assumes laws: "cluster_laws k subs bounds sts cl pl left" and good: "system_good k subs bounds sts cl pl left s"
    and r: "PoolClaim_Reconcile k q (snd s) = (out, w')"
  shows "system_good k subs bounds sts cl pl left (fst s, w') \<and> system_le subs sts s (fst s, w')"
proof -
  have sep: "separate_kinds k subs bounds sts cl pl" and os: "owner_store k cl pl" and ref: "owner_ref_law k"
    and steps: "0 < k_DefaultRetry_Steps k" and retry: "retry_law k"
    using laws by (simp_all add: cluster_laws_def single_writer_def)
  have reach: "reaches k (poolclaim_calls k) (snd s) w'"
    using PoolClaim_Reconcile_reaches [OF retry steps, of "snd s" q] r by simp
  have "subs w' = subs (snd s)"
    by (rule reaches_view [OF reach]) (simp add: separate_kindsD(1) [OF sep] footprint_kinds(4))
  moreover have "bounds w' = bounds (snd s)"
    by (rule reaches_view [OF reach]) (simp add: separate_kindsD(2) [OF sep] poolclaim_binds_none [OF sep])
  moreover have "sts (snd s) \<subseteq>\<^sub>m sts w'"
    by (rule reaches_map_le [OF reach]) (simp add: separate_kindsD(3) [OF sep] footprint_kinds(4))
  moreover have "one_owned cl pl w'"
    using PoolClaim_Reconcile_owned [OF os ref retry steps, of "snd s" q] r good by (simp add: system_good_def)
  ultimately show ?thesis
    using laws good by (auto simp: system_good_def system_le_def intro: map_le_advance recon_inv_views)
qed

lemma system_step_good:
  assumes good: "system_good k subs bounds sts cl pl left s"
  shows "\<exists>out s'. system_step k legacy q s = Some (out, s') \<and> system_good k subs bounds sts cl pl left s' \<and> system_le subs sts s s'"
proof (cases q)
  have laws: "cluster_laws k subs bounds sts cl pl left" using good by (simp add: system_good_def)
  then have retry: "retry_law k" and ss: "status_store k sts" and pg: "paging_progress k left"
    and sep: "separate_kinds k subs bounds sts cl pl"
    by (simp_all add: cluster_laws_def single_writer_def)
  {
    case (ClaimReq x)
    then show ?thesis using claim_step_good [OF laws good] by simp
  next
    case (SubnetReq x)
    obtain out w' where r: "Subnet_Reconcile k x (snd s) = (out, w')" by fastforce
    have "reaches k subnet_calls (snd s) w'" using Subnet_Reconcile_reaches [OF retry, of "snd s" x] r by simp
    moreover have "phases_advance (sts (snd s)) (sts w')"
      using evolves_advance [OF Subnet_Reconcile_evolves [OF ss retry, of x "snd s"]] r by simp
    ultimately show ?thesis
      using quiet_step_good [OF laws good, of subnet_calls w'] footprint_kinds(1) r SubnetReq by simp
  next
    case (PoolReq x)
    obtain out w' where r: "PoolStatus_Reconcile k x (snd s) = Some (out, w')"
      using PoolStatus_Reconcile_returns [OF pg, of x "snd s"] by auto
    have reach: "reaches k pool_status_calls (snd s) w'" by (rule PoolStatus_Reconcile_reaches [OF retry r])
    then have "sts (snd s) \<subseteq>\<^sub>m sts w'"
      by (rule reaches_map_le) (simp add: separate_kindsD(3) [OF sep] footprint_kinds(2))
    then show ?thesis
      using quiet_step_good [OF laws good reach map_le_advance] footprint_kinds(2) r PoolReq by simp
  next
    case (PoolClaimReq x)
    obtain out w' where r: "PoolClaim_Reconcile k x (snd s) = (out, w')" by fastforce
    then show ?thesis using poolclaim_step_good [OF laws good r] PoolClaimReq by simp
  }
qed

interpretation sys: reconciler "system_step k legacy" "system_good k subs bounds sts cl pl left" "system_le subs sts"
  for k legacy subs bounds sts cl pl left
proof
  fix s q
  assume "system_good k subs bounds sts cl pl left s"
  then show "\<exists>out s'. system_step k legacy q s = Some (out, s') \<and> system_good k subs bounds sts cl pl left s' \<and> system_le subs sts s s'"
    by (rule system_step_good)
next
  fix s t u
  show "system_le subs sts s s" by (simp add: system_le_def phases_advance_refl)
  show "system_le subs sts s t \<Longrightarrow> system_le subs sts t u \<Longrightarrow> system_le subs sts s u"
    by (auto simp: system_le_def intro: phases_advance_trans)
qed

section \<open>The in-memory cluster\<close>

lemma demo_kube_status_store: "status_store demo_kube mem_sts"
proof -
  have "k_get_subnet demo_kube = k_get_subnet mem_kube" "k_patch_subnet_status demo_kube = k_patch_subnet_status mem_kube"
    "k_emit demo_kube = k_emit mem_kube"
    by (simp_all add: demo_kube_def fixed_kube_def)
  moreover have "\<forall>key w r w'. k_get_pool demo_kube key w = (r, w') \<longrightarrow> mem_sts w' = mem_sts w"
    by (simp add: demo_kube_def fixed_kube_def)
  ultimately show ?thesis using mem_kube_status_store unfolding status_store_def by simp
qed

lemma demo_kube_owners: "owner_store demo_kube (\<lambda>w. mset (st_claims w)) (\<lambda>w. mset (st_pools w))"
  using mem_kube_owners by (simp add: owner_store_def demo_kube_def fixed_kube_def)

lemma demo_kube_owner_ref: "owner_ref_law demo_kube"
  using mem_kube_owner_ref by (simp add: owner_ref_law_def demo_kube_def fixed_kube_def)

lemma demo_kube_progress: "paging_progress demo_kube (\<lambda>_. 0)"
  by (simp add: paging_progress_def demo_kube_def fixed_kube_def mem_kube_def)

lemma owners_mset: "owners meta (mset xs) = mset (map (\<lambda>x. (Namespace (meta x), map or_UID (OwnerReferences (meta x)))) xs)"
  by (simp add: owners_def)

lemma demo_kube_separate:
  "separate_kinds demo_kube (\<lambda>w. subnet_view ` set (st_subnets w)) mem_bounds mem_sts (\<lambda>w. mset (st_claims w)) (\<lambda>w. mset (st_pools w))"
  unfolding separate_kinds_def
proof (intro conjI allI impI)
  fix c w
  note d = demo_kube_def fixed_kube_def mem_kube_def
  have view: "subnet_view ` set (put_status sn_meta (\<lambda>x. x\<lparr>sn_status := st\<rparr>) key xs) = subnet_view ` set xs" for st key xs
    using arg_cong [OF put_status_view [of subnet_view "\<lambda>x. x\<lparr>sn_status := st\<rparr>" sn_meta key xs], of set]
    by (simp add: subnet_view_def [abs_def])
  show "\<not> adds_subnet c \<Longrightarrow> subnet_view ` set (st_subnets (after demo_kube c w)) = subnet_view ` set (st_subnets w)"
    by (cases c) (simp_all add: d view split: sum.splits)
  show "\<not> binds_claim c \<Longrightarrow> mem_bounds (after demo_kube c w) = mem_bounds w"
    by (cases c) (auto simp: d mem_bounds_def create_obj_def split: sum.splits if_splits)
  show "\<not> patches_subnet c \<Longrightarrow> mem_sts w \<subseteq>\<^sub>m mem_sts (after demo_kube c w)"
    by (cases c) (auto simp: d mem_sts_def map_le_def create_obj_def find_append split: sum.splits option.splits)
  show "\<not> adds_owned c \<Longrightarrow> owners sc_meta (mset (st_claims (after demo_kube c w))) = owners sc_meta (mset (st_claims w))"
    by (cases c) (simp_all add: d owners_mset put_status_view del: mset_map split: sum.splits)
  show "\<not> adds_owned c \<Longrightarrow> owners sp_meta (mset (st_pools (after demo_kube c w))) = owners sp_meta (mset (st_pools w))"
    by (cases c) (simp_all add: d owners_mset put_status_view del: mset_map split: sum.splits)
next
  fix pc c c'
  show "k_set_ref_claim demo_kube pc c = Inr c' \<Longrightarrow> sc_status c' = sc_status c"
    by (auto simp: demo_kube_def fixed_kube_def mem_kube_def)
qed

lemma demo_kube_cluster:
  "cluster_laws demo_kube (\<lambda>w. subnet_view ` set (st_subnets w)) mem_bounds mem_sts
     (\<lambda>w. mset (st_claims w)) (\<lambda>w. mset (st_pools w)) (\<lambda>_. 0)"
  using demo_kube_single_writer demo_kube_v4 demo_kube_status_store demo_kube_owners demo_kube_owner_ref demo_kube_progress demo_kube_separate
  by (simp add: cluster_laws_def demo_kube_def fixed_kube_def mem_kube_def)

section \<open>Properties\<close>



end
