(* ===== verification/Nested_Pools.thy ===== *)
theory Nested_Pools
  imports System
begin

text \<open>
  Pools inside pools. A SubnetPoolClaim gets a child pool with the CIDR that the SubnetClaim
  controller allocated to its internal claim from the parent pool. The SubnetPoolClaim
  controller never looks at Subnets, and the SubnetClaim controller never looks at child
  pools; the theorem here says that together they hand out child pools on allocated ranges only.
\<close>

section \<open>Child pools and the claims they come from\<close>

text \<open>A pool that has an owner, with its namespace and its CIDR.\<close>

definition children :: "SubnetPool multiset \<Rightarrow> (string \<times> string) set" where
  "children M = (\<lambda>p. (Namespace (sp_meta p), sp_CIDR (sp_spec p))) ` {p. p \<in># M \<and> OwnerReferences (sp_meta p) \<noteq> []}"

lemma children_add [simp]:
  "children {#} = {}"
  "children (add_mset p M) =
     (if OwnerReferences (sp_meta p) = [] then children M else insert (Namespace (sp_meta p), sp_CIDR (sp_spec p)) (children M))"
  by (auto simp: children_def)

definition bound_cidrs :: "SubnetClaim multiset \<Rightarrow> (string \<times> string) set" where
  "bound_cidrs M = (\<lambda>c. (Namespace (sc_meta c), sc_AllocatedCIDR (sc_status c))) ` {c. c \<in># M \<and> bound_claim c}"

text \<open>
  The server keeps what a pool is created with: its spec; only a creation adds a child pool;
  and the claims it lists as Bound are its Bound claims.
\<close>

definition child_laws :: "'w kube \<Rightarrow> ('w \<Rightarrow> (NamespacedName \<times> string) set) \<Rightarrow> ('w \<Rightarrow> SubnetClaim multiset) \<Rightarrow> ('w \<Rightarrow> SubnetPool multiset) \<Rightarrow> bool" where
  "child_laws k bounds cl pl \<longleftrightarrow>
     (\<forall>p w p' w'. k_create_pool k p w = (Inr p', w') \<longrightarrow> sp_spec p' = sp_spec p)
     \<and> (\<forall>pc p p'. k_set_ref_pool k pc p = Inr p' \<longrightarrow> sp_spec p' = sp_spec p)
     \<and> (\<forall>c w. \<not> adds_owned c \<longrightarrow> children (pl (after k c w)) = children (pl w))
     \<and> (\<forall>w c. c \<in># cl w \<longrightarrow> bound_claim c \<longrightarrow> claim_cell c \<in> bounds w)"

lemma child_lawsD:
  assumes "child_laws k bounds cl pl"
  shows "k_create_pool k p w = (Inr p', w') \<Longrightarrow> sp_spec p' = sp_spec p"
    and "k_set_ref_pool k pc q = Inr q' \<Longrightarrow> sp_spec q' = sp_spec q"
    and "\<not> adds_owned c \<Longrightarrow> children (pl (after k c w)) = children (pl w)"
    and "x \<in># cl w \<Longrightarrow> bound_claim x \<Longrightarrow> claim_cell x \<in> bounds w"
  using assms unfolding child_laws_def by blast+

section \<open>Where a child pool comes from\<close>

lemma createChildPool_children:
  assumes ch: "child_laws k bounds cl pl" and os: "owner_store k cl pl" and ref: "owner_ref_law k"
  shows "children (pl (snd (createChildPool k pc cidr w))) \<subseteq> insert (Namespace (pc_meta pc), cidr) (children (pl w))
    \<and> cl (snd (createChildPool k pc cidr w)) = cl w"
proof (cases "k_set_ref_pool k pc (child_pool pc cidr)")
  case (Inl e)
  then show ?thesis by (auto simp: createChildPool_def)
next
  case (Inr p)
  obtain r w1 where r: "k_create_pool k p w = (r, w1)" by fastforce
  show ?thesis
  proof (cases r)
    case (Inl e)
    then show ?thesis using owner_storeD(7) [OF os] r \<open>k_set_ref_pool k pc _ = Inr p\<close> by (auto simp: createChildPool_def)
  next
    case (Inr p')
    then have p': "pl w1 = add_mset p' (pl w)" "cl w1 = cl w" "Namespace (sp_meta p') = Namespace (sp_meta p)" "sp_spec p' = sp_spec p"
      using owner_storeD(8) [OF os] child_lawsD(1) [OF ch] r by blast+
    have "Namespace (sp_meta p) = Namespace (pc_meta pc)" "sp_CIDR (sp_spec p) = cidr"
      using ref child_lawsD(2) [OF ch] \<open>k_set_ref_pool k pc _ = Inr p\<close> unfolding owner_ref_law_def by (simp_all add: child_pool_def)
    with p' show ?thesis
      using r Inr \<open>k_set_ref_pool k pc _ = Inr p\<close> by (auto simp: createChildPool_def children_def)
  qed
qed

lemma reconcileBoundClaim_children:
  assumes ch: "child_laws k bounds cl pl" and os: "owner_store k cl pl" and ref: "owner_ref_law k"
    and law: "retry_law k" "0 < k_DefaultRetry_Steps k"
  shows "children (pl (snd (reconcileBoundClaim k pc claim w)))
    \<subseteq> insert (Namespace (pc_meta pc), sc_AllocatedCIDR (sc_status claim)) (children (pl w))"
proof -
  obtain l w1 where l: "k_list_pools k (Namespace (pc_meta pc)) w = (l, w1)" by fastforce
  have same: "pl w1 = pl w" using owner_storeD(3) [OF os l] by simp
  obtain c w2 where c: "createChildPool k pc (sc_AllocatedCIDR (sc_status claim)) w1 = (c, w2)" by fastforce
  have "children (pl w2) \<subseteq> insert (Namespace (pc_meta pc), sc_AllocatedCIDR (sc_status claim)) (children (pl w))"
    using createChildPool_children [OF ch os ref, of pc "sc_AllocatedCIDR (sc_status claim)" w1] c same by simp
  then show ?thesis
    using l c same finish_status_views [OF os law]
    by (cases l; cases c) (auto simp: reconcileBoundClaim_def getOwnedSubnetPools_def split: list.splits)
qed

text \<open>Only the CIDR of a claim that is listed as Bound becomes that of a child pool.\<close>

lemma reconcilePendingClaim_children:
  assumes ch: "child_laws k bounds cl pl" and os: "owner_store k cl pl" and ref: "owner_ref_law k"
    and law: "retry_law k" "0 < k_DefaultRetry_Steps k"
  shows "children (pl (snd (reconcilePendingClaim k pc w))) \<subseteq> bound_cidrs (cl w) \<union> children (pl w)"
proof -
  obtain l w1 where l: "k_list_claims k (Namespace (pc_meta pc)) w = (l, w1)" by fastforce
  have same: "pl w1 = pl w" using owner_storeD(1) [OF os l] by simp
  obtain c w2 where c: "createInternalSubnetClaim k pc w1 = (c, w2)" by fastforce
  have w2: "pl w2 = pl w"
    using c same owner_storeD(5,6) [OF os] by (cases c) (auto simp: createInternalSubnetClaim_def split: sum.splits)
  show ?thesis
  proof (cases l)
    case (Inl e)
    then show ?thesis using l same by (auto simp: reconcilePendingClaim_def getOwnedSubnetClaims_def)
  next
    case (Inr items)
    note listed = owner_storeD(2) [OF os l [unfolded Inr]]
    show ?thesis
    proof (cases "filter (\<lambda>c. isOwnedBy (sc_meta c) (pc_meta pc)) items")
      case Nil
      then show ?thesis using l Inr c w2 by (cases c) (auto simp: reconcilePendingClaim_def getOwnedSubnetClaims_def)
    next
      case (Cons x xs)
      then have "x \<in> set items" using filter_is_subset by (metis list.set_intros(1) subsetD)
      then have x: "x \<in># cl w" "Namespace (sc_meta x) = Namespace (pc_meta pc)"
        using listed by (auto simp flip: set_mset_mset)
      then have b: "(Namespace (pc_meta pc), sc_AllocatedCIDR (sc_status x)) \<in> bound_cidrs (cl w)" if "bound_claim x"
        using that unfolding bound_cidrs_def by force
      show ?thesis
        using l Inr Cons same finish_status_views [OF os law] b reconcileBoundClaim_children [OF ch os ref law, of pc x w1]
        by (auto simp: reconcilePendingClaim_def getOwnedSubnetClaims_def reconcileErrorClaim_def bound_claim_def Let_def)
    qed
  qed
qed

lemma PoolClaim_Reconcile_children:
  assumes ch: "child_laws k bounds cl pl" and os: "owner_store k cl pl" and ref: "owner_ref_law k"
    and law: "retry_law k" "0 < k_DefaultRetry_Steps k"
  shows "children (pl (snd (PoolClaim_Reconcile k req w))) \<subseteq> bound_cidrs (cl w) \<union> children (pl w)"
proof -
  obtain g w1 where g: "k_get_poolclaim k req w = (g, w1)" by fastforce
  then show ?thesis
    using owner_storeD(9) [OF os g] reconcilePendingClaim_children [OF ch os ref law, of _ w1]
    by (cases g) (simp_all add: PoolClaim_Reconcile_def Let_def)
qed

section \<open>The system\<close>

definition child_backed :: "subnet_set \<Rightarrow> SubnetPool multiset \<Rightarrow> bool" where
  "child_backed S M \<longleftrightarrow> (\<forall>x \<in> children M. holds_cidr S (fst x) (snd x))"

lemma holds_cidr_mono: "holds_cidr S ns c \<Longrightarrow> S \<subseteq> S' \<Longrightarrow> holds_cidr S' ns c"
  by (auto simp: holds_cidr_def)

text \<open>A step of any controller adds child pools on the CIDRs of Bound claims only.\<close>

lemma system_step_children:
  assumes ch: "child_laws k bounds cl pl" and laws: "cluster_laws k subs bounds sts cl pl left"
    and step: "system_step k legacy q s = Some (out, s')"
  shows "children (pl (snd s')) \<subseteq> bound_cidrs (cl (snd s)) \<union> children (pl (snd s))"
proof -
  have retry: "retry_law k" "0 < k_DefaultRetry_Steps k" and os: "owner_store k cl pl" "owner_ref_law k"
    using laws by (simp_all add: cluster_laws_def single_writer_def)
  have quiet: "children (pl w') = children (pl (snd s))" if "reaches k C (snd s) w'" "\<And>c. C c \<Longrightarrow> \<not> adds_owned c" for C w'
    by (rule reaches_view [OF that(1), where f = "\<lambda>w. children (pl w)"]) (use child_lawsD(3) [OF ch] that(2) in blast)
  show ?thesis
  proof (cases q)
    case (ClaimReq x)
    then have "reaches k (claim_calls k) (snd s) (snd s')"
      using Claim_Reconcile_reaches [OF retry(1), of legacy x "fst s" "snd s" out "fst s'"] step by simp
    then show ?thesis using quiet footprint_kinds(3) by blast
  next
    case (SubnetReq x)
    then have "reaches k subnet_calls (snd s) (snd s')"
      using Subnet_Reconcile_reaches [OF retry(1), of "snd s" x] step by (auto split: prod.splits)
    then show ?thesis using quiet footprint_kinds(1) by blast
  next
    case (PoolReq x)
    then have "reaches k pool_status_calls (snd s) (snd s')"
      using PoolStatus_Reconcile_reaches [OF retry(1), of x "snd s"] step by auto
    then show ?thesis using quiet footprint_kinds(2) by blast
  next
    case (PoolClaimReq x)
    then show ?thesis
      using PoolClaim_Reconcile_children [OF ch os retry, of x "snd s"] step by (auto split: prod.splits)
  qed
qed

definition nested_good ::
    "'w kube \<Rightarrow> ('w \<Rightarrow> subnet_set) \<Rightarrow> ('w \<Rightarrow> (NamespacedName \<times> string) set) \<Rightarrow> ('w \<Rightarrow> NamespacedName \<rightharpoonup> SubnetStatus)
     \<Rightarrow> ('w \<Rightarrow> SubnetClaim multiset) \<Rightarrow> ('w \<Rightarrow> SubnetPool multiset) \<Rightarrow> (string \<Rightarrow> nat) \<Rightarrow> registry \<times> 'w \<Rightarrow> bool" where
  "nested_good k subs bounds sts cl pl left s \<longleftrightarrow>
     system_good k subs bounds sts cl pl left s \<and> child_laws k bounds cl pl \<and> child_backed (subs (snd s)) (pl (snd s))"

lemma bound_cidrs_backed:
  assumes ch: "child_laws k bounds cl pl" and b: "backed S (bounds w)" and x: "x \<in> bound_cidrs (cl w)"
  shows "holds_cidr S (fst x) (snd x)"
proof -
  obtain c where c: "c \<in># cl w" "bound_claim c" "x = (Namespace (sc_meta c), sc_AllocatedCIDR (sc_status c))"
    using x by (auto simp: bound_cidrs_def)
  then have "claim_cell c \<in> bounds w" using child_lawsD(4) [OF ch] by blast
  then show ?thesis using b c(3) unfolding backed_def by (auto simp: claim_cell_def meta_key_def)
qed

interpretation nest: reconciler "system_step k legacy" "nested_good k subs bounds sts cl pl left" "system_le subs sts"
  for k legacy subs bounds sts cl pl left
proof
  fix s q
  assume good: "nested_good k subs bounds sts cl pl left s"
  then have sys: "system_good k subs bounds sts cl pl left s" and ch: "child_laws k bounds cl pl" by (simp_all add: nested_good_def)
  from sys.step_good [OF sys] obtain out s' where s': "system_step k legacy q s = Some (out, s')"
    "system_good k subs bounds sts cl pl left s'" "system_le subs sts s s'" by blast
  have "cluster_laws k subs bounds sts cl pl left" and b: "backed (subs (snd s)) (bounds (snd s))"
    using sys by (simp_all add: system_good_def recon_inv_def)
  note new = system_step_children [OF ch this(1) s'(1)]
  have "holds_cidr (subs (snd s)) (fst x) (snd x)" if "x \<in> children (pl (snd s'))" for x
    using that new bound_cidrs_backed [OF ch b, of x] good by (auto simp: nested_good_def child_backed_def)
  then have "child_backed (subs (snd s')) (pl (snd s'))"
    using s'(3) by (auto simp: child_backed_def system_le_def intro: holds_cidr_mono)
  then show "\<exists>out s'. system_step k legacy q s = Some (out, s') \<and> nested_good k subs bounds sts cl pl left s' \<and> system_le subs sts s s'"
    using s' ch by (auto simp: nested_good_def)
qed (rule sys.le_refl, rule sys.le_trans)

section \<open>The in-memory cluster\<close>

lemma children_put_status:
  "children (mset (put_status sp_meta (\<lambda>x. x\<lparr>sp_status := st\<rparr>) key ps)) = children (mset ps)"
proof -
  let ?f = "\<lambda>p. (Namespace (sp_meta p), sp_CIDR (sp_spec p))"
  let ?g = "\<lambda>y. if meta_key (sp_meta y) = key then y\<lparr>sp_status := st\<rparr> else y"
  have "children (mset (map ?g ps)) = ?f ` ?g ` {p \<in> set ps. OwnerReferences (sp_meta (?g p)) \<noteq> []}"
    by (auto simp: children_def)
  also have "\<dots> = ?f ` {p \<in> set ps. OwnerReferences (sp_meta p) \<noteq> []}"
    unfolding image_image by (rule image_cong) auto
  finally show ?thesis by (simp add: put_status_def children_def)
qed

lemma demo_kube_children: "child_laws demo_kube mem_bounds (\<lambda>w. mset (st_claims w)) (\<lambda>w. mset (st_pools w))"
  unfolding child_laws_def
proof (intro conjI allI impI)
  note d = demo_kube_def fixed_kube_def mem_kube_def
  fix c w
  show "\<not> adds_owned c \<Longrightarrow> children (mset (st_pools (after demo_kube c w))) = children (mset (st_pools w))"
    by (cases c) (simp_all add: d children_put_status split: sum.splits)
next
  fix w :: store and x
  assume "x \<in># mset (st_claims w)" "bound_claim x"
  then show "claim_cell x \<in> mem_bounds w" by (simp add: mem_bounds_def)
qed (auto simp: demo_kube_def fixed_kube_def mem_kube_def split: sum.splits)

text \<open>A SubnetPoolClaim whose internal claim has been Bound.\<close>

definition nested_claim :: SubnetClaim where
  "nested_claim = (internal_claim demo_poolclaim)\<lparr>sc_meta := owned_by ''u'' (empty_meta\<lparr>Name := ''x-1'', Namespace := ''ns''\<rparr>),
     sc_status := \<lparr>sc_ObservedGeneration = 0, sc_Phase = ClaimBound, sc_AllocatedCIDR = ''10.0.0.0/26'', sc_Message = '''', sc_Conditions = []\<rparr>\<rparr>"

definition nested_world :: store where
  "nested_world = (poolclaim_world [nested_claim])\<lparr>st_subnets := [paged_subnet ''10.0.0.0/26'']\<rparr>"

text \<open>One reconciliation creates the child pool.\<close>

lemma nested_world_child:
  "children (mset (st_pools (snd (PoolClaim_Reconcile demo_kube (''ns'', ''x'') nested_world)))) = {(''ns'', ''10.0.0.0/26'')}"
  by (simp add: PoolClaim_Reconcile_def reconcilePendingClaim_def getOwnedSubnetClaims_def reconcileBoundClaim_def getOwnedSubnetPools_def
      createChildPool_def finish_status_def updatePoolClaimStatus_def k_RetryOnConflict_def update_poolclaim_once_def
      demo_kube_def fixed_kube_def mem_kube_def nested_world_def nested_claim_def poolclaim_world_def demo_poolclaim_def
      isOwnedBy_def owned_by_def internal_claim_def child_pool_def create_obj_def find_obj_def meta_key_def empty_meta_def phase_defs
      Let_def numeral_eq_Suc cong: if_cong)

section \<open>Properties\<close>



end
