(* ===== verification/Claim_Outcome.thy ===== *)
theory Claim_Outcome
  imports Claim_Reconciler
begin

text \<open>
  What one reconciliation does for a waiting claim, from the request to the stored status, on a
  server that answers: the claim becomes Bound to the lowest free block of its size, or Error
  if the pool has none. The lemmas follow the calls of the reconciliation in their order.
\<close>

section \<open>A server that answers\<close>

text \<open>
  \<open>claims w\<close> is the stored claims, \<open>subs w\<close> the stored Subnets. Reads are current, a missing
  Subnet is reported as NotFound, creating a Subnet under a new name and updating the status
  of a stored claim succeed, and nothing else changes the two.
\<close>

definition responsive ::
    "'w kube \<Rightarrow> ('w \<Rightarrow> subnet_set) \<Rightarrow> ('w \<Rightarrow> NamespacedName \<rightharpoonup> SubnetClaim) \<Rightarrow> SubnetPool \<Rightarrow> bool" where
  "responsive k subs claims pool \<longleftrightarrow>
     (\<forall>key w c. claims w key = Some c \<longrightarrow>
        (\<exists>w'. k_get_claim k key w = (Inr c, w') \<and> claims w' = claims w \<and> subs w' = subs w))
     \<and> (\<forall>c w x. claims w (meta_key (sc_meta c)) = Some x \<longrightarrow>
        (\<exists>w'. k_update_claim_status k c w = (Inr (), w')
           \<and> claims w' = (claims w)(meta_key (sc_meta c) \<mapsto> x\<lparr>sc_status := sc_status c\<rparr>) \<and> subs w' = subs w))
     \<and> (\<forall>w. \<exists>w'. k_get_pool k (meta_key (sp_meta pool)) w = (Inr pool, w') \<and> claims w' = claims w \<and> subs w' = subs w)
     \<and> (\<forall>key w. key \<notin> fst ` subs w \<longrightarrow>
        (\<exists>e w'. k_get_subnet k key w = (Inl e, w') \<and> k_IsNotFound k e \<and> claims w' = claims w \<and> subs w' = subs w))
     \<and> (\<forall>ns p w. \<exists>items w'. k_list_subnets k ns p w = (Inr items, w') \<and> subnet_view ` set items = in_pool_of ns p (subs w)
        \<and> claims w' = claims w \<and> subs w' = subs w)
     \<and> (\<forall>c s w. meta_key (sn_meta s) \<notin> fst ` subs w \<longrightarrow>
        (\<exists>s' s'' w'. k_set_ref_subnet k c s = Inr s' \<and> k_create_subnet k s' w = (Inr s'', w')
           \<and> subs w' = insert (subnet_view s) (subs w) \<and> claims w' = claims w))
     \<and> (\<forall>e w. claims (k_emit k e w) = claims w \<and> subs (k_emit k e w) = subs w)"

lemma responsiveD:
  assumes "responsive k subs claims pool"
  shows "claims w key = Some c \<Longrightarrow> \<exists>w'. k_get_claim k key w = (Inr c, w') \<and> claims w' = claims w \<and> subs w' = subs w"
    and "claims w (meta_key (sc_meta c)) = Some x \<Longrightarrow> \<exists>w'. k_update_claim_status k c w = (Inr (), w')
      \<and> claims w' = (claims w)(meta_key (sc_meta c) \<mapsto> x\<lparr>sc_status := sc_status c\<rparr>) \<and> subs w' = subs w"
    and "\<exists>w'. k_get_pool k (meta_key (sp_meta pool)) w = (Inr pool, w') \<and> claims w' = claims w \<and> subs w' = subs w"
    and "key \<notin> fst ` subs w \<Longrightarrow>
      \<exists>e w'. k_get_subnet k key w = (Inl e, w') \<and> k_IsNotFound k e \<and> claims w' = claims w \<and> subs w' = subs w"
    and "\<exists>items w'. k_list_subnets k ns p w = (Inr items, w') \<and> subnet_view ` set items = in_pool_of ns p (subs w)
      \<and> claims w' = claims w \<and> subs w' = subs w"
    and "meta_key (sn_meta s) \<notin> fst ` subs w \<Longrightarrow>
      \<exists>s' s'' w'. k_set_ref_subnet k c s = Inr s' \<and> k_create_subnet k s' w = (Inr s'', w')
        \<and> subs w' = insert (subnet_view s) (subs w) \<and> claims w' = claims w"
    and "blind k (\<lambda>w. (subs w, claims w))"
proof -
  note a = assms [unfolded responsive_def]
  show "claims w key = Some c \<Longrightarrow> \<exists>w'. k_get_claim k key w = (Inr c, w') \<and> claims w' = claims w \<and> subs w' = subs w"
    using conjunct1 [OF a] by blast
  note a = conjunct2 [OF a]
  show "claims w (meta_key (sc_meta c)) = Some x \<Longrightarrow> \<exists>w'. k_update_claim_status k c w = (Inr (), w')
      \<and> claims w' = (claims w)(meta_key (sc_meta c) \<mapsto> x\<lparr>sc_status := sc_status c\<rparr>) \<and> subs w' = subs w"
    using conjunct1 [OF a] by blast
  note a = conjunct2 [OF a]
  show "\<exists>w'. k_get_pool k (meta_key (sp_meta pool)) w = (Inr pool, w') \<and> claims w' = claims w \<and> subs w' = subs w"
    using conjunct1 [OF a] by blast
  note a = conjunct2 [OF a]
  show "key \<notin> fst ` subs w \<Longrightarrow>
      \<exists>e w'. k_get_subnet k key w = (Inl e, w') \<and> k_IsNotFound k e \<and> claims w' = claims w \<and> subs w' = subs w"
    using conjunct1 [OF a] by blast
  note a = conjunct2 [OF a]
  show "\<exists>items w'. k_list_subnets k ns p w = (Inr items, w') \<and> subnet_view ` set items = in_pool_of ns p (subs w)
      \<and> claims w' = claims w \<and> subs w' = subs w"
    using conjunct1 [OF a] by blast
  note a = conjunct2 [OF a]
  show "meta_key (sn_meta s) \<notin> fst ` subs w \<Longrightarrow>
      \<exists>s' s'' w'. k_set_ref_subnet k c s = Inr s' \<and> k_create_subnet k s' w = (Inr s'', w')
        \<and> subs w' = insert (subnet_view s) (subs w) \<and> claims w' = claims w"
    using conjunct1 [OF a] by blast
  show "blind k (\<lambda>w. (subs w, claims w))" using conjunct2 [OF a] by (simp add: blind_def)
qed

section \<open>The status update\<close>

lemma OnError_first_run: "retry_law k \<Longrightarrow> f w = (Inr u, w') \<Longrightarrow> k_OnError k (Suc n) p f w = (Inr u, w')"
  by (simp add: retry_law_def)

lemma updateClaimStatus_stores:
  assumes srv: "responsive k subs claims pool" and law: "retry_law k"
    and cl: "claims w (meta_key (sc_meta claim)) = Some claim"
    and new: "(sc_Phase (sc_status claim), sc_AllocatedCIDR (sc_status claim), sc_Message (sc_status claim)) \<noteq> (ph, c, m)"
    and ph: "ph \<noteq> ClaimPending"
  shows "\<exists>w' t. updateClaimStatus k claim ph c m w = ((no_requeue, None), w') \<and> subs w' = subs w
    \<and> claims w' = (claims w)(meta_key (sc_meta claim) \<mapsto> with_claim_status k ph c m t claim)"
proof -
  let ?key = "(Namespace (sc_meta claim), Name (sc_meta claim))"
  have key: "meta_key (sc_meta claim) = ?key" by (simp add: meta_key_def)
  obtain w1 where g: "k_get_claim k ?key w = (Inr claim, w1)" "claims w1 = claims w" "subs w1 = subs w"
    using responsiveD(1) [OF srv cl] unfolding key by blast
  let ?new = "with_claim_status k ph c m (k_now k w1) claim"
  have nk: "meta_key (sc_meta ?new) = ?key" by (simp add: with_claim_status_def meta_key_def)
  have same: "claim\<lparr>sc_status := sc_status ?new\<rparr> = ?new" by (simp add: with_claim_status_def)
  have "claims w1 (meta_key (sc_meta ?new)) = Some claim" using cl g(2) nk by (simp add: key)
  from responsiveD(2) [OF srv this] obtain w2 where u: "k_update_claim_status k ?new w1 = (Inr (), w2)"
    "claims w2 = (claims w1)(?key \<mapsto> ?new)" "subs w2 = subs w1"
    unfolding nk same by blast
  have f: "update_claim_once k claim ph c m w = (Inr (), w2)" using g u by (simp add: update_claim_once_def)
  have "notfound_loop k (update_claim_once k claim ph c m) None 0 (Suc NotFoundRetryMax) w = (None, w2)"
    using OnError_first_run [where f = "update_claim_once k claim ph c m", OF law f, of 4 "k_IsConflict k"] by (simp add: k_RetryOnConflict_def)
  then show ?thesis using new ph u g key by (auto simp: updateClaimStatus_def simp del: notfound_loop.simps)
qed

section \<open>The allocation\<close>

text \<open>A claim without a wish for a CIDR, of a cluster without a Subnet in the pool.\<close>

definition waiting :: "SubnetClaim \<Rightarrow> subnet_set \<Rightarrow> bool" where
  "waiting claim S \<longleftrightarrow>
     sc_Phase (sc_status claim) = '''' \<and> sc_RequestedCIDR (sc_spec claim) = ''''
     \<and> (Namespace (sc_meta claim), sc_ClusterID (sc_spec claim)) \<notin> fst ` S
     \<and> (\<forall>x\<in>in_pool_of (Namespace (sc_meta claim)) (sc_PoolRef (sc_spec claim)) S. sn_ClusterID (snd x) \<noteq> sc_ClusterID (sc_spec claim))"

definition pool_cidrs :: "SubnetPool \<Rightarrow> subnet_set \<Rightarrow> string set" where
  "pool_cidrs pool S = (\<lambda>x. sn_CIDR (snd x)) ` in_pool_of (Namespace (sp_meta pool)) (Name (sp_meta pool)) S"

definition pool_free :: "SubnetPool \<Rightarrow> subnet_set \<Rightarrow> nat \<Rightarrow> nat \<Rightarrow> bool" where
  "pool_free pool S = free_block (cidr_addrs (sp_CIDR (sp_spec pool))) (pool_cidrs pool S)"

text \<open>No stored Subnet has the name of a free block.\<close>

definition names_free :: "SubnetPool \<Rightarrow> subnet_set \<Rightarrow> nat \<Rightarrow> bool" where
  "names_free pool S n \<longleftrightarrow>
     (\<forall>c a. v4_cidr c a n \<longrightarrow> pool_free pool S n a \<longrightarrow>
        (Namespace (sp_meta pool), EncodeAllocationName (Name (sp_meta pool)) c) \<notin> fst ` S)"

lemma selection_outcome:
  assumes ord: "order_law k" and p: "v4_cidr (sp_CIDR (sp_spec pool)) p kp" "12 \<le> kp" "kp \<le> 28"
    and inv: "alloc_inv (cidr_addrs (sp_CIDR (sp_spec pool))) (Namespace (sp_meta pool)) (Name (sp_meta pool)) S"
    and req: "sc_RequestedCIDR (sc_spec claim) = ''''" and n: "block_size_of claim pool = int n" "16 \<le> n" "n \<le> 28"
    and list: "subnet_view ` set allocs = in_pool_of (Namespace (sp_meta pool)) (Name (sp_meta pool)) S"
  obtains (none) e where "\<And>a. \<not> pool_free pool S n a"
      and "selectCandidateCIDR (k_order k w) claim pool (subnet_cidrs allocs) allocs = Some (Inl (NewExhaustedError e))"
  | (some) a c where "selectCandidateCIDR (k_order k w) claim pool (subnet_cidrs allocs) allocs = Some (Inr c)"
      and "v4_cidr c a n" and "pool_free pool S n a" and "\<And>b. pool_free pool S n b \<Longrightarrow> a \<le> b"
proof -
  let ?U = "subnet_cidrs allocs"
  have U: "?U = pool_cidrs pool S" unfolding subnet_cidrs_view list by (simp add: pool_cidrs_def)
  have o: "distinct (k_order k w ?U)" "set (k_order k w ?U) = ?U"
    using ord by (simp_all add: order_law_def subnet_cidrs_def)
  have d: "disjoint_used (cidr_addrs (sp_CIDR (sp_spec pool))) ?U"
    by (rule alloc_inv_disjoint_used [OF inv]) (simp add: U pool_cidrs_def)
  show ?thesis
  proof (rule findAvailableCIDR_first_fit [of "sp_CIDR (sp_spec pool)" p kp "k_order k w" ?U n, OF p o d n(2,3)])
    assume f: "\<And>a. \<not> free_block (cidr_addrs (sp_CIDR (sp_spec pool))) ?U n a"
      and e: "findAvailableCIDR (k_order k w) (sp_CIDR (sp_spec pool)) (int n) ?U =
        Inl (Wrapf ''failed to allocate CIDR: '' (Errorf (''no available CIDR blocks of size /'' @ nat_str n)))"
    have "Contains_str (''failed to allocate CIDR: '' @ ''no available CIDR blocks'' @ '' of size /'' @ nat_str n) ''no available CIDR blocks''"
      by (rule Contains_str_mid)
    then show thesis
      using none f e by (simp add: pool_free_def U selectCandidateCIDR_def req n(1) handleCIDRSelectionError_def)
  next
    fix a s
    assume "findAvailableCIDR (k_order k w) (sp_CIDR (sp_spec pool)) (int n) ?U = Inr s" "v4_cidr s a n"
      "free_block (cidr_addrs (sp_CIDR (sp_spec pool))) ?U n a"
      "\<And>b. free_block (cidr_addrs (sp_CIDR (sp_spec pool))) ?U n b \<Longrightarrow> a \<le> b"
    then show thesis using some [of s a] by (simp add: pool_free_def U selectCandidateCIDR_def req n(1))
  qed
qed

text \<open>The first round of the retry loop decides in both cases.\<close>

lemma allocate_loop_first:
  assumes "0 < n"
  shows "selectCandidateCIDR (k_order k w) claim pool U allocs = Some (Inr c) \<Longrightarrow>
      createAllocation k claim pool c (EncodeAllocationName (Name (sp_meta pool)) c) w = (Inr (True, c), w') \<Longrightarrow>
      allocate_loop k claim pool allocs U 0 n w = Some (Inr (True, c), pool, w')"
    and "selectCandidateCIDR (k_order k w) claim pool U allocs = Some (Inl e) \<Longrightarrow>
      allocate_loop k claim pool allocs U 0 n w = Some (Inl e, pool, w)"
  using assms by (cases n; simp add: prepare_retry_def Let_def)+

lemma allocateCIDR_first:
  assumes "find_existing claim pool allocs = None"
  shows "selectCandidateCIDR (k_order k w) claim pool (subnet_cidrs allocs) allocs = Some (Inr c) \<Longrightarrow>
      createAllocation k claim pool c (EncodeAllocationName (Name (sp_meta pool)) c) w = (Inr (True, c), w') \<Longrightarrow>
      allocateCIDR k claim pool allocs w = Some (Inr (True, c), pool, recordLatency k w')"
    and "selectCandidateCIDR (k_order k w) claim pool (subnet_cidrs allocs) allocs = Some (Inl e) \<Longrightarrow>
      allocateCIDR k claim pool allocs w = Some (Inl e, pool, recordLatency k w)"
  using assms by (simp_all add: allocateCIDR_def allocate_loop_first AllocationMaxRetries_def)

lemma createAllocation_new:
  assumes srv: "responsive k subs claims pool" and name: "(Namespace (sc_meta claim), name) \<notin> fst ` subs w"
  shows "\<exists>w'. createAllocation k claim pool c name w = (Inr (True, c), w') \<and> claims w' = claims w
    \<and> subs w' = insert (subnet_view (new_subnet claim pool c name)) (subs w)"
proof -
  let ?s = "new_subnet claim pool c name"
  have "meta_key (sn_meta ?s) = (Namespace (sc_meta claim), name)" by (simp add: new_subnet_def meta_key_def)
  then obtain s' s'' w' where "k_set_ref_subnet k claim ?s = Inr s'" "k_create_subnet k s' w = (Inr s'', w')"
    "subs w' = insert (subnet_view ?s) (subs w)" "claims w' = claims w"
    using responsiveD(6) [OF srv, of ?s w claim] name by auto
  then show ?thesis
    using emit_blind(7) [OF responsiveD(7) [OF srv], of "''success''" w'] by (simp add: createAllocation_def)
qed

text \<open>The two ends of the allocation loop.\<close>

lemma on_allocated_stores:
  assumes srv: "responsive k subs claims pool" and law: "retry_law k"
    and cl: "claims w (meta_key (sc_meta claim)) = Some claim" and ph: "sc_Phase (sc_status claim) = ''''"
  shows "\<exists>r' w' t. on_allocated k legacy claim p allocs c (r, w) = ((no_requeue, None), r', w') \<and> subs w' = subs w
    \<and> claims w' = (claims w)(meta_key (sc_meta claim) \<mapsto> with_claim_status k ClaimBound c '''' t claim)"
proof -
  note bl = responsiveD(7) [OF srv]
  let ?s = "record_free_blocks k legacy p allocs c (r, EmitAllocationSuccess k claim c (recordAllocSuccess k claim c w))"
  have v: "subs (snd ?s) = subs w" "claims (snd ?s) = claims w"
    using record_free_blocks_blind [OF bl, of legacy p allocs c] emit_blind(1,5) [OF bl] by auto
  have "claims (snd ?s) (meta_key (sc_meta claim)) = Some claim" using cl v(2) by simp
  from updateClaimStatus_stores [OF srv law this, of ClaimBound c "''''"] ph v show ?thesis
    by (auto simp: on_allocated_def Let_def with_reg_def phase_defs)
qed

lemma on_exhausted_stores:
  assumes srv: "responsive k subs claims pool" and law: "retry_law k"
    and cl: "claims w (meta_key (sc_meta claim)) = Some claim" and ph: "sc_Phase (sc_status claim) = ''''"
  shows "\<exists>w' t m. on_exhausted k claim p e (r, w) = ((no_requeue, None), r, w') \<and> subs w' = subs w
    \<and> claims w' = (claims w)(meta_key (sc_meta claim) \<mapsto> with_claim_status k ClaimError '''' m t claim)"
proof -
  note bl = responsiveD(7) [OF srv]
  let ?w = "recordAllocationError k claim ''exhausted'' (EmitPoolExhausted k claim (Name (sp_meta p)) w)"
  have v: "subs ?w = subs w" "claims ?w = claims w" using emit_blind(3,6) [OF bl] by auto
  let ?m = "''Pool '' @ Name (sp_meta p) @ '' is exhausted: '' @ err_text e"
  have "claims ?w (meta_key (sc_meta claim)) = Some claim" using cl v(2) by simp
  then have "\<exists>w' t. updateClaimStatus k claim ClaimError '''' ?m ?w = ((no_requeue, None), w') \<and> subs w' = subs ?w
      \<and> claims w' = (claims ?w)(meta_key (sc_meta claim) \<mapsto> with_claim_status k ClaimError '''' ?m t claim)"
    by (rule updateClaimStatus_stores [OF srv law]) (simp_all add: ph phase_defs)
  then show ?thesis unfolding on_exhausted_def with_reg_def fst_conv snd_conv v by fastforce
qed

lemma process_loop_round:
  assumes "0 < n"
  shows "allocateCIDR k claim pool allocs (k_emit k (SleepMs 30) w) = Some (Inr (True, c), p1, w1) \<Longrightarrow>
      process_loop k legacy claim pool allocs 0 n (r, w) = Some (on_allocated k legacy claim p1 allocs c (r, w1))"
    and "allocateCIDR k claim pool allocs (k_emit k (SleepMs 30) w) = Some (Inl (NewExhaustedError e), p1, w1) \<Longrightarrow>
      process_loop k legacy claim pool allocs 0 n (r, w) = Some (on_exhausted k claim p1 (NewExhaustedError e) (r, w1))"
  using assms by (cases n; simp add: IsExhaustedError_def NewExhaustedError_def)+

lemma process_loop_outcome:
  assumes srv: "responsive k subs claims pool" and law: "retry_law k" and ord: "order_law k"
    and p: "v4_cidr (sp_CIDR (sp_spec pool)) p kp" "12 \<le> kp" "kp \<le> 28"
    and inv: "alloc_inv (cidr_addrs (sp_CIDR (sp_spec pool))) (Namespace (sp_meta pool)) (Name (sp_meta pool)) (subs w)"
    and n: "block_size_of claim pool = int n" "16 \<le> n" "n \<le> 28" and names: "names_free pool (subs w) n"
    and cl: "claims w (meta_key (sc_meta claim)) = Some claim" and wait: "waiting claim (subs w)"
    and pk: "meta_key (sp_meta pool) = (Namespace (sc_meta claim), sc_PoolRef (sc_spec claim))"
    and list: "subnet_view ` set allocs = in_pool_of (Namespace (sp_meta pool)) (Name (sp_meta pool)) (subs w)"
  obtains (none) r' w' t m where "\<And>a. \<not> pool_free pool (subs w) n a"
      and "process_loop k legacy claim pool allocs 0 MaxRetries (r, w) = Some ((no_requeue, None), r', w')"
      and "subs w' = subs w" and "claims w' = (claims w)(meta_key (sc_meta claim) \<mapsto> with_claim_status k ClaimError '''' m t claim)"
  | (some) r' w' t a c where "process_loop k legacy claim pool allocs 0 MaxRetries (r, w) = Some ((no_requeue, None), r', w')"
      and "v4_cidr c a n" and "pool_free pool (subs w) n a" and "\<And>b. pool_free pool (subs w) n b \<Longrightarrow> a \<le> b"
      and "subs w' = insert (subnet_view (new_subnet claim pool c (EncodeAllocationName (Name (sp_meta pool)) c))) (subs w)"
      and "claims w' = (claims w)(meta_key (sc_meta claim) \<mapsto> with_claim_status k ClaimBound c '''' t claim)"
proof -
  have bl: "blind k (\<lambda>w. (subs w, claims w))" by (rule responsiveD(7) [OF srv])
  have key: "Namespace (sp_meta pool) = Namespace (sc_meta claim)" "Name (sp_meta pool) = sc_PoolRef (sc_spec claim)"
    using pk by (simp_all add: meta_key_def)
  have ph: "sc_Phase (sc_status claim) = ''''" and req: "sc_RequestedCIDR (sc_spec claim) = ''''" using wait by (simp_all add: waiting_def)
  let ?w0 = "k_emit k (SleepMs 30) w"
  have v0: "subs ?w0 = subs w" "claims ?w0 = claims w" using emit_blind(10) [OF bl] by auto
  have lat: "subs (recordLatency k v) = subs v" "claims (recordLatency k v) = claims v" for v using emit_blind(8) [OF bl] by auto
  have noex: "find_existing claim pool allocs = None"
    using wait list unfolding find_existing_None waiting_def key by (force simp: subnet_view_def)
  have M: "0 < MaxRetries" by (simp add: MaxRetries_def)
  show ?thesis
  proof (rule selection_outcome [where w = ?w0, OF ord p inv req n list])
    fix e
    assume free: "\<And>a. \<not> pool_free pool (subs w) n a"
      and sel: "selectCandidateCIDR (k_order k ?w0) claim pool (subnet_cidrs allocs) allocs = Some (Inl (NewExhaustedError e))"
    let ?w1 = "recordLatency k ?w0"
    have "claims ?w1 (meta_key (sc_meta claim)) = Some claim" using cl lat v0 by simp
    from on_exhausted_stores [OF srv law this ph, of pool "NewExhaustedError e" r] obtain w' t m where
      "on_exhausted k claim pool (NewExhaustedError e) (r, ?w1) = ((no_requeue, None), r, w')" "subs w' = subs ?w1"
      "claims w' = (claims ?w1)(meta_key (sc_meta claim) \<mapsto> with_claim_status k ClaimError '''' m t claim)" by blast
    then show thesis
      using none [of r w' m t] free process_loop_round(2) [OF M allocateCIDR_first(2) [OF noex sel], of legacy r] lat v0 by simp
  next
    fix a c
    assume sel: "selectCandidateCIDR (k_order k ?w0) claim pool (subnet_cidrs allocs) allocs = Some (Inr c)"
      and c: "v4_cidr c a n" "pool_free pool (subs w) n a" "\<And>b. pool_free pool (subs w) n b \<Longrightarrow> a \<le> b"
    let ?name = "EncodeAllocationName (Name (sp_meta pool)) c"
    have "(Namespace (sc_meta claim), ?name) \<notin> fst ` subs ?w0" using names c(1,2) key v0 unfolding names_free_def by simp
    from createAllocation_new [OF srv this, of c] obtain w1 where w1: "createAllocation k claim pool c ?name ?w0 = (Inr (True, c), w1)"
      "claims w1 = claims ?w0" "subs w1 = insert (subnet_view (new_subnet claim pool c ?name)) (subs ?w0)" by blast
    let ?w2 = "recordLatency k w1"
    have "claims ?w2 (meta_key (sc_meta claim)) = Some claim" using cl lat v0 w1 by simp
    from on_allocated_stores [OF srv law this ph, of legacy pool allocs c r] obtain r' w' t where
      "on_allocated k legacy claim pool allocs c (r, ?w2) = ((no_requeue, None), r', w')" "subs w' = subs ?w2"
      "claims w' = (claims ?w2)(meta_key (sc_meta claim) \<mapsto> with_claim_status k ClaimBound c '''' t claim)" by blast
    then show thesis
      using some [of r' w' c a t] c process_loop_round(1) [OF M allocateCIDR_first(1) [OF noex sel w1(1)], of legacy r] lat v0 w1 by simp
  qed
qed

text \<open>The reconciliation of a waiting claim reaches the allocation loop with a current list.\<close>

lemma waiting_claim_reaches_loop:
  assumes srv: "responsive k subs claims pool" and cl: "claims w (meta_key (sc_meta claim)) = Some claim"
    and wait: "waiting claim (subs w)" and valid: "validateClaim claim pool = None"
    and pk: "meta_key (sp_meta pool) = (Namespace (sc_meta claim), sc_PoolRef (sc_spec claim))"
  obtains w' allocs where "subs w' = subs w" and "claims w' = claims w"
    and "subnet_view ` set allocs = in_pool_of (Namespace (sp_meta pool)) (Name (sp_meta pool)) (subs w)"
    and "Claim_Reconcile k legacy (meta_key (sc_meta claim)) (r, w) = process_loop k legacy claim pool allocs 0 MaxRetries (r, w')"
proof -
  obtain w1 where 1: "k_get_claim k (meta_key (sc_meta claim)) w = (Inr claim, w1)" "claims w1 = claims w" "subs w1 = subs w"
    using responsiveD(1) [OF srv cl] by blast
  obtain w2 where 2: "k_get_pool k (Namespace (sc_meta claim), sc_PoolRef (sc_spec claim)) w1 = (Inr pool, w2)"
    "claims w2 = claims w1" "subs w2 = subs w1"
    using responsiveD(3) [OF srv, of w1] unfolding pk by blast
  have "(Namespace (sc_meta claim), sc_ClusterID (sc_spec claim)) \<notin> fst ` subs w2"
    using wait 1 2 by (simp add: waiting_def)
  then obtain e w3 where 3: "k_get_subnet k (Namespace (sc_meta claim), sc_ClusterID (sc_spec claim)) w2 = (Inl e, w3)"
    "k_IsNotFound k e" "claims w3 = claims w2" "subs w3 = subs w2"
    using responsiveD(4) [OF srv] by blast
  obtain allocs w4 where 4: "k_list_subnets k (Namespace (sc_meta claim)) (sc_PoolRef (sc_spec claim)) w3 = (Inr allocs, w4)"
    "subnet_view ` set allocs = in_pool_of (Namespace (sc_meta claim)) (sc_PoolRef (sc_spec claim)) (subs w3)"
    "claims w4 = claims w3" "subs w4 = subs w3"
    using responsiveD(5) [OF srv] by metis
  have "sc_Phase (sc_status claim) \<noteq> ClaimBound" using wait by (simp add: waiting_def phase_defs)
  then have "Claim_Reconcile k legacy (meta_key (sc_meta claim)) (r, w) = process_loop k legacy claim pool allocs 0 MaxRetries (r, w4)"
    using 1 2 3 4 valid by (simp add: Claim_Reconcile_def processClaimReconciliation_def allocate_for_claim_def Let_def)
  then show ?thesis using that [of w4 allocs] 1 2 3 4 pk by (simp add: meta_key_def)
qed

lemma waiting_claim_outcome:
  assumes "responsive k subs claims pool" and "retry_law k" and "order_law k"
    and "v4_cidr (sp_CIDR (sp_spec pool)) p kp" and "12 \<le> kp" and "kp \<le> 28"
    and "alloc_inv (cidr_addrs (sp_CIDR (sp_spec pool))) (Namespace (sp_meta pool)) (Name (sp_meta pool)) (subs w)"
    and "block_size_of claim pool = int n" and "16 \<le> n" and "n \<le> 28" and "names_free pool (subs w) n"
    and "claims w (meta_key (sc_meta claim)) = Some claim" and "waiting claim (subs w)" and "validateClaim claim pool = None"
    and "meta_key (sp_meta pool) = (Namespace (sc_meta claim), sc_PoolRef (sc_spec claim))"
  shows "\<exists>r' w' st. Claim_Reconcile k legacy (meta_key (sc_meta claim)) (r, w) = Some ((no_requeue, None), r', w')
    \<and> claims w' = (claims w)(meta_key (sc_meta claim) \<mapsto> claim\<lparr>sc_status := st\<rparr>)
    \<and> sc_ObservedGeneration st = Generation (sc_meta claim)
    \<and> (if \<exists>a. pool_free pool (subs w) n a
       then sc_Phase st = ClaimBound
         \<and> (\<exists>a. v4_cidr (sc_AllocatedCIDR st) a n \<and> pool_free pool (subs w) n a \<and> (\<forall>b. pool_free pool (subs w) n b \<longrightarrow> a \<le> b))
         \<and> subs w' = insert (subnet_view (new_subnet claim pool (sc_AllocatedCIDR st)
              (EncodeAllocationName (Name (sp_meta pool)) (sc_AllocatedCIDR st)))) (subs w)
       else sc_Phase st = ClaimError \<and> sc_AllocatedCIDR st = '''' \<and> subs w' = subs w)"
proof -
  obtain w1 allocs where w1: "subs w1 = subs w" "claims w1 = claims w"
    and list: "subnet_view ` set allocs = in_pool_of (Namespace (sp_meta pool)) (Name (sp_meta pool)) (subs w)"
    and run: "Claim_Reconcile k legacy (meta_key (sc_meta claim)) (r, w) = process_loop k legacy claim pool allocs 0 MaxRetries (r, w1)"
    by (rule waiting_claim_reaches_loop [OF assms(1,12-15)])
  show ?thesis
  proof (rule process_loop_outcome [OF assms(1-6) _ assms(8-10) _ _ _ assms(15), of w1 allocs legacy r, unfolded w1, OF assms(7,11,12,13) list])
    fix r' w' t m
    assume "\<And>a. \<not> pool_free pool (subs w) n a" "subs w' = subs w"
      "process_loop k legacy claim pool allocs 0 MaxRetries (r, w1) = Some ((no_requeue, None), r', w')"
      "claims w' = (claims w)(meta_key (sc_meta claim) \<mapsto> with_claim_status k ClaimError '''' m t claim)"
    then show ?thesis
      by (intro exI [of _ r'] exI [of _ w'] exI [of _ "sc_status (with_claim_status k ClaimError '''' m t claim)"])
        (simp add: run with_claim_status_eq)
  next
    fix r' w' t a c
    assume "process_loop k legacy claim pool allocs 0 MaxRetries (r, w1) = Some ((no_requeue, None), r', w')"
      "v4_cidr c a n" "pool_free pool (subs w) n a" "\<And>b. pool_free pool (subs w) n b \<Longrightarrow> a \<le> b"
      "subs w' = insert (subnet_view (new_subnet claim pool c (EncodeAllocationName (Name (sp_meta pool)) c))) (subs w)"
      "claims w' = (claims w)(meta_key (sc_meta claim) \<mapsto> with_claim_status k ClaimBound c '''' t claim)"
    then show ?thesis
      by (intro exI [of _ r'] exI [of _ w'] exI [of _ "sc_status (with_claim_status k ClaimBound c '''' t claim)"])
        (auto simp: run with_claim_status_eq)
  qed
qed

section \<open>A concrete server\<close>

definition mem_claims :: "store \<Rightarrow> NamespacedName \<rightharpoonup> SubnetClaim" where
  "mem_claims w key = find (\<lambda>x. meta_key (sc_meta x) = key) (st_claims w)"

lemma fixed_kube_responsive: "responsive (fixed_kube pool) (\<lambda>w. subnet_view ` set (st_subnets w)) mem_claims pool"
  unfolding responsive_def
proof (intro conjI allI impI)
  note d = fixed_kube_def mem_kube_def
  fix w :: store
  show "mem_claims w key = Some c \<Longrightarrow> \<exists>w'. k_get_claim (fixed_kube pool) key w = (Inr c, w') \<and> mem_claims w' = mem_claims w
      \<and> subnet_view ` set (st_subnets w') = subnet_view ` set (st_subnets w)" for key c
    by (simp add: d find_obj_def mem_claims_def)
  show "mem_claims w (meta_key (sc_meta c)) = Some x \<Longrightarrow> \<exists>w'. k_update_claim_status (fixed_kube pool) c w = (Inr (), w')
      \<and> mem_claims w' = (mem_claims w)(meta_key (sc_meta c) \<mapsto> x\<lparr>sc_status := sc_status c\<rparr>)
      \<and> subnet_view ` set (st_subnets w') = subnet_view ` set (st_subnets w)" for c x
    by (auto simp: d mem_claims_def fun_eq_iff find_put_status)
  show "\<exists>w'. k_get_pool (fixed_kube pool) (meta_key (sp_meta pool)) w = (Inr pool, w') \<and> mem_claims w' = mem_claims w
      \<and> subnet_view ` set (st_subnets w') = subnet_view ` set (st_subnets w)"
    by (simp add: d find_obj_def)
  show "key \<notin> fst ` subnet_view ` set (st_subnets w) \<Longrightarrow> \<exists>e w'. k_get_subnet (fixed_kube pool) key w = (Inl e, w')
      \<and> k_IsNotFound (fixed_kube pool) e \<and> mem_claims w' = mem_claims w
      \<and> subnet_view ` set (st_subnets w') = subnet_view ` set (st_subnets w)" for key
    by (auto simp: d find_obj_def subnet_view_def find_None_iff image_iff split: option.splits)
  show "\<exists>items w'. k_list_subnets (fixed_kube pool) ns p w = (Inr items, w')
      \<and> subnet_view ` set items = in_pool_of ns p (subnet_view ` set (st_subnets w)) \<and> mem_claims w' = mem_claims w
      \<and> subnet_view ` set (st_subnets w') = subnet_view ` set (st_subnets w)" for ns p
    by (auto simp: d in_pool_of_def subnet_view_def meta_key_def)
  show "meta_key (sn_meta s) \<notin> fst ` subnet_view ` set (st_subnets w) \<Longrightarrow>
      \<exists>s' s'' w'. k_set_ref_subnet (fixed_kube pool) c s = Inr s' \<and> k_create_subnet (fixed_kube pool) s' w = (Inr s'', w')
        \<and> subnet_view ` set (st_subnets w') = insert (subnet_view s) (subnet_view ` set (st_subnets w)) \<and> mem_claims w' = mem_claims w" for c s
    by (auto simp: d create_obj_def subnet_view_def owned_by_def meta_key_def mem_claims_def fun_eq_iff image_iff)
  show "mem_claims (k_emit (fixed_kube pool) e w) = mem_claims w"
    "subnet_view ` set (st_subnets (k_emit (fixed_kube pool) e w)) = subnet_view ` set (st_subnets w)" for e
    by (simp_all add: d mem_claims_def fun_eq_iff)
qed

section \<open>Properties\<close>

text \<open>
  C2. One reconciliation settles a waiting claim: on a server that answers, for a claim that asks
  for a size and is valid for its IPv4 pool, it returns without an error and without a
  requeue, and stores a status with the generation of the claim. If the pool has a free block
  of the size, the claim is Bound to the lowest one, and a Subnet with that CIDR for its
  cluster is stored; if not, the claim is in phase Error and no Subnet is stored.
\<close>

theorem waiting_claim_settled:
  assumes "responsive k subs claims pool" and "retry_law k" and "order_law k"
    and "v4_cidr (sp_CIDR (sp_spec pool)) p kp" and "12 \<le> kp" and "kp \<le> 28"
    and "alloc_inv (cidr_addrs (sp_CIDR (sp_spec pool))) (Namespace (sp_meta pool)) (Name (sp_meta pool)) (subs w)"
    and "block_size_of claim pool = int n" and "16 \<le> n" and "n \<le> 28" and "names_free pool (subs w) n"
    and "claims w (meta_key (sc_meta claim)) = Some claim" and "waiting claim (subs w)" and "validateClaim claim pool = None"
    and "meta_key (sp_meta pool) = (Namespace (sc_meta claim), sc_PoolRef (sc_spec claim))"
  shows "\<exists>r' w' st. Claim_Reconcile k legacy (meta_key (sc_meta claim)) (r, w) = Some ((no_requeue, None), r', w')
    \<and> claims w' = (claims w)(meta_key (sc_meta claim) \<mapsto> claim\<lparr>sc_status := st\<rparr>)
    \<and> sc_ObservedGeneration st = Generation (sc_meta claim)
    \<and> (if \<exists>a. pool_free pool (subs w) n a
       then sc_Phase st = ClaimBound
         \<and> (\<exists>a. v4_cidr (sc_AllocatedCIDR st) a n \<and> pool_free pool (subs w) n a \<and> (\<forall>b. pool_free pool (subs w) n b \<longrightarrow> a \<le> b))
         \<and> subs w' = insert (subnet_view (new_subnet claim pool (sc_AllocatedCIDR st)
              (EncodeAllocationName (Name (sp_meta pool)) (sc_AllocatedCIDR st)))) (subs w)
       else sc_Phase st = ClaimError \<and> sc_AllocatedCIDR st = '''' \<and> subs w' = subs w)"
  by (rule waiting_claim_outcome [OF assms])

theorem waiting_claim_settled_witness:
  "\<exists>r' w' st a. Claim_Reconcile (fixed_kube demo_pool) False (''ns'', ''c1'') (\<lambda>_. None, empty_store\<lparr>st_claims := [demo_claim ''c1'' 26]\<rparr>)
       = Some ((no_requeue, None), r', w')
     \<and> mem_claims w' (''ns'', ''c1'') = Some ((demo_claim ''c1'' 26)\<lparr>sc_status := st\<rparr>) \<and> sc_Phase st = ClaimBound
     \<and> v4_cidr (sc_AllocatedCIDR st) a 26"
proof -
  let ?w = "empty_store\<lparr>st_claims := [demo_claim ''c1'' 26]\<rparr>" and ?c = "demo_claim ''c1'' 26"
  let ?S = "subnet_view ` set (st_subnets ?w)"
  have S: "?S = {}" by (simp add: empty_store_def)
  have key: "meta_key (sc_meta ?c) = (''ns'', ''c1'')" by (simp add: demo_claim_def meta_key_def)
  have pool: "v4_cidr (sp_CIDR (sp_spec demo_pool)) 167772160 24" using demo_texts(1) by (simp add: demo_pool_def)
  have inv: "alloc_inv (cidr_addrs (sp_CIDR (sp_spec demo_pool))) (Namespace (sp_meta demo_pool)) (Name (sp_meta demo_pool)) ?S"
    unfolding S by (simp add: alloc_inv_def in_pool_of_def)
  have bs: "block_size_of ?c demo_pool = int 26" by (simp add: block_size_of_def demo_claim_def)
  have names: "names_free demo_pool ?S 26" unfolding S by (simp add: names_free_def)
  have cl: "mem_claims ?w (meta_key (sc_meta ?c)) = Some ?c" by (simp add: mem_claims_def key)
  have wait: "waiting ?c ?S" unfolding S by (simp add: waiting_def demo_claim_def in_pool_of_def)
  have valid: "validateClaim ?c demo_pool = None" by (simp add: validateClaim_def demo_claim_def demo_pool_def)
  have pk: "meta_key (sp_meta demo_pool) = (Namespace (sc_meta ?c), sc_PoolRef (sc_spec ?c))"
    by (simp add: demo_pool_def demo_claim_def meta_key_def)
  have "pool_free demo_pool ?S 26 167772160"
    unfolding S by (auto simp: pool_free_def pool_cidrs_def in_pool_of_def free_block_def cidr_addrs_v4 [OF pool] block_subset)
  with waiting_claim_settled [where k = "fixed_kube demo_pool" and subs = "\<lambda>w. subnet_view ` set (st_subnets w)" and claims = mem_claims
      and pool = demo_pool and w = ?w and claim = ?c and n = 26 and legacy = False and r = "\<lambda>_. None",
      OF fixed_kube_responsive fixed_kube_laws(6,5) pool _ _ inv bs _ _ names cl wait valid pk]
  show ?thesis unfolding key by (simp split: if_splits) (metis fun_upd_same)
qed

end
