(* ===== verification/Pool_Claim_Outcome.thy ===== *)
theory Pool_Claim_Outcome
  imports Pool_Claim Allocator
begin

text \<open>
  What one reconciliation of a waiting SubnetPoolClaim achieves on a server that answers: the
  internal claim is created, or waited for, or its outcome is carried over to the status of
  the SubnetPoolClaim together with the name of a child pool.
\<close>

section \<open>A server that answers\<close>

definition no_claim_status :: SubnetClaimStatus where
  "no_claim_status = \<lparr>sc_ObservedGeneration = 0, sc_Phase = '''', sc_AllocatedCIDR = '''', sc_Message = '''', sc_Conditions = []\<rparr>"

text \<open>
  \<open>pcs w\<close> holds the stored SubnetPoolClaims. Reads and lists succeed; a creation (the names are
  generated) succeeds, keeps the spec and, the status being a subresource, leaves the status
  empty; an update of the status of a stored SubnetPoolClaim stores that status and nothing else.
\<close>

definition poolclaim_server ::
    "'w kube \<Rightarrow> ('w \<Rightarrow> SubnetClaim multiset) \<Rightarrow> ('w \<Rightarrow> SubnetPool multiset) \<Rightarrow> ('w \<Rightarrow> NamespacedName \<rightharpoonup> SubnetPoolClaim) \<Rightarrow> bool" where
  "poolclaim_server k cl pl pcs \<longleftrightarrow>
     owner_store k cl pl \<and> owner_ref_law k \<and> retry_law k \<and> 0 < k_DefaultRetry_Steps k
     \<and> (\<forall>key w pc. pcs w key = Some pc \<longrightarrow> meta_key (pc_meta pc) = key
          \<and> (\<exists>w'. k_get_poolclaim k key w = (Inr pc, w') \<and> pcs w' = pcs w))
     \<and> (\<forall>ns w. \<exists>items w'. k_list_claims k ns w = (Inr items, w') \<and> pcs w' = pcs w)
     \<and> (\<forall>ns w. \<exists>items w'. k_list_pools k ns w = (Inr items, w') \<and> pcs w' = pcs w)
     \<and> (\<forall>pc c. \<exists>c'. k_set_ref_claim k pc c = Inr c' \<and> sc_spec c' = sc_spec c)
     \<and> (\<forall>pc p. \<exists>p'. k_set_ref_pool k pc p = Inr p' \<and> sp_spec p' = sp_spec p)
     \<and> (\<forall>c w. \<exists>c' w'. k_create_claim k c w = (Inr c', w') \<and> pcs w' = pcs w \<and> sc_spec c' = sc_spec c \<and> sc_status c' = no_claim_status)
     \<and> (\<forall>p w. \<exists>p' w'. k_create_pool k p w = (Inr p', w') \<and> pcs w' = pcs w \<and> sp_spec p' = sp_spec p)
     \<and> (\<forall>x w old. pcs w (meta_key (pc_meta x)) = Some old \<longrightarrow>
          (\<exists>w'. k_update_poolclaim_status k x w = (Inr (), w')
             \<and> pcs w' = (pcs w)(meta_key (pc_meta x) \<mapsto> old\<lparr>pc_status := pc_status x\<rparr>)))"

lemma poolclaim_serverD:
  assumes "poolclaim_server k cl pl pcs"
  shows "owner_store k cl pl" and "owner_ref_law k" and "retry_law k" and "0 < k_DefaultRetry_Steps k"
    and "pcs w key = Some pc \<Longrightarrow> meta_key (pc_meta pc) = key"
    and "pcs w key = Some pc \<Longrightarrow> \<exists>w'. k_get_poolclaim k key w = (Inr pc, w') \<and> pcs w' = pcs w"
    and "\<exists>items w'. k_list_claims k ns w = (Inr items, w') \<and> pcs w' = pcs w"
    and "\<exists>items w'. k_list_pools k ns w = (Inr items, w') \<and> pcs w' = pcs w"
    and "\<exists>c'. k_set_ref_claim k pc c = Inr c' \<and> sc_spec c' = sc_spec c"
    and "\<exists>p'. k_set_ref_pool k pc p = Inr p' \<and> sp_spec p' = sp_spec p"
    and "\<exists>c' w'. k_create_claim k c w = (Inr c', w') \<and> pcs w' = pcs w \<and> sc_spec c' = sc_spec c \<and> sc_status c' = no_claim_status"
    and "\<exists>p' w'. k_create_pool k p w = (Inr p', w') \<and> pcs w' = pcs w \<and> sp_spec p' = sp_spec p"
    and "pcs w (meta_key (pc_meta x)) = Some old \<Longrightarrow>
      \<exists>w'. k_update_poolclaim_status k x w = (Inr (), w') \<and> pcs w' = (pcs w)(meta_key (pc_meta x) \<mapsto> old\<lparr>pc_status := pc_status x\<rparr>)"
  using assms unfolding poolclaim_server_def by (simp_all del: split_paired_All split_paired_Ex)

section \<open>The status that is written\<close>

definition with_poolclaim_status :: "string \<Rightarrow> string \<Rightarrow> string \<Rightarrow> SubnetPoolClaim \<Rightarrow> SubnetPoolClaim" where
  "with_poolclaim_status bound phase msg pc = pc\<lparr>pc_status := (pc_status pc)\<lparr>pc_ObservedGeneration := Generation (pc_meta pc),
     pc_Phase := phase, pc_BoundPoolName := bound, pc_Message := msg\<rparr>\<rparr>"

lemma finish_status_done:
  assumes srv: "poolclaim_server k cl pl pcs" and pc: "pcs w (meta_key (pc_meta pc)) = Some pc"
  shows "\<exists>w'. finish_status k pc bound phase msg w = ((no_requeue, None), w') \<and> cl w' = cl w \<and> pl w' = pl w
    \<and> pcs w' = (pcs w)(meta_key (pc_meta pc) \<mapsto> with_poolclaim_status bound phase msg pc)"
proof -
  note s = poolclaim_serverD [OF srv]
  obtain n where n: "k_DefaultRetry_Steps k = Suc n" using s(4) gr0_conv_Suc by blast
  obtain w1 where w1: "k_get_poolclaim k (Namespace (pc_meta pc), Name (pc_meta pc)) w = (Inr pc, w1)" "pcs w1 = pcs w"
    using s(6) [OF pc] by (auto simp: meta_key_def)
  let ?x = "with_poolclaim_status bound phase msg pc"
  have x: "meta_key (pc_meta ?x) = meta_key (pc_meta pc)" "pc\<lparr>pc_status := pc_status ?x\<rparr> = ?x"
    by (simp_all add: with_poolclaim_status_def)
  obtain w2 where w2: "k_update_poolclaim_status k ?x w1 = (Inr (), w2)" "pcs w2 = (pcs w)(meta_key (pc_meta pc) \<mapsto> ?x)"
    using s(13) [of w1 ?x pc] w1(2) pc x by auto
  have "update_poolclaim_once k pc bound phase msg w = (Inr (), w2)"
    using w1(1) w2(1) by (simp add: update_poolclaim_once_def with_poolclaim_status_def)
  then have "finish_status k pc bound phase msg w = ((no_requeue, None), w2)"
    using s(3) by (simp add: finish_status_def updatePoolClaimStatus_def k_RetryOnConflict_def n retry_law_def)
  with w2 finish_status_views [OF s(1,3,4), of pc bound phase msg w] show ?thesis by auto
qed

section \<open>Owned objects in a list\<close>

definition owned_obj :: "('o \<Rightarrow> ObjectMeta) \<Rightarrow> 'o multiset \<Rightarrow> SubnetPoolClaim \<Rightarrow> 'o \<Rightarrow> bool" where
  "owned_obj meta M pc x \<longleftrightarrow> x \<in># M \<and> Namespace (meta x) = Namespace (pc_meta pc) \<and> isOwnedBy (meta x) (pc_meta pc)"

lemma owned_listed:
  assumes "mset items = filter_mset (\<lambda>x. Namespace (meta x) = Namespace (pc_meta pc)) M"
  shows "x \<in> set (filter (\<lambda>x. isOwnedBy (meta x) (pc_meta pc)) items) \<longleftrightarrow> owned_obj meta M pc x"
  using arg_cong [OF assms, of set_mset] by (auto simp: owned_obj_def)

section \<open>One pass\<close>

definition waiting_poolclaim :: "SubnetPoolClaim \<Rightarrow> bool" where
  "waiting_poolclaim pc \<longleftrightarrow> DeletionTimestamp (pc_meta pc) = None
     \<and> (pc_Phase (pc_status pc) \<in> {'''', PoolClaimPending}
        \<or> pc_Phase (pc_status pc) = PoolClaimError \<and> pc_ObservedGeneration (pc_status pc) \<noteq> Generation (pc_meta pc))"

lemma waiting_reconciles:
  assumes "waiting_poolclaim pc" and "k_get_poolclaim k req w = (Inr pc, w1)"
  shows "PoolClaim_Reconcile k req w = reconcilePendingClaim k pc w1"
  using assms by (auto simp: PoolClaim_Reconcile_def waiting_poolclaim_def phase_defs Let_def)

text \<open>A Bound internal claim: the child pool exists already, or it is created with the CIDR of the claim.\<close>

lemma reconcileBoundClaim_done:
  assumes srv: "poolclaim_server k cl pl pcs" and pc: "pcs w (meta_key (pc_meta pc)) = Some pc"
  shows "\<exists>w' p. reconcileBoundClaim k pc c w = ((no_requeue, None), w') \<and> cl w' = cl w \<and> owned_obj sp_meta (pl w') pc p
    \<and> pcs w' = (pcs w)(meta_key (pc_meta pc) \<mapsto> with_poolclaim_status (Name (sp_meta p)) PoolClaimBound '''' pc)
    \<and> (pl w' = pl w \<or> pl w' = add_mset p (pl w) \<and> sp_CIDR (sp_spec p) = sc_AllocatedCIDR (sc_status c)
         \<and> (\<forall>q. \<not> owned_obj sp_meta (pl w) pc q))"
proof -
  note s = poolclaim_serverD [OF srv]
  let ?cidr = "sc_AllocatedCIDR (sc_status c)"
  obtain items w1 where l: "k_list_pools k (Namespace (pc_meta pc)) w = (Inr items, w1)" "pcs w1 = pcs w" using s(8) by blast
  have same: "cl w1 = cl w" "pl w1 = pl w" using owner_storeD(3) [OF s(1) l(1)] by simp_all
  note listed = owned_listed [OF owner_storeD(4) [OF s(1) l(1)]]
  show ?thesis
  proof (cases "filter (\<lambda>p. isOwnedBy (sp_meta p) (pc_meta pc)) items")
    case Nil
    obtain p where p: "k_set_ref_pool k pc (child_pool pc ?cidr) = Inr p" "sp_spec p = sp_spec (child_pool pc ?cidr)" using s(10) by blast
    obtain p' w2 where p': "k_create_pool k p w1 = (Inr p', w2)" "pcs w2 = pcs w1" "sp_spec p' = sp_spec p" using s(12) by blast
    have w2: "pl w2 = add_mset p' (pl w)" "cl w2 = cl w" "Namespace (sp_meta p') = Namespace (sp_meta p)"
      "OwnerReferences (sp_meta p') = OwnerReferences (sp_meta p)"
      using owner_storeD(8) [OF s(1) p'(1)] same by simp_all
    have "Namespace (sp_meta p) = Namespace (pc_meta pc)" "map or_UID (OwnerReferences (sp_meta p)) = [UID (pc_meta pc)]"
      using s(2) p(1) unfolding owner_ref_law_def by (simp_all add: child_pool_def empty_meta_def)
    then have "owned_obj sp_meta (pl w2) pc p'"
      using w2 by (auto simp: owned_obj_def isOwnedBy_def isOwnedBy_refs_iff map_eq_Cons_conv)
    moreover obtain w3 where "finish_status k pc (Name (sp_meta p')) PoolClaimBound '''' w2 = ((no_requeue, None), w3)"
      "cl w3 = cl w2" "pl w3 = pl w2"
      "pcs w3 = (pcs w2)(meta_key (pc_meta pc) \<mapsto> with_poolclaim_status (Name (sp_meta p')) PoolClaimBound '''' pc)"
      using finish_status_done [OF srv, of w2 pc "Name (sp_meta p')" PoolClaimBound "''''"] pc p'(2) l(2) by auto
    moreover have "\<not> owned_obj sp_meta (pl w) pc q" for q using listed [of q] Nil by simp
    ultimately show ?thesis
      using l p p' w2 Nil by (auto simp: reconcileBoundClaim_def getOwnedSubnetPools_def createChildPool_def child_pool_def)
  next
    case (Cons p ps)
    then have "owned_obj sp_meta (pl w) pc p" using listed [of p] by simp
    moreover obtain w2 where "finish_status k pc (Name (sp_meta p)) PoolClaimBound '''' w1 = ((no_requeue, None), w2)"
      "cl w2 = cl w1" "pl w2 = pl w1"
      "pcs w2 = (pcs w1)(meta_key (pc_meta pc) \<mapsto> with_poolclaim_status (Name (sp_meta p)) PoolClaimBound '''' pc)"
      using finish_status_done [OF srv, of w1 pc "Name (sp_meta p)" PoolClaimBound "''''"] pc l(2) by auto
    ultimately show ?thesis
      using l same Cons by (auto simp: reconcileBoundClaim_def getOwnedSubnetPools_def)
  qed
qed

text \<open>The internal claim asks for a block of the wanted size of the parent pool, with the SubnetPoolClaim as the cluster.\<close>

definition wanted_claim :: "SubnetPoolClaim \<Rightarrow> SubnetClaimSpec" where
  "wanted_claim pc = \<lparr>sc_PoolRef = pc_ParentPoolRef (pc_spec pc), sc_ClusterID = UID (pc_meta pc),
     sc_BlockSize = pc_DesiredBlockSize (pc_spec pc), sc_RequestedCIDR = ''''\<rparr>"

lemma createInternalSubnetClaim_done:
  assumes srv: "poolclaim_server k cl pl pcs"
  shows "\<exists>c w'. createInternalSubnetClaim k pc w = (Inr c, w') \<and> pcs w' = pcs w \<and> pl w' = pl w \<and> cl w' = add_mset c (cl w)
    \<and> owned_obj sc_meta (cl w') pc c \<and> sc_spec c = wanted_claim pc \<and> sc_status c = no_claim_status"
proof -
  note s = poolclaim_serverD [OF srv]
  obtain x where x: "k_set_ref_claim k pc (internal_claim pc) = Inr x" "sc_spec x = sc_spec (internal_claim pc)" using s(9) by blast
  obtain c w' where c: "k_create_claim k x w = (Inr c, w')" "pcs w' = pcs w" "sc_spec c = sc_spec x" "sc_status c = no_claim_status"
    using s(11) by blast
  have "Namespace (sc_meta x) = Namespace (pc_meta pc)" "map or_UID (OwnerReferences (sc_meta x)) = [UID (pc_meta pc)]"
    using s(2) x(1) unfolding owner_ref_law_def by (simp_all add: internal_claim_def empty_meta_def)
  then have "owned_obj sc_meta (cl w') pc c"
    using owner_storeD(6) [OF s(1) c(1)] by (auto simp: owned_obj_def isOwnedBy_def isOwnedBy_refs_iff map_eq_Cons_conv)
  then show ?thesis
    using x c owner_storeD(6) [OF s(1) c(1)] by (simp add: createInternalSubnetClaim_def internal_claim_def wanted_claim_def)
qed

section \<open>The specification of a pass\<close>

type_synonym poolclaim_view = "SubnetClaim multiset \<times> SubnetPool multiset \<times> (NamespacedName \<rightharpoonup> SubnetPoolClaim)"

text \<open>
  The five things a pass can do for a waiting SubnetPoolClaim \<open>pc\<close>: create the internal claim,
  wait for it, bind to a child pool it has, bind to a new child pool, or give up with the message
  of the claim.
\<close>

inductive poolclaim_step :: "SubnetPoolClaim \<Rightarrow> poolclaim_view \<Rightarrow> Result \<Rightarrow> poolclaim_view \<Rightarrow> bool" for pc where
  create: "\<forall>x. \<not> owned_obj sc_meta C pc x \<Longrightarrow> owned_obj sc_meta (add_mset c C) pc c \<Longrightarrow> sc_spec c = wanted_claim pc \<Longrightarrow>
     sc_status c = no_claim_status \<Longrightarrow> poolclaim_step pc (C, P, S) (no_requeue\<lparr>Requeue := True\<rparr>) (add_mset c C, P, S)"
| wait: "owned_obj sc_meta C pc c \<Longrightarrow> sc_Phase (sc_status c) \<noteq> ClaimError \<Longrightarrow>
     sc_Phase (sc_status c) \<noteq> ClaimBound \<or> sc_AllocatedCIDR (sc_status c) = '''' \<Longrightarrow>
     poolclaim_step pc (C, P, S) (requeue_after 5) (C, P, S)"
| bind: "owned_obj sc_meta C pc c \<Longrightarrow> sc_Phase (sc_status c) = ClaimBound \<Longrightarrow> sc_AllocatedCIDR (sc_status c) \<noteq> '''' \<Longrightarrow>
     owned_obj sp_meta P pc p \<Longrightarrow>
     poolclaim_step pc (C, P, S) no_requeue
       (C, P, S(meta_key (pc_meta pc) \<mapsto> with_poolclaim_status (Name (sp_meta p)) PoolClaimBound '''' pc))"
| bind_new: "owned_obj sc_meta C pc c \<Longrightarrow> sc_Phase (sc_status c) = ClaimBound \<Longrightarrow> sc_AllocatedCIDR (sc_status c) \<noteq> '''' \<Longrightarrow>
     \<forall>q. \<not> owned_obj sp_meta P pc q \<Longrightarrow> owned_obj sp_meta (add_mset p P) pc p \<Longrightarrow>
     sp_CIDR (sp_spec p) = sc_AllocatedCIDR (sc_status c) \<Longrightarrow>
     poolclaim_step pc (C, P, S) no_requeue
       (C, add_mset p P, S(meta_key (pc_meta pc) \<mapsto> with_poolclaim_status (Name (sp_meta p)) PoolClaimBound '''' pc))"
| fail: "owned_obj sc_meta C pc c \<Longrightarrow> sc_Phase (sc_status c) = ClaimError \<Longrightarrow>
     poolclaim_step pc (C, P, S) no_requeue
       (C, P, S(meta_key (pc_meta pc) \<mapsto> with_poolclaim_status '''' PoolClaimError (sc_Message (sc_status c)) pc))"

definition poolclaim_view_of ::
    "('w \<Rightarrow> SubnetClaim multiset) \<Rightarrow> ('w \<Rightarrow> SubnetPool multiset) \<Rightarrow> ('w \<Rightarrow> NamespacedName \<rightharpoonup> SubnetPoolClaim) \<Rightarrow> 'w \<Rightarrow> poolclaim_view" where
  "poolclaim_view_of cl pl pcs w = (cl w, pl w, pcs w)"

lemma reconcilePendingClaim_steps:
  assumes srv: "poolclaim_server k cl pl pcs" and pc: "pcs w (meta_key (pc_meta pc)) = Some pc"
  shows "\<exists>out w'. reconcilePendingClaim k pc w = ((out, None), w')
    \<and> poolclaim_step pc (poolclaim_view_of cl pl pcs w) out (poolclaim_view_of cl pl pcs w')"
proof -
  note s = poolclaim_serverD [OF srv]
  obtain items w1 where l: "k_list_claims k (Namespace (pc_meta pc)) w = (Inr items, w1)" "pcs w1 = pcs w" using s(7) by blast
  have same: "cl w1 = cl w" "pl w1 = pl w" using owner_storeD(1) [OF s(1) l(1)] by simp_all
  note listed = owned_listed [OF owner_storeD(2) [OF s(1) l(1)]]
  have pc1: "pcs w1 (meta_key (pc_meta pc)) = Some pc" using pc l(2) by simp
  show ?thesis
  proof (cases "filter (\<lambda>c. isOwnedBy (sc_meta c) (pc_meta pc)) items")
    case Nil
    then have "\<forall>x. \<not> owned_obj sc_meta (cl w) pc x" using listed by (metis empty_iff list.set(1))
    then show ?thesis
      using createInternalSubnetClaim_done [OF srv, of pc w1] l same Nil
      by (auto simp: reconcilePendingClaim_def getOwnedSubnetClaims_def poolclaim_view_of_def intro: poolclaim_step.create)
  next
    case (Cons c cs)
    then have c: "owned_obj sc_meta (cl w) pc c" using listed [of c] by simp
    consider (bound) "sc_Phase (sc_status c) = ClaimBound" "sc_AllocatedCIDR (sc_status c) \<noteq> ''''"
      | (failed) "sc_Phase (sc_status c) = ClaimError"
      | (other) "sc_Phase (sc_status c) \<noteq> ClaimError" "sc_Phase (sc_status c) \<noteq> ClaimBound \<or> sc_AllocatedCIDR (sc_status c) = ''''"
      by blast
    then show ?thesis
    proof cases
      case bound
      then have r: "reconcilePendingClaim k pc w = reconcileBoundClaim k pc c w1"
        using l Cons by (simp add: reconcilePendingClaim_def getOwnedSubnetClaims_def Let_def phase_defs)
      show ?thesis
        using reconcileBoundClaim_done [OF srv pc1, of c] same l(2) c bound
        by (auto simp: r poolclaim_view_of_def intro: poolclaim_step.bind poolclaim_step.bind_new)
    next
      case failed
      then have r: "reconcilePendingClaim k pc w = finish_status k pc '''' PoolClaimError (sc_Message (sc_status c)) w1"
        using l Cons by (simp add: reconcilePendingClaim_def getOwnedSubnetClaims_def reconcileErrorClaim_def Let_def phase_defs)
      show ?thesis
        using finish_status_done [OF srv pc1, of "''''" PoolClaimError "sc_Message (sc_status c)"] same l(2) poolclaim_step.fail [OF c failed]
        by (auto simp: r poolclaim_view_of_def)
    next
      case other
      then have "reconcilePendingClaim k pc w = ((requeue_after 5, None), w1)"
        using l Cons by (auto simp: reconcilePendingClaim_def getOwnedSubnetClaims_def Let_def)
      then show ?thesis using poolclaim_step.wait [OF c other] same l(2) by (simp add: poolclaim_view_of_def)
    qed
  qed
qed

lemma PoolClaim_Reconcile_steps:
  assumes "poolclaim_server k cl pl pcs" and "pcs w req = Some pc" and "waiting_poolclaim pc"
  shows "\<exists>out w'. PoolClaim_Reconcile k req w = ((out, None), w')
    \<and> poolclaim_step pc (cl w, pl w, pcs w) out (cl w', pl w', pcs w')"
proof -
  note s = poolclaim_serverD [OF assms(1)]
  have key: "meta_key (pc_meta pc) = req" by (rule s(5) [OF assms(2)])
  obtain w1 where g: "k_get_poolclaim k req w = (Inr pc, w1)" "pcs w1 = pcs w" using s(6) [OF assms(2)] by blast
  have "pcs w1 (meta_key (pc_meta pc)) = Some pc" using g(2) assms(2) key by simp
  from reconcilePendingClaim_steps [OF assms(1) this] show ?thesis
    using g(2) owner_storeD(9) [OF s(1) g(1)] by (simp add: waiting_reconciles [OF assms(3) g(1)] poolclaim_view_of_def)
qed

section \<open>A server in memory that generates names\<close>

text \<open>A name that is longer than all others is new. Of objects with the same key the first one counts.\<close>

definition gen_meta :: "('o \<Rightarrow> ObjectMeta) \<Rightarrow> 'o list \<Rightarrow> ObjectMeta \<Rightarrow> ObjectMeta" where
  "gen_meta meta xs m = m\<lparr>Name := GenerateName m @ concat (map (Name \<circ> meta) xs) @ ''x''\<rparr>"

lemma gen_meta_keeps [simp]: "Namespace (gen_meta meta xs m) = Namespace m" "OwnerReferences (gen_meta meta xs m) = OwnerReferences m"
  by (simp_all add: gen_meta_def)

lemma gen_meta_new: "\<forall>x \<in> set xs. meta_key (meta x) \<noteq> meta_key (gen_meta meta xs m)"
proof
  fix x
  assume "x \<in> set xs"
  then have "length (Name (meta x)) \<le> length (concat (map (Name \<circ> meta) xs))"
    by (induction xs) auto
  then have "length (Name (meta x)) < length (Name (gen_meta meta xs m))" by (simp add: gen_meta_def)
  then show "meta_key (meta x) \<noteq> meta_key (gen_meta meta xs m)" by (auto simp: meta_key_def)
qed

fun firsts :: "('o \<Rightarrow> ObjectMeta) \<Rightarrow> 'o list \<Rightarrow> 'o list" where
  "firsts meta [] = []"
| "firsts meta (x # xs) = x # filter (\<lambda>y. meta_key (meta y) \<noteq> meta_key (meta x)) (firsts meta xs)"

lemma firsts_new: "\<forall>x \<in> set xs. meta_key (meta x) \<noteq> meta_key (meta y) \<Longrightarrow> firsts meta (xs @ [y]) = firsts meta xs @ [y]"
  by (induction xs) auto

lemma firsts_find: "x \<in> set (firsts meta xs) \<longleftrightarrow> find (\<lambda>y. meta_key (meta y) = meta_key (meta x)) xs = Some x"
  by (induction xs) auto

definition gen_kube :: "store kube" where
  "gen_kube = (fixed_kube demo_pool)\<lparr>
     k_list_claims := (\<lambda>ns w. (Inr (filter (\<lambda>c. Namespace (sc_meta c) = ns) (firsts sc_meta (st_claims w))), w)),
     k_create_claim := (\<lambda>c w. let c' = c\<lparr>sc_meta := gen_meta sc_meta (st_claims w) (sc_meta c), sc_status := no_claim_status\<rparr>
       in (Inr c', w\<lparr>st_claims := st_claims w @ [c']\<rparr>)),
     k_create_pool := (\<lambda>p w. let p' = p\<lparr>sp_meta := gen_meta sp_meta (st_pools w) (sp_meta p)\<rparr> in (Inr p', w\<lparr>st_pools := st_pools w @ [p']\<rparr>))\<rparr>"

abbreviation gen_claims :: "store \<Rightarrow> SubnetClaim multiset" where
  "gen_claims w \<equiv> mset (firsts sc_meta (st_claims w))"

definition mem_poolclaims :: "store \<Rightarrow> NamespacedName \<rightharpoonup> SubnetPoolClaim" where
  "mem_poolclaims w key = find (\<lambda>x. meta_key (pc_meta x) = key) (st_poolclaims w)"

lemma gen_kube_same:
  "k_list_pools gen_kube = k_list_pools mem_kube"
  "k_get_poolclaim gen_kube = k_get_poolclaim mem_kube" "k_update_poolclaim_status gen_kube = k_update_poolclaim_status mem_kube"
  "k_emit gen_kube = k_emit mem_kube" "k_set_ref_claim gen_kube = k_set_ref_claim mem_kube" "k_set_ref_pool gen_kube = k_set_ref_pool mem_kube"
  "k_OnError gen_kube = k_OnError mem_kube" "k_DefaultRetry_Steps gen_kube = k_DefaultRetry_Steps mem_kube"
  by (simp_all add: gen_kube_def fixed_kube_def)

lemma gen_kube_owners: "owner_store gen_kube gen_claims (\<lambda>w. mset (st_pools w))"
  unfolding owner_store_def
proof (intro conjI)
  show "\<forall>c w r w'. k_create_claim gen_kube c w = (r, w') \<longrightarrow> mset (st_pools w') = mset (st_pools w)
      \<and> (\<forall>e. r = Inl e \<longrightarrow> gen_claims w' = gen_claims w)
      \<and> (\<forall>c'. r = Inr c' \<longrightarrow> gen_claims w' = add_mset c' (gen_claims w) \<and> Namespace (sc_meta c') = Namespace (sc_meta c)
           \<and> OwnerReferences (sc_meta c') = OwnerReferences (sc_meta c))"
    by (auto simp: gen_kube_def Let_def firsts_new gen_meta_new)
qed (auto simp: gen_kube_def fixed_kube_def mem_kube_def Let_def)

lemma gen_kube_server: "poolclaim_server gen_kube gen_claims (\<lambda>w. mset (st_pools w)) mem_poolclaims"
  unfolding poolclaim_server_def
proof (intro conjI allI impI)
  show "owner_ref_law gen_kube" using mem_kube_owner_ref by (simp add: owner_ref_law_def gen_kube_same)
  show "retry_law gen_kube" using mem_kube_retry unfolding retry_law_def gen_kube_same .
next
  fix key w pc
  assume pc: "mem_poolclaims w key = Some pc"
  then show "meta_key (pc_meta pc) = key" by (auto simp: mem_poolclaims_def find_Some_iff)
  show "\<exists>w'. k_get_poolclaim gen_kube key w = (Inr pc, w') \<and> mem_poolclaims w' = mem_poolclaims w"
    using pc by (simp add: gen_kube_same mem_kube_def find_obj_def mem_poolclaims_def)
next
  fix x :: SubnetPoolClaim and w old
  assume "mem_poolclaims w (meta_key (pc_meta x)) = Some old"
  then show "\<exists>w'. k_update_poolclaim_status gen_kube x w = (Inr (), w')
      \<and> mem_poolclaims w' = (mem_poolclaims w)(meta_key (pc_meta x) \<mapsto> old\<lparr>pc_status := pc_status x\<rparr>)"
    by (auto simp: gen_kube_same mem_kube_def mem_poolclaims_def find_put_status)
qed (rule gen_kube_owners, auto simp: gen_kube_def fixed_kube_def mem_kube_def mem_poolclaims_def Let_def fun_eq_iff)

section \<open>Properties\<close>

text \<open>
  C12. A reconciliation of a waiting SubnetPoolClaim makes progress: on a server that answers it
  returns without an error and has made exactly one step of the specification. Without an
  internal claim it creates one and asks to be called again; a claim without an outcome is
  waited for; a Bound claim leads to the phase Bound with the name of a stored child pool, which
  is created with the CIDR of the claim if there was none; a failed claim leads to the phase
  Error with its message.
\<close>

theorem waiting_poolclaim_steps:
  assumes "poolclaim_server k cl pl pcs" and "pcs w req = Some pc" and "waiting_poolclaim pc"
  shows "\<exists>out w'. PoolClaim_Reconcile k req w = ((out, None), w')
    \<and> poolclaim_step pc (cl w, pl w, pcs w) out (cl w', pl w', pcs w')"
  by (rule PoolClaim_Reconcile_steps [OF assms])

theorem waiting_poolclaim_steps_witness:
  "\<exists>out w'. PoolClaim_Reconcile gen_kube (''ns'', ''x'') (poolclaim_world []) = ((out, None), w')
     \<and> poolclaim_step demo_poolclaim ({#}, {#}, [(''ns'', ''x'') \<mapsto> demo_poolclaim]) out (gen_claims w', mset (st_pools w'), mem_poolclaims w')"
proof -
  have "mem_poolclaims (poolclaim_world []) = [(''ns'', ''x'') \<mapsto> demo_poolclaim]"
    by (auto simp: mem_poolclaims_def poolclaim_world_def demo_poolclaim_def meta_key_def fun_eq_iff)
  moreover have "waiting_poolclaim demo_poolclaim"
    by (simp add: waiting_poolclaim_def demo_poolclaim_def empty_meta_def)
  ultimately show ?thesis
    using waiting_poolclaim_steps [OF gen_kube_server, of "poolclaim_world []" "(''ns'', ''x'')" demo_poolclaim]
    by (simp add: poolclaim_world_def)
qed

end
