(* ===== verification/Delegation.thy ===== *)
theory Delegation
  imports Nested_Pools Claim_Outcome Pool_Claim_Outcome
begin

text \<open>
  How a SubnetPoolClaim is served by two controllers: its own controller creates the internal
  claim, the SubnetClaim controller allocates a block of the parent pool to it, and its own
  controller makes that block a child pool. The lemmas compose what \<open>Claim_Outcome\<close> and
  \<open>Pool_Claim_Outcome\<close> say about one reconciliation each.
\<close>

section \<open>One server for both controllers\<close>

text \<open>
  The views of the two controllers on the same server: the claims by their keys are the claims
  that are listed, the calls of the SubnetClaim controller leave pools and SubnetPoolClaims
  alone, and those of the SubnetPoolClaim controller leave Subnets alone.
\<close>

definition delegation_server ::
    "'w kube \<Rightarrow> ('w \<Rightarrow> subnet_set) \<Rightarrow> ('w \<Rightarrow> NamespacedName \<rightharpoonup> SubnetClaim) \<Rightarrow> ('w \<Rightarrow> SubnetClaim multiset)
     \<Rightarrow> ('w \<Rightarrow> SubnetPool multiset) \<Rightarrow> ('w \<Rightarrow> NamespacedName \<rightharpoonup> SubnetPoolClaim) \<Rightarrow> SubnetPool \<Rightarrow> bool" where
  "delegation_server k subs claims cl pl pcs pool \<longleftrightarrow>
     poolclaim_server k cl pl pcs \<and> responsive k subs claims pool \<and> order_law k
     \<and> (\<forall>w x. x \<in># cl w \<longleftrightarrow> claims w (meta_key (sc_meta x)) = Some x)
     \<and> (\<forall>c w. claim_calls k c \<longrightarrow> pl (after k c w) = pl w \<and> pcs (after k c w) = pcs w)
     \<and> (\<forall>c w. poolclaim_calls k c \<longrightarrow> subs (after k c w) = subs w)"

lemma delegation_serverD:
  assumes "delegation_server k subs claims cl pl pcs pool"
  shows "poolclaim_server k cl pl pcs" and "responsive k subs claims pool" and "order_law k"
    and "x \<in># cl w \<longleftrightarrow> claims w (meta_key (sc_meta x)) = Some x"
    and "claim_calls k c \<Longrightarrow> pl (after k c w) = pl w \<and> pcs (after k c w) = pcs w"
    and "poolclaim_calls k c \<Longrightarrow> subs (after k c w) = subs w"
  using assms unfolding delegation_server_def by blast+

text \<open>A pass of a controller keeps what its calls keep.\<close>

lemma poolclaim_keeps_subnets:
  assumes "delegation_server k subs claims cl pl pcs pool"
  shows "subs (snd (PoolClaim_Reconcile k req w)) = subs w"
proof -
  note s = poolclaim_serverD [OF delegation_serverD(1) [OF assms]]
  show ?thesis
    by (rule reaches_view [OF PoolClaim_Reconcile_reaches [OF s(3,4)]]) (rule delegation_serverD(6) [OF assms])
qed

lemma claim_keeps_pools:
  assumes "delegation_server k subs claims cl pl pcs pool" and "Claim_Reconcile k legacy key (r, w) = Some (out, r', w')"
  shows "pl w' = pl w \<and> pcs w' = pcs w"
proof -
  note s = poolclaim_serverD [OF delegation_serverD(1) [OF assms(1)]]
  have "(pl w', pcs w') = (pl w, pcs w)"
    by (rule reaches_view [OF Claim_Reconcile_reaches [OF s(3) assms(2)], where f = "\<lambda>w. (pl w, pcs w)"])
      (simp add: delegation_serverD(5) [OF assms(1)])
  then show ?thesis by simp
qed

section \<open>The two passes of the SubnetPoolClaim controller\<close>

inductive_cases poolclaim_stepE: "poolclaim_step pc (C, P, S) out v"

lemma first_pass:
  assumes srv: "delegation_server k subs claims cl pl pcs pool" and pc: "pcs w req = Some pc" "waiting_poolclaim pc"
    and none: "\<forall>x. \<not> owned_obj sc_meta (cl w) pc x"
  obtains c w' where "PoolClaim_Reconcile k req w = ((no_requeue\<lparr>Requeue := True\<rparr>, None), w')"
    and "subs w' = subs w" and "pl w' = pl w" and "pcs w' = pcs w" and "cl w' = add_mset c (cl w)"
    and "owned_obj sc_meta (cl w') pc c" and "sc_spec c = wanted_claim pc" and "sc_status c = no_claim_status"
proof -
  obtain out w' where r: "PoolClaim_Reconcile k req w = ((out, None), w')"
    and step: "poolclaim_step pc (cl w, pl w, pcs w) out (cl w', pl w', pcs w')"
    using PoolClaim_Reconcile_steps [OF delegation_serverD(1) [OF srv] pc] by blast
  have "subs w' = subs w" using poolclaim_keeps_subnets [OF srv, of req w] r by simp
  with step r none that show ?thesis by (cases rule: poolclaim_stepE) auto
qed

lemma second_pass:
  assumes srv: "delegation_server k subs claims cl pl pcs pool" and pc: "pcs w req = Some pc" "waiting_poolclaim pc"
    and c: "owned_obj sc_meta (cl w) pc c" "\<And>x. owned_obj sc_meta (cl w) pc x \<Longrightarrow> x = c"
    and bound: "sc_Phase (sc_status c) = ClaimBound" "sc_AllocatedCIDR (sc_status c) \<noteq> ''''"
    and none: "\<forall>q. \<not> owned_obj sp_meta (pl w) pc q"
  obtains p w' where "PoolClaim_Reconcile k req w = ((no_requeue, None), w')" and "subs w' = subs w" and "cl w' = cl w"
    and "pl w' = add_mset p (pl w)" and "owned_obj sp_meta (pl w') pc p" and "sp_CIDR (sp_spec p) = sc_AllocatedCIDR (sc_status c)"
    and "pcs w' = (pcs w)(req \<mapsto> with_poolclaim_status (Name (sp_meta p)) PoolClaimBound '''' pc)"
proof -
  have key: "meta_key (pc_meta pc) = req" by (rule poolclaim_serverD(5) [OF delegation_serverD(1) [OF srv] pc(1)])
  obtain out w' where r: "PoolClaim_Reconcile k req w = ((out, None), w')"
    and step: "poolclaim_step pc (cl w, pl w, pcs w) out (cl w', pl w', pcs w')"
    using PoolClaim_Reconcile_steps [OF delegation_serverD(1) [OF srv] pc] by blast
  have subs: "subs w' = subs w" using poolclaim_keeps_subnets [OF srv, of req w] r by simp
  from step show ?thesis
  proof (cases rule: poolclaim_step.cases)
    case (bind_new x p)
    then show ?thesis using that r subs c(2) key by auto
  qed (use c none bound in \<open>auto simp: phase_defs\<close>)
qed

section \<open>From the claim to the child pool\<close>

text \<open>
  The pool allows the size, and neither does a Subnet of the parent pool belong to the
  SubnetPoolClaim nor does one have its UID as name.
\<close>

definition sizes_allow :: "SubnetPool \<Rightarrow> int \<Rightarrow> bool" where
  "sizes_allow pool n \<longleftrightarrow> (sp_MinBlockSize (sp_spec pool) = 0 \<or> sp_MinBlockSize (sp_spec pool) \<le> n)
     \<and> (sp_MaxBlockSize (sp_spec pool) = 0 \<or> n \<le> sp_MaxBlockSize (sp_spec pool))"

definition not_served :: "subnet_set \<Rightarrow> SubnetPoolClaim \<Rightarrow> bool" where
  "not_served S pc \<longleftrightarrow> (Namespace (pc_meta pc), UID (pc_meta pc)) \<notin> fst ` S
     \<and> (\<forall>x\<in>in_pool_of (Namespace (pc_meta pc)) (pc_ParentPoolRef (pc_spec pc)) S. sn_ClusterID (snd x) \<noteq> UID (pc_meta pc))"

text \<open>The internal claim is ready for the SubnetClaim controller, and after its status update it is still the only one.\<close>

lemma fresh_claim:
  assumes "sc_spec c = wanted_claim pc" and "sc_status c = no_claim_status" and "Namespace (sc_meta c) = Namespace (pc_meta pc)"
  shows "sizes_allow pool (pc_DesiredBlockSize (pc_spec pc)) \<Longrightarrow> validateClaim c pool = None"
    and "pc_DesiredBlockSize (pc_spec pc) \<noteq> 0 \<Longrightarrow> block_size_of c pool = pc_DesiredBlockSize (pc_spec pc)"
    and "not_served S pc \<Longrightarrow> waiting c S" and "sc_PoolRef (sc_spec c) = pc_ParentPoolRef (pc_spec pc)"
  using assms
  by (auto simp: validateClaim_def sizes_allow_def block_size_of_def waiting_def not_served_def no_claim_status_def wanted_claim_def Let_def)

lemma claim_stays_single:
  assumes srv: "delegation_server k subs claims cl pl pcs pool"
    and none: "\<forall>x. \<not> owned_obj sc_meta (cl w) pc x" and w1: "cl w1 = add_mset c (cl w)" and c: "owned_obj sc_meta (cl w1) pc c"
    and w2: "claims w2 = (claims w1)(meta_key (sc_meta c) \<mapsto> c\<lparr>sc_status := st\<rparr>)"
  shows "owned_obj sc_meta (cl w2) pc x \<longleftrightarrow> x = c\<lparr>sc_status := st\<rparr>"
proof
  note mem = delegation_serverD(4) [OF srv]
  assume x: "owned_obj sc_meta (cl w2) pc x"
  show "x = c\<lparr>sc_status := st\<rparr>"
  proof (cases "meta_key (sc_meta x) = meta_key (sc_meta c)")
    case True
    then show ?thesis using x mem [of x w2] w2 by (simp add: owned_obj_def)
  next
    case False
    then have "x \<in># cl w1" using x mem [of x w1] mem [of x w2] w2 by (simp add: owned_obj_def)
    then have "owned_obj sc_meta (cl w) pc x" using False x w1 by (auto simp: owned_obj_def)
    with none show ?thesis by blast
  qed
next
  assume "x = c\<lparr>sc_status := st\<rparr>"
  then show "owned_obj sc_meta (cl w2) pc x"
    using delegation_serverD(4) [OF srv, of x w2] c w2 by (simp add: owned_obj_def)
qed

text \<open>What a SubnetPoolClaim needs: an IPv4 parent pool with a free block of the size, and names that are not taken.\<close>

definition can_serve :: "SubnetPool \<Rightarrow> subnet_set \<Rightarrow> SubnetPoolClaim \<Rightarrow> nat \<Rightarrow> bool" where
  "can_serve pool S pc n \<longleftrightarrow>
     (\<exists>p kp. v4_cidr (sp_CIDR (sp_spec pool)) p kp \<and> 12 \<le> kp \<and> kp \<le> 28)
     \<and> alloc_inv (cidr_addrs (sp_CIDR (sp_spec pool))) (Namespace (sp_meta pool)) (Name (sp_meta pool)) S
     \<and> meta_key (sp_meta pool) = (Namespace (pc_meta pc), pc_ParentPoolRef (pc_spec pc))
     \<and> pc_DesiredBlockSize (pc_spec pc) = int n \<and> 16 \<le> n \<and> n \<le> 28 \<and> sizes_allow pool (int n)
     \<and> names_free pool S n \<and> not_served S pc \<and> (\<exists>a. pool_free pool S n a)"

text \<open>The pass of the SubnetClaim controller in between.\<close>

lemma middle_pass:
  assumes srv: "delegation_server k subs claims cl pl pcs pool" and serve: "can_serve pool (subs w) pc n"
    and c: "owned_obj sc_meta (cl w) pc c" "sc_spec c = wanted_claim pc" "sc_status c = no_claim_status"
  obtains r' w' st a where "Claim_Reconcile k legacy (meta_key (sc_meta c)) (r, w) = Some ((no_requeue, None), r', w')"
    and "claims w' = (claims w)(meta_key (sc_meta c) \<mapsto> c\<lparr>sc_status := st\<rparr>)" and "sc_Phase st = ClaimBound"
    and "v4_cidr (sc_AllocatedCIDR st) a n" and "pool_free pool (subs w) n a" and "\<And>b. pool_free pool (subs w) n b \<Longrightarrow> a \<le> b"
    and "subs w' = insert (subnet_view (new_subnet c pool (sc_AllocatedCIDR st)
      (EncodeAllocationName (Name (sp_meta pool)) (sc_AllocatedCIDR st)))) (subs w)"
proof -
  note s = delegation_serverD [OF srv]
  have ns: "Namespace (sc_meta c) = Namespace (pc_meta pc)" and stored: "claims w (meta_key (sc_meta c)) = Some c"
    using c(1) s(4) [of c w] by (simp_all add: owned_obj_def)
  note f = fresh_claim [OF c(2,3) ns]
  from serve obtain p kp where p: "v4_cidr (sp_CIDR (sp_spec pool)) p kp" "12 \<le> kp" "kp \<le> 28" by (auto simp: can_serve_def)
  show ?thesis
    using waiting_claim_outcome [OF s(2) poolclaim_serverD(3) [OF s(1)] s(3) p, of w c n legacy r] serve stored ns f that
    by (auto simp: can_serve_def)
qed

section \<open>The in-memory server\<close>

lemma gen_kube_responsive: "responsive gen_kube (\<lambda>w. subnet_view ` set (st_subnets w)) mem_claims demo_pool"
  using fixed_kube_responsive [of demo_pool] unfolding responsive_def by (simp add: gen_kube_def)

lemma gen_kube_delegation:
  "delegation_server gen_kube (\<lambda>w. subnet_view ` set (st_subnets w)) mem_claims gen_claims (\<lambda>w. mset (st_pools w)) mem_poolclaims demo_pool"
  unfolding delegation_server_def
proof (intro conjI allI impI)
  show "order_law gen_kube" using fixed_kube_laws(5) [of demo_pool] by (simp add: order_law_def gen_kube_def)
next
  fix w x
  show "x \<in># gen_claims w \<longleftrightarrow> mem_claims w (meta_key (sc_meta x)) = Some x" by (simp add: firsts_find mem_claims_def)
next
  note d = gen_kube_def fixed_kube_def mem_kube_def mem_poolclaims_def
  fix c w
  show "claim_calls gen_kube c \<Longrightarrow> mset (st_pools (after gen_kube c w)) = mset (st_pools w)"
    "claim_calls gen_kube c \<Longrightarrow> mem_poolclaims (after gen_kube c w) = mem_poolclaims w"
    by (cases c; auto simp: d fun_eq_iff split: sum.splits)+
  show "poolclaim_calls gen_kube c \<Longrightarrow> subnet_view ` set (st_subnets (after gen_kube c w)) = subnet_view ` set (st_subnets w)"
    by (cases c) (auto simp: d Let_def)
qed (rule gen_kube_server, rule gen_kube_responsive)

definition small_poolclaim :: SubnetPoolClaim where
  "small_poolclaim = demo_poolclaim\<lparr>pc_spec := \<lparr>pc_ParentPoolRef = ''p'', pc_DesiredBlockSize = 26\<rparr>\<rparr>"

definition small_world :: store where
  "small_world = (poolclaim_world [])\<lparr>st_poolclaims := [small_poolclaim]\<rparr>"

section \<open>Properties\<close>

text \<open>
  C9. A SubnetPoolClaim gets its pool: for a waiting SubnetPoolClaim without a claim or a pool of its
  own, whose parent pool has a free block of the size, a reconciliation of its controller, one of
  the SubnetClaim controller for the claim it created, and one more of its own end with the
  phase Bound and the name of a new child pool. The CIDR of the child pool is the lowest free
  block of the parent, and a Subnet of the parent reserves it for the SubnetPoolClaim.
\<close>

theorem poolclaim_served:
  assumes "delegation_server k subs claims cl pl pcs pool" and "pcs w req = Some pc" and "waiting_poolclaim pc"
    and "\<forall>x. \<not> owned_obj sc_meta (cl w) pc x" and "\<forall>q. \<not> owned_obj sp_meta (pl w) pc q" and "can_serve pool (subs w) pc n"
  shows "\<exists>key r' w' p a x. run_requests (system_step k legacy) [PoolClaimReq req, ClaimReq key, PoolClaimReq req] (r, w) = Some (r', w')
    \<and> pcs w' = (pcs w)(req \<mapsto> with_poolclaim_status (Name (sp_meta p)) PoolClaimBound '''' pc)
    \<and> pl w' = add_mset p (pl w) \<and> owned_obj sp_meta (pl w') pc p
    \<and> v4_cidr (sp_CIDR (sp_spec p)) a n \<and> pool_free pool (subs w) n a \<and> (\<forall>b. pool_free pool (subs w) n b \<longrightarrow> a \<le> b)
    \<and> subs w' = insert x (subs w) \<and> sn_PoolRef (snd x) = Name (sp_meta pool) \<and> sn_CIDR (snd x) = sp_CIDR (sp_spec p)
    \<and> sn_ClusterID (snd x) = UID (pc_meta pc)"
proof -
  obtain c w1 where 1: "PoolClaim_Reconcile k req w = ((no_requeue\<lparr>Requeue := True\<rparr>, None), w1)"
    "subs w1 = subs w" "pl w1 = pl w" "pcs w1 = pcs w" "cl w1 = add_mset c (cl w)"
    and c: "owned_obj sc_meta (cl w1) pc c" "sc_spec c = wanted_claim pc" "sc_status c = no_claim_status"
    by (rule first_pass [OF assms(1-4)])
  have "can_serve pool (subs w1) pc n" using assms(6) 1(2) by simp
  then obtain r2 w2 st a where 2: "Claim_Reconcile k legacy (meta_key (sc_meta c)) (r, w1) = Some ((no_requeue, None), r2, w2)"
    "claims w2 = (claims w1)(meta_key (sc_meta c) \<mapsto> c\<lparr>sc_status := st\<rparr>)" "sc_Phase st = ClaimBound"
    and a: "v4_cidr (sc_AllocatedCIDR st) a n" "pool_free pool (subs w1) n a" "\<And>b. pool_free pool (subs w1) n b \<Longrightarrow> a \<le> b"
    and x: "subs w2 = insert (subnet_view (new_subnet c pool (sc_AllocatedCIDR st)
      (EncodeAllocationName (Name (sp_meta pool)) (sc_AllocatedCIDR st)))) (subs w1)"
    using middle_pass [OF assms(1) _ c] by metis
  note kept = claim_keeps_pools [OF assms(1) 2(1)]
  note single = claim_stays_single [OF assms(1,4) 1(5) c(1) 2(2)]
  have "sc_AllocatedCIDR st \<noteq> ''''" using a(1) by (auto simp: v4_cidr_def ParseCIDR_def)
  then obtain p w3 where 3: "PoolClaim_Reconcile k req w2 = ((no_requeue, None), w3)" "subs w3 = subs w2" "pl w3 = add_mset p (pl w2)"
    "owned_obj sp_meta (pl w3) pc p" "sp_CIDR (sp_spec p) = sc_AllocatedCIDR st"
    "pcs w3 = (pcs w2)(req \<mapsto> with_poolclaim_status (Name (sp_meta p)) PoolClaimBound '''' pc)"
  proof -
    let ?d = "c\<lparr>sc_status := st\<rparr>"
    have u: "owned_obj sc_meta (cl w2) pc ?d" "\<And>x. owned_obj sc_meta (cl w2) pc x \<Longrightarrow> x = ?d" using single by blast+
    show thesis
      by (rule second_pass [OF assms(1) _ assms(3) u])
        (use kept 1(3,4) assms(2,5) 2(3) \<open>sc_AllocatedCIDR st \<noteq> ''''\<close> that in simp_all)
  qed
  have "run_requests (system_step k legacy) [PoolClaimReq req, ClaimReq (meta_key (sc_meta c)), PoolClaimReq req] (r, w) = Some (r2, w3)"
    using 1(1) 2(1) 3(1) by simp
  moreover have "pcs w3 = (pcs w)(req \<mapsto> with_poolclaim_status (Name (sp_meta p)) PoolClaimBound '''' pc)" "pl w3 = add_mset p (pl w)"
    using 3 kept 1 by simp_all
  moreover have "subs w3 = insert (subnet_view (new_subnet c pool (sc_AllocatedCIDR st)
      (EncodeAllocationName (Name (sp_meta pool)) (sc_AllocatedCIDR st)))) (subs w)"
    using 3 x 1 by simp
  moreover have "sc_ClusterID (sc_spec c) = UID (pc_meta pc)" by (simp add: c(2) wanted_claim_def)
  ultimately show ?thesis
    using a 1(2) 3(4,5) by (intro exI) (auto simp: subnet_view_def new_subnet_def)
qed

theorem poolclaim_served_witness:
  "\<exists>key r' w' p a. run_requests (system_step gen_kube False) [PoolClaimReq (''ns'', ''x''), ClaimReq key, PoolClaimReq (''ns'', ''x'')]
       (\<lambda>_. None, small_world) = Some (r', w')
     \<and> map_option (pc_Phase \<circ> pc_status) (mem_poolclaims w' (''ns'', ''x'')) = Some PoolClaimBound
     \<and> mset (st_pools w') = {#p#} \<and> v4_cidr (sp_CIDR (sp_spec p)) a 26"
proof -
  let ?S = "subnet_view ` set (st_subnets small_world)"
  note w = small_world_def small_poolclaim_def poolclaim_world_def demo_poolclaim_def
  have S: "?S = {}" by (simp add: w)
  have pool: "v4_cidr (sp_CIDR (sp_spec demo_pool)) 167772160 24" using demo_texts(1) by (simp add: demo_pool_def)
  have pc: "mem_poolclaims small_world (''ns'', ''x'') = Some small_poolclaim" by (simp add: mem_poolclaims_def w meta_key_def)
  have wait: "waiting_poolclaim small_poolclaim" by (simp add: waiting_poolclaim_def w empty_meta_def)
  have none: "\<forall>x. \<not> owned_obj sc_meta (gen_claims small_world) small_poolclaim x"
    "\<forall>q. \<not> owned_obj sp_meta (mset (st_pools small_world)) small_poolclaim q"
    by (simp_all add: owned_obj_def w)
  have "pool_free demo_pool ?S 26 167772160"
    unfolding S by (auto simp: pool_free_def pool_cidrs_def in_pool_of_def free_block_def cidr_addrs_v4 [OF pool] block_subset)
  then have "\<exists>a. pool_free demo_pool ?S 26 a" by blast
  moreover have "names_free demo_pool {} 26" by (simp add: names_free_def)
  moreover have "alloc_inv P ns pn {}" for P ns pn by (simp add: alloc_inv_def in_pool_of_def)
  moreover have "not_served {} small_poolclaim" "sizes_allow demo_pool 26" "pc_DesiredBlockSize (pc_spec small_poolclaim) = 26"
    by (simp_all add: not_served_def in_pool_of_def sizes_allow_def demo_pool_def small_poolclaim_def)
  moreover have "meta_key (sp_meta demo_pool) = (Namespace (pc_meta small_poolclaim), pc_ParentPoolRef (pc_spec small_poolclaim))"
    by (simp add: demo_pool_def w meta_key_def)
  moreover have "\<exists>p kp. v4_cidr (sp_CIDR (sp_spec demo_pool)) p kp \<and> 12 \<le> kp \<and> kp \<le> 28" by (intro exI conjI, rule pool) simp_all
  ultimately have "can_serve demo_pool ?S small_poolclaim 26" unfolding can_serve_def S by simp
  from poolclaim_served [OF gen_kube_delegation pc wait none this, of False "\<lambda>_. None"]
  obtain key r' w' p a where
    "run_requests (system_step gen_kube False) [PoolClaimReq (''ns'', ''x''), ClaimReq key, PoolClaimReq (''ns'', ''x'')] (\<lambda>_. None, small_world) = Some (r', w')"
    "mem_poolclaims w' (''ns'', ''x'') = Some (with_poolclaim_status (Name (sp_meta p)) PoolClaimBound '''' small_poolclaim)"
    "mset (st_pools w') = add_mset p (mset (st_pools small_world))" "v4_cidr (sp_CIDR (sp_spec p)) a 26"
    by (metis fun_upd_same)
  then show ?thesis
    by (intro exI [of _ key] exI [of _ r'] exI [of _ w'] exI [of _ p] exI [of _ a]) (simp add: with_poolclaim_status_def small_world_def poolclaim_world_def
        del: run_requests.simps)
qed

end
