(* ===== verification/Event_Routing.thy ===== *)
theory Event_Routing
  imports Pool_Status Subnet_Controller
begin

text \<open>
  \<^verbatim>\<open>internal/controller/predicates.go\<close>, the predicates of the pool status controller
  and \<^verbatim>\<open>init_index.go\<close>: which watch events reach a reconciler, and the field
  indexes. An event holds the metadata of its objects, or the pool (\<open>None\<close>: the object has
  another type). \<open>predicate.And\<close> is a parameter.
\<close>

section \<open>Predicates\<close>

datatype 'o event = CreateEvent 'o | UpdateEvent 'o 'o | DeleteEvent 'o | GenericEvent 'o

fun SubnetEvents :: "ObjectMeta event \<Rightarrow> bool" where
  "SubnetEvents (CreateEvent x) = True"
| "SubnetEvents (DeleteEvent x) = True"
| "SubnetEvents (UpdateEvent x y) = (Generation x \<noteq> Generation y)"
| "SubnetEvents (GenericEvent x) = True"

fun DeletionOnly :: "ObjectMeta event \<Rightarrow> bool" where
  "DeletionOnly (CreateEvent x) = False"
| "DeletionOnly (DeleteEvent x) = True"
| "DeletionOnly (UpdateEvent x y) = False"
| "DeletionOnly (GenericEvent x) = False"

fun PoolStatusPred :: "ObjectMeta event \<Rightarrow> bool" where
  "PoolStatusPred (UpdateEvent x y) = (Generation x \<noteq> Generation y)"
| "PoolStatusPred (CreateEvent x) = True"
| "PoolStatusPred (DeleteEvent x) = True"
| "PoolStatusPred (GenericEvent x) = True"

fun childPoolPredicate :: "SubnetPool option event \<Rightarrow> bool" where
  "childPoolPredicate (DeleteEvent x) = True"
| "childPoolPredicate (CreateEvent None) = False"
| "childPoolPredicate (CreateEvent (Some p)) = (Labels (sp_meta p) parent_label \<noteq> None)"
| "childPoolPredicate (UpdateEvent (Some oldPool) (Some newPool)) =
     (let old = Labels (sp_meta oldPool) parent_label; new = Labels (sp_meta newPool) parent_label;
          value = (\<lambda>v. case v of None \<Rightarrow> '''' | Some s \<Rightarrow> s);
          parentChanged = ((old \<noteq> None) \<noteq> (new \<noteq> None)) \<or> value old \<noteq> value new;
          cidrChanged = sp_CIDR (sp_spec oldPool) \<noteq> sp_CIDR (sp_spec newPool);
          deletionMarked = DeletionTimestamp (sp_meta oldPool) = None \<and> DeletionTimestamp (sp_meta newPool) \<noteq> None
      in parentChanged \<or> cidrChanged \<or> deletionMarked)"
| "childPoolPredicate (UpdateEvent _ _) = False"
| "childPoolPredicate (GenericEvent x) = False"

text \<open>The gauge predicate by event, from its four methods.\<close>

fun PoolGauge :: "'w kube \<Rightarrow> SubnetPool option event \<Rightarrow> registry \<times> 'w \<Rightarrow> bool \<times> registry \<times> 'w" where
  "PoolGauge k (CreateEvent x) s = PoolGauge_Create k x s"
| "PoolGauge k (DeleteEvent x) s = PoolGauge_Delete k x s"
| "PoolGauge k (UpdateEvent x y) s = PoolGauge_Update s"
| "PoolGauge k (GenericEvent x) s = PoolGauge_Generic s"

fun event_meta :: "SubnetPool event \<Rightarrow> ObjectMeta event" where
  "event_meta (CreateEvent x) = CreateEvent (sp_meta x)"
| "event_meta (UpdateEvent x y) = UpdateEvent (sp_meta x) (sp_meta y)"
| "event_meta (DeleteEvent x) = DeleteEvent (sp_meta x)"
| "event_meta (GenericEvent x) = GenericEvent (sp_meta x)"

fun event_obj :: "SubnetPool event \<Rightarrow> SubnetPool option event" where
  "event_obj (CreateEvent x) = CreateEvent (Some x)"
| "event_obj (UpdateEvent x y) = UpdateEvent (Some x) (Some y)"
| "event_obj (DeleteEvent x) = DeleteEvent (Some x)"
| "event_obj (GenericEvent x) = GenericEvent (Some x)"

text \<open>
  The filter of the \<open>For\<close> watch of the pool status controller: \<open>andp\<close> is
  \<open>predicate.And\<close>, which evaluates predicates on a state.
\<close>

definition pool_for_filter ::
    "((registry \<times> 'w \<Rightarrow> bool \<times> registry \<times> 'w) list \<Rightarrow> registry \<times> 'w \<Rightarrow> bool \<times> registry \<times> 'w)
     \<Rightarrow> 'w kube \<Rightarrow> SubnetPool event \<Rightarrow> registry \<times> 'w \<Rightarrow> bool \<times> registry \<times> 'w" where
  "pool_for_filter andp k e = andp [\<lambda>s. (PoolStatusPred (event_meta e), s), PoolGauge k (event_obj e)]"

text \<open>The documented behaviour of \<open>predicate.And\<close>: in order, up to the first that says no.\<close>

definition and_law ::
    "((registry \<times> 'w \<Rightarrow> bool \<times> registry \<times> 'w) list \<Rightarrow> registry \<times> 'w \<Rightarrow> bool \<times> registry \<times> 'w) \<Rightarrow> bool" where
  "and_law andp \<longleftrightarrow> (\<forall>s. andp [] s = (True, s))
     \<and> (\<forall>p ps s. andp (p # ps) s = (case p s of (ok, s') \<Rightarrow> if ok then andp ps s' else (False, s')))"

section \<open>Field indexes\<close>

definition PoolRefField :: string where
  "PoolRefField = ''spec.poolRef''"

definition ParentPoolLabelIndex :: string where
  "ParentPoolLabelIndex = ''metadata.labels[plexaubnet.io/parent]''"

definition index_subnet :: "Subnet \<Rightarrow> string list" where
  "index_subnet obj = [sn_PoolRef (sn_spec obj)]"

definition index_claim :: "SubnetClaim \<Rightarrow> string list" where
  "index_claim obj = [sc_PoolRef (sc_spec obj)]"

definition index_pool :: "SubnetPool option \<Rightarrow> string list" where
  "index_pool obj =
     (case obj of None \<Rightarrow> [] | Some p \<Rightarrow> (case Labels (sp_meta p) parent_label of Some parent \<Rightarrow> [parent] | None \<Rightarrow> []))"

definition handle_index :: "error option \<Rightarrow> error option" where
  "handle_index err =
     (case err of
        None \<Rightarrow> None
      | Some e \<Rightarrow> if Contains_str (err_text e) ''already exists'' \<or> Contains_str (err_text e) ''indexer conflict''
                  then None else Some e)"

text \<open>\<open>indexField\<close> is the registration of one index by kind and field; a registration may fail.\<close>

definition SetupFieldIndexes :: "(string \<Rightarrow> string \<Rightarrow> 'w \<Rightarrow> error option \<times> 'w) \<Rightarrow> 'w \<Rightarrow> error option \<times> 'w" where
  "SetupFieldIndexes indexField w =
     (case indexField ''Subnet'' PoolRefField w of (e1, w1) \<Rightarrow>
        if handle_index e1 \<noteq> None then (handle_index e1, w1)
        else case indexField ''SubnetClaim'' PoolRefField w1 of (e2, w2) \<Rightarrow>
          if handle_index e2 \<noteq> None then (handle_index e2, w2)
          else case indexField ''SubnetPool'' ParentPoolLabelIndex w2 of (e3, w3) \<Rightarrow>
            if handle_index e3 \<noteq> None then (handle_index e3, w3) else (None, w3))"

text \<open>The gauge predicate never passes an event on.\<close>

lemma gauge_filter:
  assumes "and_law andp"
  shows "\<not> fst (andp [\<lambda>s. (c, s), PoolGauge k e] s)"
proof -
  have a: "andp (p # ps) t = (if fst (p t) then andp ps (snd (p t)) else (False, snd (p t)))" for p ps t
    using assms unfolding and_law_def by (simp add: split_beta del: split_paired_All)
  have "\<not> fst (PoolGauge k e t)" for t
    by (cases e) (simp_all add: PoolGauge_Create_def PoolGauge_Delete_def PoolGauge_Update_def PoolGauge_Generic_def split: option.splits)
  then show ?thesis by (simp add: a)
qed

section \<open>Properties\<close>

text \<open>
  No event of a pool reaches the pool status reconciler through the controller's own watch:
  the filter is the conjunction with the gauge predicate, whose methods always say no. Only
  events of Subnets and of child pools lead to a reconciliation.
\<close>

lemma pool_events_never_reconcile: "and_law andp \<Longrightarrow> \<not> fst (pool_for_filter andp k e s)"
  by (simp add: pool_for_filter_def gauge_filter)



end
