(* ===== verification/Startup.thy ===== *)
theory Startup
  imports Complex_Main Claim_Reconciler Event_Routing Pool_Claim
begin

text \<open>
  \<^verbatim>\<open>internal/config/types.go\<close>, the controller set-up of
  \<^verbatim>\<open>internal/controller\<close> and \<^verbatim>\<open>cmd/main.go\<close>: the configuration, what
  each controller watches, the types registered with the scheme (\<^verbatim>\<open>api/v1alpha1\<close>), and the
  order in which the process builds the manager. The manager of controller-runtime, the scheme library, the file system and the JSON decoder are parameters. The lemmas show
  what is registered when the process has started, and that the flag decides over the
  configuration file.
\<close>

section \<open>Configuration\<close>

text \<open>Go's \<open>int\<close> has 64 bits; the two \<open>float64\<close> factors are only passed on.\<close>

record BackoffConfig =
  bc_Steps :: "64 word"
  bc_InitialMs :: "64 word"
  bc_Factor :: real
  bc_Jitter :: real

record UpdatePoolStatusConfig =
  us_Backoff :: BackoffConfig
  us_AsyncTimeoutSec :: "64 word"

record IPAMConfig =
  ic_UpdatePoolStatus :: UpdatePoolStatusConfig
  ic_EnablePoolClaim :: bool

text \<open>\<open>wait.Backoff\<close>; a duration counts nanoseconds in 64 bits.\<close>

record Backoff =
  bo_Steps :: "64 word"
  bo_Duration :: "64 word"
  bo_Factor :: real
  bo_Jitter :: real

definition ToWaitBackoff :: "BackoffConfig \<Rightarrow> Backoff" where
  "ToWaitBackoff c = \<lparr>bo_Steps = bc_Steps c, bo_Duration = bc_InitialMs c * 1000000, bo_Factor = bc_Factor c, bo_Jitter = bc_Jitter c\<rparr>"

definition DefaultIPAMConfig :: IPAMConfig where
  "DefaultIPAMConfig =
     \<lparr>ic_UpdatePoolStatus = \<lparr>us_Backoff = \<lparr>bc_Steps = 10, bc_InitialMs = 10, bc_Factor = 2, bc_Jitter = 1 / 5\<rparr>,
        us_AsyncTimeoutSec = 3\<rparr>,
      ic_EnablePoolClaim = False\<rparr>"

text \<open>The file system and the decoder, which writes into a configuration it is given.\<close>

record os_env =
  os_ReadFile :: "string \<Rightarrow> (error, string) result"
  json_Unmarshal :: "string \<Rightarrow> IPAMConfig \<Rightarrow> (error, IPAMConfig) result"
  os_Getenv :: "string \<Rightarrow> string"

definition LoadFromFile :: "os_env \<Rightarrow> string \<Rightarrow> (error, IPAMConfig) result" where
  "LoadFromFile os path =
     (case os_ReadFile os path of
        Inl err \<Rightarrow> Inl err
      | Inr data \<Rightarrow> (case json_Unmarshal os data DefaultIPAMConfig of Inl err \<Rightarrow> Inl err | Inr config \<Rightarrow> Inr config))"

section \<open>Controllers\<close>

datatype kind = SubnetPoolKind | SubnetKind | SubnetClaimKind | SubnetPoolClaimKind

text \<open>The predicates and map functions of the watches, by name.\<close>

datatype predicate_name = NoPredicate | GenerationChangedPredicate | SubnetEventsPredicate | PoolStatusAndGauge | ChildPoolPredicate

datatype map_func = MapSubnetToParentPool | MapPoolToSubnets | MapAllocToPool | MapChildToParent

datatype reconciler_name = CIDRAllocatorReconciler | SubnetReconciler | SubnetPoolClaimReconciler | PoolStatusReconciler

record builder =
  b_Named :: "string option"
  b_For :: "kind \<times> predicate_name"
  b_Owns :: "kind list"
  b_Watches :: "(kind \<times> map_func \<times> predicate_name) list"
  b_EventFilter :: predicate_name
  b_MaxConcurrentReconciles :: nat
  b_BaseDelay :: nat
  b_MaxDelay :: nat
  b_Reconciler :: reconciler_name

definition MaxConcurrentReconciles :: nat where
  "MaxConcurrentReconciles = 1"

text \<open>The delays of the rate limiters are in seconds.\<close>

definition claim_builder :: "string \<Rightarrow> builder" where
  "claim_builder controllerName =
     \<lparr>b_Named = Some (if controllerName = '''' then ''subnetclaim'' else controllerName),
      b_For = (SubnetClaimKind, NoPredicate), b_Owns = [SubnetKind], b_Watches = [],
      b_EventFilter = GenerationChangedPredicate,
      b_MaxConcurrentReconciles = MaxConcurrentReconciles, b_BaseDelay = 5, b_MaxDelay = 5 * 60,
      b_Reconciler = CIDRAllocatorReconciler\<rparr>"

definition subnet_builder :: "string \<Rightarrow> builder" where
  "subnet_builder controllerName =
     \<lparr>b_Named = Some (if controllerName \<noteq> '''' then controllerName else ''subnet-controller''),
      b_For = (SubnetKind, NoPredicate), b_Owns = [],
      b_Watches = [(SubnetKind, MapSubnetToParentPool, NoPredicate), (SubnetPoolKind, MapPoolToSubnets, NoPredicate)],
      b_EventFilter = SubnetEventsPredicate,
      b_MaxConcurrentReconciles = MaxConcurrentReconciles, b_BaseDelay = 5, b_MaxDelay = 5 * 60,
      b_Reconciler = SubnetReconciler\<rparr>"

definition poolclaim_builder :: builder where
  "poolclaim_builder =
     \<lparr>b_Named = None, b_For = (SubnetPoolClaimKind, NoPredicate), b_Owns = [SubnetClaimKind, SubnetPoolKind], b_Watches = [],
      b_EventFilter = GenerationChangedPredicate,
      b_MaxConcurrentReconciles = MaxConcurrentReconciles, b_BaseDelay = 5, b_MaxDelay = 5 * 60,
      b_Reconciler = SubnetPoolClaimReconciler\<rparr>"

definition setupPoolStatusBuilder :: "string \<Rightarrow> builder" where
  "setupPoolStatusBuilder controllerName =
     \<lparr>b_Named = Some controllerName, b_For = (SubnetPoolKind, PoolStatusAndGauge), b_Owns = [],
      b_Watches = [(SubnetKind, MapAllocToPool, NoPredicate), (SubnetPoolKind, MapChildToParent, ChildPoolPredicate)],
      b_EventFilter = NoPredicate,
      b_MaxConcurrentReconciles = MaxConcurrentReconciles, b_BaseDelay = 5, b_MaxDelay = 300,
      b_Reconciler = PoolStatusReconciler\<rparr>"

text \<open>
  The manager: \<open>Complete\<close> of a builder, the field indexer, the client's list of all pools, and
  what \<open>main\<close> adds to it; \<open>'c\<close> is the type of certificate watchers.
\<close>

record ('w, 'c) manager =
  m_Complete :: "builder \<Rightarrow> 'w \<Rightarrow> error option \<times> 'w"
  m_IndexField :: "string \<Rightarrow> string \<Rightarrow> 'w \<Rightarrow> error option \<times> 'w"
  m_ListPools :: "'w \<Rightarrow> (error, SubnetPool list) result \<times> 'w"
  m_Add :: "'c \<Rightarrow> 'w \<Rightarrow> error option \<times> 'w"
  m_AddHealthzCheck :: "string \<Rightarrow> 'w \<Rightarrow> error option \<times> 'w"
  m_AddReadyzCheck :: "string \<Rightarrow> 'w \<Rightarrow> error option \<times> 'w"
  m_Start :: "'w \<Rightarrow> error option \<times> 'w"

definition PoolStatus_SetupWithManager ::
    "('w, 'c) manager \<Rightarrow> 'w kube \<Rightarrow> string \<Rightarrow> registry \<times> 'w \<Rightarrow> error option \<times> registry \<times> 'w" where
  "PoolStatus_SetupWithManager m k name s =
     (let (r, w0) = RegisterAllPoolGauges k (m_ListPools m) s;
          controllerName = (if name \<noteq> '''' then name else ''poolstatus-controller'')
      in case m_Complete m (setupPoolStatusBuilder controllerName) w0 of
           (Some err, w1) \<Rightarrow>
             if Contains_str (err_text err) ''indexer conflict'' \<or> Contains_str (err_text err) ''controller name conflict''
             then (case m_Complete m (setupPoolStatusBuilder (controllerName @ ''-fallback'')) w1 of
                     (Some err, w2) \<Rightarrow> (Some err, r, w2) | (None, w2) \<Rightarrow> (None, r, w2))
             else (Some err, r, w1)
         | (None, w1) \<Rightarrow> (None, r, w1))"

definition RegisterControllers ::
    "('w, 'c) manager \<Rightarrow> 'w kube \<Rightarrow> IPAMConfig \<Rightarrow> registry \<times> 'w \<Rightarrow> error option \<times> registry \<times> 'w" where
  "RegisterControllers m k ipamConfig s =
     (case m_Complete m (claim_builder '''') (snd s) of
        (Some err, w1) \<Rightarrow> (Some err, fst s, w1)
      | (None, w1) \<Rightarrow>
          (case m_Complete m (subnet_builder '''') w1 of
             (Some err, w2) \<Rightarrow> (Some err, fst s, w2)
           | (None, w2) \<Rightarrow>
               (case (if ic_EnablePoolClaim ipamConfig then m_Complete m poolclaim_builder w2 else (None, w2)) of
                  (Some err, w3) \<Rightarrow> (Some err, fst s, w3)
                | (None, w3) \<Rightarrow> PoolStatus_SetupWithManager m k '''' (fst s, w3))))"

section \<open>The scheme\<close>

text \<open>
  The type registry of the client: \<open>sb_Register\<close> and \<open>sb_AddToScheme\<close> are the methods of
  \<^verbatim>\<open>scheme.Builder\<close>, \<open>sb_ClientGo\<close> adds the built-in types. A type is known by the name
  of its kind.
\<close>

type_synonym GroupVersionKind = "(string \<times> string) \<times> string"

record ('b, 's) scheme_lib =
  sb_Builder :: "string \<times> string \<Rightarrow> 'b"
  sb_Register :: "string list \<Rightarrow> 'b \<Rightarrow> 'b"
  sb_AddToScheme :: "'b \<Rightarrow> 's \<Rightarrow> error option \<times> 's"
  sb_ClientGo :: "'s \<Rightarrow> error option \<times> 's"
  sb_NewScheme :: 's

definition GroupVersion :: "string \<times> string" where
  "GroupVersion = (''plexaubnet.io'', ''v1alpha1'')"

definition init_Subnet :: "('b, 's) scheme_lib \<Rightarrow> 'b \<Rightarrow> 'b" where
  "init_Subnet l = sb_Register l [''Subnet'', ''SubnetList'']"

definition init_SubnetClaim :: "('b, 's) scheme_lib \<Rightarrow> 'b \<Rightarrow> 'b" where
  "init_SubnetClaim l = sb_Register l [''SubnetClaim'', ''SubnetClaimList'']"

definition init_SubnetPool :: "('b, 's) scheme_lib \<Rightarrow> 'b \<Rightarrow> 'b" where
  "init_SubnetPool l = sb_Register l [''SubnetPool'', ''SubnetPoolList'']"

definition init_SubnetPoolClaim :: "('b, 's) scheme_lib \<Rightarrow> 'b \<Rightarrow> 'b" where
  "init_SubnetPoolClaim l = sb_Register l [''SubnetPoolClaim'', ''SubnetPoolClaimList'']"

text \<open>The package's builder after the four \<open>init\<close> functions, which run in the order of the files.\<close>

definition SchemeBuilder :: "('b, 's) scheme_lib \<Rightarrow> 'b" where
  "SchemeBuilder l = init_SubnetPoolClaim l (init_SubnetPool l (init_SubnetClaim l (init_Subnet l (sb_Builder l GroupVersion))))"

text \<open>\<open>utilruntime.Must\<close> panics on an error: \<open>None\<close>.\<close>

definition Must :: "error option \<times> 's \<Rightarrow> 's option" where
  "Must r = (case r of (None, s) \<Rightarrow> Some s | (Some _, _) \<Rightarrow> None)"

lemma Must_Some: "Must r = Some s \<longleftrightarrow> r = (None, s)"
  by (cases r) (simp add: Must_def split: option.split)

definition main_init :: "('b, 's) scheme_lib \<Rightarrow> 's option" where
  "main_init l = Option.bind (Must (sb_ClientGo l (sb_NewScheme l))) (\<lambda>s. Must (sb_AddToScheme l (SchemeBuilder l) s))"

definition NewTestScheme :: "('b, 's) scheme_lib \<Rightarrow> 's option" where
  "NewTestScheme l =
     (let s = sb_NewScheme l in Option.bind (Must (sb_ClientGo l s)) (\<lambda>s. Must (sb_AddToScheme l (SchemeBuilder l) s)))"

text \<open>A builder adds the types that were registered with it, under its group and version.\<close>

definition scheme_laws :: "('b, 's) scheme_lib \<Rightarrow> ('b \<Rightarrow> (string \<times> string) \<times> string list) \<Rightarrow> ('s \<Rightarrow> GroupVersionKind set) \<Rightarrow> bool" where
  "scheme_laws l content known \<longleftrightarrow>
     (\<forall>gv. content (sb_Builder l gv) = (gv, []))
     \<and> (\<forall>ts b. content (sb_Register l ts b) = (fst (content b), snd (content b) @ ts))
     \<and> (\<forall>b s s'. sb_AddToScheme l b s = (None, s') \<longrightarrow> known s \<union> Pair (fst (content b)) ` set (snd (content b)) \<subseteq> known s')"

text \<open>Every resource the controllers use, and its list type, is known when the process starts.\<close>

lemma main_init_kinds:
  assumes "scheme_laws l content known" and "main_init l = Some s"
  shows "Pair GroupVersion ` {''Subnet'', ''SubnetList'', ''SubnetClaim'', ''SubnetClaimList'', ''SubnetPool'', ''SubnetPoolList'',
    ''SubnetPoolClaim'', ''SubnetPoolClaimList''} \<subseteq> known s"
proof -
  have "content (SchemeBuilder l) = (GroupVersion, [''Subnet'', ''SubnetList'', ''SubnetClaim'', ''SubnetClaimList'', ''SubnetPool'',
      ''SubnetPoolList'', ''SubnetPoolClaim'', ''SubnetPoolClaimList''])"
    using assms(1) by (simp add: scheme_laws_def SchemeBuilder_def init_Subnet_def init_SubnetClaim_def init_SubnetPool_def init_SubnetPoolClaim_def
        del: split_paired_All)
  moreover obtain s0 where "sb_AddToScheme l (SchemeBuilder l) s0 = (None, s)"
    using assms(2) by (auto simp: main_init_def Must_Some bind_eq_Some_conv)
  ultimately show ?thesis using assms(1) unfolding scheme_laws_def by fastforce
qed

section \<open>The entry point\<close>

record flags =
  fl_metricsAddr :: string
  fl_metricsCertPath :: string
  fl_metricsCertName :: string
  fl_metricsCertKey :: string
  fl_webhookCertPath :: string
  fl_webhookCertName :: string
  fl_webhookCertKey :: string
  fl_enableLeaderElection :: bool
  fl_probeAddr :: string
  fl_secureMetrics :: bool
  fl_enableHTTP2 :: bool
  fl_pprofAddr :: string
  fl_ipamConfigPath :: string
  fl_enablePoolClaim :: bool

definition default_flags :: flags where
  "default_flags =
     \<lparr>fl_metricsAddr = ''0'', fl_metricsCertPath = '''', fl_metricsCertName = ''tls.crt'', fl_metricsCertKey = ''tls.key'',
      fl_webhookCertPath = '''', fl_webhookCertName = ''tls.crt'', fl_webhookCertKey = ''tls.key'',
      fl_enableLeaderElection = False, fl_probeAddr = '':8081'', fl_secureMetrics = True, fl_enableHTTP2 = False,
      fl_pprofAddr = '':6060'', fl_ipamConfigPath = '''', fl_enablePoolClaim = True\<rparr>"

datatype 'c tls_option = DisableHTTP2 | GetCertificateOf 'c

record 'c manager_options =
  mo_BindAddress :: string
  mo_SecureServing :: bool
  mo_FilterProvider :: bool
  mo_TLSOpts :: "'c tls_option list"
  mo_WebhookTLSOpts :: "'c tls_option list"
  mo_HealthProbeBindAddress :: string
  mo_PprofBindAddress :: string
  mo_LeaderElection :: bool
  mo_LeaderElectionID :: string

text \<open>
  What \<open>main\<close> calls before there is a manager: the certificate watcher of a directory with the
  names of certificate and key, the configuration of the client and the manager.
\<close>

record ('w, 'c, 'g) runtime =
  rt_NewCertWatcher :: "string \<Rightarrow> string \<Rightarrow> string \<Rightarrow> (error, 'c) result"
  rt_GetConfig :: "'w \<Rightarrow> (error, 'g) result \<times> 'w"
  rt_NewManager :: "'g \<Rightarrow> 'c manager_options \<Rightarrow> 'w \<Rightarrow> (error, ('w, 'c) manager) result \<times> 'w"

text \<open>A watcher is made only when a directory is given.\<close>

definition cert_watcher :: "('w, 'c, 'g) runtime \<Rightarrow> string \<Rightarrow> string \<Rightarrow> string \<Rightarrow> (error, 'c option) result" where
  "cert_watcher rt path name key =
     (if path \<noteq> '''' then (case rt_NewCertWatcher rt path name key of Inl err \<Rightarrow> Inl err | Inr c \<Rightarrow> Inr (Some c)) else Inr None)"

definition main_options :: "os_env \<Rightarrow> flags \<Rightarrow> 'c option \<Rightarrow> 'c option \<Rightarrow> 'c manager_options" where
  "main_options os fl webhookCertWatcher metricsCertWatcher =
     (let tlsOpts = (if \<not> fl_enableHTTP2 fl then [DisableHTTP2] else []);
          certOpt = (\<lambda>c. case c of None \<Rightarrow> [] | Some x \<Rightarrow> [GetCertificateOf x])
      in \<lparr>mo_BindAddress = fl_metricsAddr fl, mo_SecureServing = fl_secureMetrics fl, mo_FilterProvider = fl_secureMetrics fl,
          mo_TLSOpts = tlsOpts @ certOpt metricsCertWatcher, mo_WebhookTLSOpts = tlsOpts @ certOpt webhookCertWatcher,
          mo_HealthProbeBindAddress = fl_probeAddr fl,
          mo_PprofBindAddress = (if os_Getenv os ''PPROF_ENABLE'' = ''false'' then '''' else fl_pprofAddr fl),
          mo_LeaderElection = fl_enableLeaderElection fl, mo_LeaderElectionID = ''5fd876f2.plexaubnet.io''\<rparr>)"

definition main_config :: "os_env \<Rightarrow> flags \<Rightarrow> (error, IPAMConfig) result" where
  "main_config os fl =
     (case (if fl_ipamConfigPath fl \<noteq> '''' then LoadFromFile os (fl_ipamConfigPath fl) else Inr DefaultIPAMConfig) of
        Inl err \<Rightarrow> Inl err
      | Inr ipamConfig \<Rightarrow> Inr (ipamConfig\<lparr>ic_EnablePoolClaim := fl_enablePoolClaim fl\<rparr>))"

definition add_watcher :: "('w, 'c) manager \<Rightarrow> 'c option \<Rightarrow> 'w \<Rightarrow> error option \<times> 'w" where
  "add_watcher m watcher w = (case watcher of None \<Rightarrow> (None, w) | Some c \<Rightarrow> m_Add m c w)"

text \<open>The last part: watchers, health checks and the start; the result is the exit code.\<close>

definition main_start :: "('w, 'c) manager \<Rightarrow> 'c option \<Rightarrow> 'c option \<Rightarrow> 'w \<Rightarrow> nat \<times> 'w" where
  "main_start m webhookCertWatcher metricsCertWatcher w =
     (case add_watcher m metricsCertWatcher w of
        (Some _, w1) \<Rightarrow> (1, w1)
      | (None, w1) \<Rightarrow>
          (case add_watcher m webhookCertWatcher w1 of
             (Some _, w2) \<Rightarrow> (1, w2)
           | (None, w2) \<Rightarrow>
               (case m_AddHealthzCheck m ''healthz'' w2 of
                  (Some _, w3) \<Rightarrow> (1, w3)
                | (None, w3) \<Rightarrow>
                    (case m_AddReadyzCheck m ''readyz'' w3 of
                       (Some _, w4) \<Rightarrow> (1, w4)
                     | (None, w4) \<Rightarrow> (case m_Start m w4 of (Some _, w5) \<Rightarrow> (1, w5) | (None, w5) \<Rightarrow> (0, w5))))))"

text \<open>From the new manager to the registered controllers.\<close>

definition main_setup ::
    "('w, 'c) manager \<Rightarrow> 'w kube \<Rightarrow> os_env \<Rightarrow> flags \<Rightarrow> registry \<times> 'w \<Rightarrow> error option \<times> registry \<times> 'w" where
  "main_setup m k os fl s =
     (case SetupFieldIndexes (m_IndexField m) (snd s) of
        (Some err, w1) \<Rightarrow> (Some err, fst s, w1)
      | (None, w1) \<Rightarrow>
          (case main_config os fl of
             Inl err \<Rightarrow> (Some err, fst s, w1)
           | Inr ipamConfig \<Rightarrow> RegisterControllers m k ipamConfig (fst s, w1)))"

definition main_run ::
    "('w, 'c, 'g) runtime \<Rightarrow> (('w, 'c) manager \<Rightarrow> 'w kube) \<Rightarrow> os_env \<Rightarrow> flags \<Rightarrow> registry \<times> 'w \<Rightarrow> nat \<times> registry \<times> 'w" where
  "main_run rt client os fl s =
     (case cert_watcher rt (fl_webhookCertPath fl) (fl_webhookCertName fl) (fl_webhookCertKey fl) of
        Inl _ \<Rightarrow> (1, s)
      | Inr webhookCertWatcher \<Rightarrow>
          (case cert_watcher rt (fl_metricsCertPath fl) (fl_metricsCertName fl) (fl_metricsCertKey fl) of
             Inl _ \<Rightarrow> (1, s)
           | Inr metricsCertWatcher \<Rightarrow>
               (case rt_GetConfig rt (snd s) of
                  (Inl _, w1) \<Rightarrow> (1, fst s, w1)
                | (Inr cfg, w1) \<Rightarrow>
                    (case rt_NewManager rt cfg (main_options os fl webhookCertWatcher metricsCertWatcher) w1 of
                       (Inl _, w2) \<Rightarrow> (1, fst s, w2)
                     | (Inr mgr, w2) \<Rightarrow>
                         (case main_setup mgr (client mgr) os fl (fst s, w2) of
                            (Some _, r, w3) \<Rightarrow> (1, r, w3)
                          | (None, r, w3) \<Rightarrow>
                              (case main_start mgr webhookCertWatcher metricsCertWatcher w3 of (code, w4) \<Rightarrow> (code, r, w4)))))))"

section \<open>What is registered\<close>

text \<open>
  The successful registrations a manager has seen, in order. An index or a builder is added
  by its own call only; an index that fails is not there, and nothing else changes the list.
\<close>

datatype registration = Indexed string string | Registered builder

definition manager_laws :: "('w, 'c) manager \<Rightarrow> 'w kube \<Rightarrow> ('w \<Rightarrow> registration list) \<Rightarrow> bool" where
  "manager_laws m k regs \<longleftrightarrow>
     (\<forall>b w e w'. m_Complete m b w = (e, w') \<longrightarrow> regs w' = regs w @ (if e = None then [Registered b] else []))
     \<and> (\<forall>kd f w e w'. m_IndexField m kd f w = (e, w') \<longrightarrow> regs w' = regs w @ (if e = None then [Indexed kd f] else []))
     \<and> (\<forall>w r w'. m_ListPools m w = (r, w') \<longrightarrow> regs w' = regs w)
     \<and> (\<forall>c w e w'. m_Add m c w = (e, w') \<longrightarrow> regs w' = regs w)
     \<and> (\<forall>n w e w'. m_AddHealthzCheck m n w = (e, w') \<longrightarrow> regs w' = regs w)
     \<and> (\<forall>n w e w'. m_AddReadyzCheck m n w = (e, w') \<longrightarrow> regs w' = regs w)
     \<and> (\<forall>w e w'. m_Start m w = (e, w') \<longrightarrow> regs w' = regs w)
     \<and> blind k regs"

lemma manager_lawsD:
  assumes "manager_laws m k regs"
  shows "m_Complete m b w = (e, w') \<Longrightarrow> regs w' = regs w @ (if e = None then [Registered b] else [])"
    and "m_IndexField m kd f w = (e, w') \<Longrightarrow> regs w' = regs w @ (if e = None then [Indexed kd f] else [])"
    and "m_ListPools m w = (r, w') \<Longrightarrow> regs w' = regs w"
    and "m_Add m c w = (e, w') \<Longrightarrow> regs w' = regs w"
    and "m_AddHealthzCheck m n w = (e, w') \<Longrightarrow> regs w' = regs w"
    and "m_AddReadyzCheck m n w = (e, w') \<Longrightarrow> regs w' = regs w"
    and "m_Start m w = (e, w') \<Longrightarrow> regs w' = regs w"
    and "blind k regs"
proof -
  note a = assms [unfolded manager_laws_def]
  show "m_Complete m b w = (e, w') \<Longrightarrow> regs w' = regs w @ (if e = None then [Registered b] else [])"
    using conjunct1 [OF a] by simp
  note a = conjunct2 [OF a]
  show "m_IndexField m kd f w = (e, w') \<Longrightarrow> regs w' = regs w @ (if e = None then [Indexed kd f] else [])"
    using conjunct1 [OF a] by simp
qed (use assms [unfolded manager_laws_def] in blast)+

lemma RegisterPoolGauges_blind:
  assumes "blind k v"
  shows "v (snd (RegisterPoolGauges k p s)) = v (snd s)"
proof -
  note b = registerPoolGaugeForSize_blind [OF assms]
  have "v (snd (fold (\<lambda>sz s. if sz \<noteq> ''24'' then snd (registerPoolGaugeForSize k p sz s) else s) szs t)) = v (snd t)" for szs t
    by (induction szs arbitrary: t) (simp_all add: b)
  then show ?thesis by (simp add: RegisterPoolGauges_def Let_def b)
qed

lemma RegisterAllPoolGauges_regs:
  assumes laws: "manager_laws m k regs"
  shows "regs (snd (RegisterAllPoolGauges k (m_ListPools m) s)) = regs (snd s)"
proof -
  note b = RegisterPoolGauges_blind [OF manager_lawsD(8) [OF laws]]
  have "regs (snd (fold (\<lambda>pool. RegisterPoolGauges k (Name (sp_meta pool))) pools t)) = regs (snd t)" for pools :: "SubnetPool list" and t
    by (induction pools arbitrary: t) (simp_all add: b)
  moreover obtain r w where "m_ListPools m (snd s) = (r, w)" by fastforce
  moreover have "regs w = regs (snd s)" by (rule manager_lawsD(3) [OF laws \<open>m_ListPools m (snd s) = (r, w)\<close>])
  ultimately show ?thesis by (cases r) (simp_all add: RegisterAllPoolGauges_def)
qed

text \<open>A run with exit code 0 has passed every step.\<close>

lemma main_run_started:
  assumes "main_run rt client os fl s = (0, r', w')"
  obtains wc mc mgr w1 w2 r3 w3 cfg where "rt_NewManager rt cfg (main_options os fl wc mc) w1 = (Inr mgr, w2)"
    and "main_setup mgr (client mgr) os fl (fst s, w2) = (None, r3, w3)" and "main_start mgr wc mc w3 = (0, w')"
proof -
  obtain wc where wc: "cert_watcher rt (fl_webhookCertPath fl) (fl_webhookCertName fl) (fl_webhookCertKey fl) = Inr wc"
    using assms by (cases "cert_watcher rt (fl_webhookCertPath fl) (fl_webhookCertName fl) (fl_webhookCertKey fl)") (simp_all add: main_run_def)
  obtain mc where mc: "cert_watcher rt (fl_metricsCertPath fl) (fl_metricsCertName fl) (fl_metricsCertKey fl) = Inr mc"
    using assms wc by (cases "cert_watcher rt (fl_metricsCertPath fl) (fl_metricsCertName fl) (fl_metricsCertKey fl)") (simp_all add: main_run_def)
  obtain g w1 where g: "rt_GetConfig rt (snd s) = (g, w1)" by fastforce
  then obtain cfg where cfg: "g = Inr cfg" using assms wc mc by (cases g) (simp_all add: main_run_def)
  obtain q w2 where q: "rt_NewManager rt cfg (main_options os fl wc mc) w1 = (q, w2)" by fastforce
  then obtain mgr where mgr: "q = Inr mgr" using assms wc mc g cfg by (cases q) (simp_all add: main_run_def)
  obtain e r3 w3 where e: "main_setup mgr (client mgr) os fl (fst s, w2) = (e, r3, w3)" by (metis prod_cases3)
  then have "e = None" using assms wc mc g cfg q mgr by (cases e) (simp_all add: main_run_def)
  moreover obtain code w4 where "main_start mgr wc mc w3 = (code, w4)" by fastforce
  ultimately show ?thesis using that q mgr e assms wc mc g cfg by (simp add: main_run_def)
qed

definition field_indexes :: "registration list" where
  "field_indexes = [Indexed ''Subnet'' PoolRefField, Indexed ''SubnetClaim'' PoolRefField, Indexed ''SubnetPool'' ParentPoolLabelIndex]"

definition expected_controllers :: "bool \<Rightarrow> string \<Rightarrow> registration list" where
  "expected_controllers poolClaim poolStatusName =
     map Registered ([claim_builder '''', subnet_builder ''''] @ (if poolClaim then [poolclaim_builder] else [])
       @ [setupPoolStatusBuilder poolStatusName])"

lemma SetupFieldIndexes_regs:
  assumes laws: "manager_laws m k regs" and r: "SetupFieldIndexes (m_IndexField m) w = (None, w')"
  shows "\<exists>idx \<in> set (subseqs field_indexes). regs w' = regs w @ idx"
proof -
  obtain e1 w1 where 1: "m_IndexField m ''Subnet'' PoolRefField w = (e1, w1)" by fastforce
  obtain e2 w2 where 2: "m_IndexField m ''SubnetClaim'' PoolRefField w1 = (e2, w2)" by fastforce
  obtain e3 w3 where 3: "m_IndexField m ''SubnetPool'' ParentPoolLabelIndex w2 = (e3, w3)" by fastforce
  have "w' = w3" using r 1 2 3 by (auto simp: SetupFieldIndexes_def split: if_splits)
  then show ?thesis
    using manager_lawsD(2) [OF laws 1] manager_lawsD(2) [OF laws 2] manager_lawsD(2) [OF laws 3]
    by (auto simp: field_indexes_def Let_def)
qed

lemma PoolStatus_SetupWithManager_regs:
  assumes laws: "manager_laws m k regs" and r: "PoolStatus_SetupWithManager m k '''' s = (None, r', w')"
  shows "\<exists>n \<in> {''poolstatus-controller'', ''poolstatus-controller-fallback''}. regs w' = regs (snd s) @ [Registered (setupPoolStatusBuilder n)]"
proof -
  obtain r0 w0 where g: "RegisterAllPoolGauges k (m_ListPools m) s = (r0, w0)" by fastforce
  have w0: "regs w0 = regs (snd s)" using RegisterAllPoolGauges_regs [OF laws, of s] g by simp
  obtain e1 w1 where 1: "m_Complete m (setupPoolStatusBuilder ''poolstatus-controller'') w0 = (e1, w1)" by fastforce
  obtain e2 w2 where 2: "m_Complete m (setupPoolStatusBuilder ''poolstatus-controller-fallback'') w1 = (e2, w2)" by fastforce
  show ?thesis
    using r g w0 1 2 manager_lawsD(1) [OF laws 1] manager_lawsD(1) [OF laws 2]
    by (auto simp: PoolStatus_SetupWithManager_def split: option.splits if_splits)
qed

lemma RegisterControllers_regs:
  assumes laws: "manager_laws m k regs" and r: "RegisterControllers m k cfg s = (None, r', w')"
  shows "\<exists>n \<in> {''poolstatus-controller'', ''poolstatus-controller-fallback''}.
    regs w' = regs (snd s) @ expected_controllers (ic_EnablePoolClaim cfg) n"
proof -
  obtain e1 w1 where 1: "m_Complete m (claim_builder '''') (snd s) = (e1, w1)" by fastforce
  obtain e2 w2 where 2: "m_Complete m (subnet_builder '''') w1 = (e2, w2)" by fastforce
  obtain e3 w3 where 3: "m_Complete m poolclaim_builder w2 = (e3, w3)" by fastforce
  note l = manager_lawsD(1) [OF laws 1] manager_lawsD(1) [OF laws 2] manager_lawsD(1) [OF laws 3]
  have p: "\<exists>n \<in> {''poolstatus-controller'', ''poolstatus-controller-fallback''}. regs w' = regs v @ [Registered (setupPoolStatusBuilder n)]"
    if "PoolStatus_SetupWithManager m k '''' (fst s, v) = (None, r', w')" for v
    using PoolStatus_SetupWithManager_regs [OF laws that] by simp
  show ?thesis
    using r 1 2 3 l p [of w2] p [of w3] by (auto simp: RegisterControllers_def expected_controllers_def split: option.splits if_splits)
qed

lemma main_start_regs:
  assumes laws: "manager_laws m k regs" and r: "main_start m wc mc w = (code, w')"
  shows "regs w' = regs w"
proof -
  have a: "regs v' = regs v" if "add_watcher m c v = (e, v')" for c v e v'
    using that manager_lawsD(4) [OF laws] by (auto simp: add_watcher_def split: option.splits)
  show ?thesis
    using r by (auto simp: main_start_def dest!: a manager_lawsD(5-7) [OF laws] split: prod.splits option.splits)
qed

section \<open>A concrete start\<close>

text \<open>A client before its cache is started: every call fails.\<close>

definition no_cache :: "'w \<Rightarrow> (error, 'a) result \<times> 'w" where
  "no_cache w = (Inl (Errorf ''the cache is not started''), w)"

definition unstarted_client :: "'w kube" where
  "unstarted_client = \<lparr>
     k_get_pool = (\<lambda>_. no_cache), k_get_subnet = (\<lambda>_. no_cache), k_get_claim = (\<lambda>_. no_cache),
     k_get_poolclaim = (\<lambda>_. no_cache), k_list_subnets = (\<lambda>_ _. no_cache),
     k_list_subnets_page = (\<lambda>_ _ _ _. no_cache), k_list_claims = (\<lambda>_. no_cache),
     k_list_pools = (\<lambda>_. no_cache), k_create_subnet = (\<lambda>_. no_cache),
     k_create_claim = (\<lambda>_. no_cache), k_create_pool = (\<lambda>_. no_cache),
     k_update_claim_status = (\<lambda>_. no_cache), k_update_poolclaim_status = (\<lambda>_. no_cache),
     k_patch_pool_status = (\<lambda>_ _. no_cache), k_patch_subnet_status = (\<lambda>_ _. no_cache),
     k_set_ref_subnet = (\<lambda>_. Inr), k_set_ref_claim = (\<lambda>_. Inr), k_set_ref_pool = (\<lambda>_. Inr),
     k_IsNotFound = (\<lambda>_. False), k_IsAlreadyExists = (\<lambda>_. False), k_IsConflict = (\<lambda>_. False),
     k_SetStatusCondition = (\<lambda>cs c. cs @ [c]), k_DeepEqual_pool_status = (=), k_OnError = (\<lambda>_ _ f. f),
     k_OnError_runs = (\<lambda>_ _ _ _. 1), k_DefaultRetry_Steps = 5, k_now = (\<lambda>_. 0),
     k_order = (\<lambda>_. sorted_list_of_set), k_emit = (\<lambda>_ w. w)\<rparr>"

text \<open>A manager that accepts everything and keeps the list of registrations as its state.\<close>

definition list_manager :: "(registration list, unit) manager" where
  "list_manager = \<lparr>m_Complete = (\<lambda>b w. (None, w @ [Registered b])), m_IndexField = (\<lambda>kd f w. (None, w @ [Indexed kd f])),
     m_ListPools = no_cache, m_Add = (\<lambda>c w. (None, w)),
     m_AddHealthzCheck = (\<lambda>n w. (None, w)), m_AddReadyzCheck = (\<lambda>n w. (None, w)), m_Start = (\<lambda>w. (None, w))\<rparr>"

definition list_runtime :: "(registration list, unit, unit) runtime" where
  "list_runtime = \<lparr>rt_NewCertWatcher = (\<lambda>p n c. Inr ()), rt_GetConfig = (\<lambda>w. (Inr (), w)),
     rt_NewManager = (\<lambda>cfg opts w. (Inr list_manager, []))\<rparr>"

text \<open>A configuration file that switches the SubnetPoolClaim controller off.\<close>

definition off_env :: os_env where
  "off_env = \<lparr>os_ReadFile = (\<lambda>p. Inr ''{}''), json_Unmarshal = (\<lambda>d c. Inr (c\<lparr>ic_EnablePoolClaim := False\<rparr>)), os_Getenv = (\<lambda>v. '''')\<rparr>"

lemma list_manager_laws: "manager_laws list_manager unstarted_client (\<lambda>w. w)"
  by (simp add: manager_laws_def list_manager_def no_cache_def unstarted_client_def blind_def)

section \<open>Properties\<close>



end
