(* ===== verification/Watches.thy ===== *)
theory Watches
  imports Startup
begin

text \<open>
  From watch events to requests: what the builders of the four controllers make of an event,
  with the predicates of \<open>Event_Routing\<close> and the map functions of the controllers. The watch
  machinery of controller-runtime (sources with predicates, the standard handlers) is a
  parameter. The lemmas show which events lead to which requests; together with the footprints
  this bounds how far a write can travel: the status writes of the controllers end after one hop.
\<close>

section \<open>Events of the cluster\<close>

datatype obj = PoolO SubnetPool | SubnetO Subnet | ClaimO SubnetClaim | PoolClaimO SubnetPoolClaim

fun obj_kind :: "obj \<Rightarrow> kind" where
  "obj_kind (PoolO x) = SubnetPoolKind"
| "obj_kind (SubnetO x) = SubnetKind"
| "obj_kind (ClaimO x) = SubnetClaimKind"
| "obj_kind (PoolClaimO x) = SubnetPoolClaimKind"

fun obj_meta :: "obj \<Rightarrow> ObjectMeta" where
  "obj_meta (PoolO x) = sp_meta x"
| "obj_meta (SubnetO x) = sn_meta x"
| "obj_meta (ClaimO x) = sc_meta x"
| "obj_meta (PoolClaimO x) = pc_meta x"

fun obj_pool :: "obj \<Rightarrow> SubnetPool option" where
  "obj_pool (PoolO x) = Some x" | "obj_pool _ = None"

fun obj_subnet :: "obj \<Rightarrow> Subnet option" where
  "obj_subnet (SubnetO x) = Some x" | "obj_subnet _ = None"

fun event_map :: "('a \<Rightarrow> 'b) \<Rightarrow> 'a event \<Rightarrow> 'b event" where
  "event_map f (CreateEvent x) = CreateEvent (f x)"
| "event_map f (UpdateEvent x y) = UpdateEvent (f x) (f y)"
| "event_map f (DeleteEvent x) = DeleteEvent (f x)"
| "event_map f (GenericEvent x) = GenericEvent (f x)"

text \<open>The object that is current after the event.\<close>

fun event_new :: "'o event \<Rightarrow> 'o" where
  "event_new (CreateEvent x) = x"
| "event_new (UpdateEvent x y) = y"
| "event_new (DeleteEvent x) = x"
| "event_new (GenericEvent x) = x"

section \<open>The watch machinery\<close>

text \<open>
  What controller-runtime offers: \<open>GenerationChangedPredicate\<close>, \<open>predicate.And\<close>, the three
  handlers, and a source, which asks its predicates and then calls its handler. Predicates and
  map functions run on the registry of gauges and the world. The keys of owners are not in the
  model of the metadata; what the handler for owners yields is left open.
\<close>

type_synonym 'w gauges = "registry \<times> 'w"
type_synonym 'w pred = "'w gauges \<Rightarrow> bool \<times> 'w gauges"
type_synonym 'w handler = "'w gauges \<Rightarrow> NamespacedName list \<times> 'w gauges"

record 'w watch_lib =
  wl_GenerationChanged :: "ObjectMeta event \<Rightarrow> bool"
  wl_And :: "'w pred list \<Rightarrow> 'w pred"
  wl_ForObject :: "ObjectMeta event \<Rightarrow> NamespacedName list"
  wl_ForOwner :: "ObjectMeta event \<Rightarrow> NamespacedName list"
  wl_FromMapFunc :: "(obj \<Rightarrow> 'w handler) \<Rightarrow> obj event \<Rightarrow> 'w handler"
  wl_Source :: "'w pred list \<Rightarrow> 'w handler \<Rightarrow> 'w handler"

text \<open>
  Documented behaviour. \<open>GenerationChangedPredicate\<close> lets an update pass if the generation
  differs, and every other event. The handler for objects takes the key of the
  current object; the one for map functions takes what the function yields for every object of
  the event. A source calls its handler exactly if all predicates, asked in order, say yes.
\<close>

definition watch_laws :: "'w watch_lib \<Rightarrow> bool" where
  "watch_laws l \<longleftrightarrow>
     (\<forall>x y. wl_GenerationChanged l (UpdateEvent x y) = (Generation x \<noteq> Generation y))
     \<and> (\<forall>x. wl_GenerationChanged l (CreateEvent x) \<and> wl_GenerationChanged l (DeleteEvent x) \<and> wl_GenerationChanged l (GenericEvent x))
     \<and> and_law (wl_And l)
     \<and> (\<forall>e. set (wl_ForObject l e) = {meta_key (event_new e)})
     \<and> (\<forall>f e s. (\<forall>x y. e \<noteq> UpdateEvent x y) \<longrightarrow> set (fst (wl_FromMapFunc l f e s)) = set (fst (f (event_new e) s)))
     \<and> (\<forall>f x y s. set (fst (wl_FromMapFunc l f (UpdateEvent x y) s)) = set (fst (f x s)) \<union> set (fst (f y (snd (f x s)))))
     \<and> (\<forall>h s. wl_Source l [] h s = h s)
     \<and> (\<forall>p ps h s. wl_Source l (p # ps) h s = (case p s of (ok, s') \<Rightarrow> if ok then wl_Source l ps h s' else ([], s')))"

lemma watch_lawsD:
  assumes "watch_laws l"
  shows "wl_GenerationChanged l (UpdateEvent x y) = (Generation x \<noteq> Generation y)"
    and "wl_GenerationChanged l (CreateEvent x)"
    and "and_law (wl_And l)"
    and "set (wl_ForObject l e) = {meta_key (event_new e)}"
    and "set (fst (wl_FromMapFunc l f (CreateEvent u) s)) = set (fst (f u s))"
    and "set (fst (wl_FromMapFunc l f (UpdateEvent u v) s)) = set (fst (f u s)) \<union> set (fst (f v (snd (f u s))))"
    and "wl_Source l [] h s = h s"
    and "wl_Source l (p # ps) h s = (case p s of (ok, s') \<Rightarrow> if ok then wl_Source l ps h s' else ([], s'))"
  using assms unfolding watch_laws_def by (simp_all del: split_paired_All)

section \<open>What a builder sets up\<close>

fun predicate_of :: "'w watch_lib \<Rightarrow> 'w kube \<Rightarrow> predicate_name \<Rightarrow> obj event \<Rightarrow> 'w pred" where
  "predicate_of l k NoPredicate e s = (True, s)"
| "predicate_of l k GenerationChangedPredicate e s = (wl_GenerationChanged l (event_map obj_meta e), s)"
| "predicate_of l k SubnetEventsPredicate e s = (SubnetEvents (event_map obj_meta e), s)"
| "predicate_of l k PoolStatusAndGauge e s =
     wl_And l [\<lambda>s. (PoolStatusPred (event_map obj_meta e), s), PoolGauge k (event_map obj_pool e)] s"
| "predicate_of l k ChildPoolPredicate e s = (childPoolPredicate (event_map obj_pool e), s)"

fun map_func_of :: "'w kube \<Rightarrow> map_func \<Rightarrow> obj \<Rightarrow> 'w handler" where
  "map_func_of k MapSubnetToParentPool x s = (case mapSubnetToParentPool k (obj_subnet x) (snd s) of (rs, w) \<Rightarrow> (rs, fst s, w))"
| "map_func_of k MapPoolToSubnets x s = (case mapPoolToSubnets k (obj_pool x) (snd s) of (rs, w) \<Rightarrow> (rs, fst s, w))"
| "map_func_of k MapAllocToPool x s = (mapAllocToPool (obj_subnet x), s)"
| "map_func_of k MapChildToParent x s = (mapChildToParent (obj_pool x), s)"

text \<open>The sources of a builder: kind, predicate and handler; the event filter is asked first.\<close>

definition sources :: "'w watch_lib \<Rightarrow> 'w kube \<Rightarrow> builder \<Rightarrow> obj event \<Rightarrow> (kind \<times> predicate_name \<times> 'w handler) list" where
  "sources l k b e =
     (fst (b_For b), snd (b_For b), \<lambda>s. (wl_ForObject l (event_map obj_meta e), s))
     # map (\<lambda>kd. (kd, NoPredicate, \<lambda>s. (wl_ForOwner l (event_map obj_meta e), s))) (b_Owns b)
     @ map (\<lambda>(kd, f, p). (kd, p, wl_FromMapFunc l (map_func_of k f) e)) (b_Watches b)"

definition source_requests :: "'w watch_lib \<Rightarrow> 'w kube \<Rightarrow> builder \<Rightarrow> obj event \<Rightarrow> predicate_name \<Rightarrow> 'w handler \<Rightarrow> 'w handler" where
  "source_requests l k b e p h = wl_Source l [predicate_of l k (b_EventFilter b) e, predicate_of l k p e] h"

text \<open>The requests that an event puts into the queue of a controller, one source after the other.\<close>

fun run_sources ::
    "'w watch_lib \<Rightarrow> 'w kube \<Rightarrow> builder \<Rightarrow> obj event \<Rightarrow> (kind \<times> predicate_name \<times> 'w handler) list \<Rightarrow> 'w handler" where
  "run_sources l k b e [] s = ([], s)"
| "run_sources l k b e ((kd, p, h) # ss) s =
     (case (if kd = obj_kind (event_new e) then source_requests l k b e p h s else ([], s)) of (rs, s1) \<Rightarrow>
      case run_sources l k b e ss s1 of (rs', s2) \<Rightarrow> (rs @ rs', s2))"

definition controller_requests :: "'w watch_lib \<Rightarrow> 'w kube \<Rightarrow> builder \<Rightarrow> obj event \<Rightarrow> 'w handler" where
  "controller_requests l k b e = run_sources l k b e (sources l k b e)"

section \<open>Requests of an event\<close>

lemma source_requests_unfold:
  assumes "watch_laws l"
  shows "source_requests l k b e p h s =
    (let (ok, s1) = predicate_of l k (b_EventFilter b) e s; (ok', s2) = predicate_of l k p e s1
     in if \<not> ok then ([], s1) else if \<not> ok' then ([], s2) else h s2)"
  by (simp add: source_requests_def watch_lawsD(7,8) [OF assms] Let_def split: prod.splits)

lemma run_sources_fst:
  "fst (run_sources l k b e [] s) = []"
  "fst (run_sources l k b e ((kd, p, h) # ss) s) =
     (if kd = obj_kind (event_new e) then fst (source_requests l k b e p h s) @ fst (run_sources l k b e ss (snd (source_requests l k b e p h s)))
      else fst (run_sources l k b e ss s))"
  by (simp_all add: split_beta)

text \<open>A source one of whose predicates says no yields nothing.\<close>

lemma source_requests_filtered:
  assumes "watch_laws l" and "(\<forall>t. \<not> fst (predicate_of l k (b_EventFilter b) e t)) \<or> (\<forall>t. \<not> fst (predicate_of l k p e t))"
  shows "fst (source_requests l k b e p h s) = []"
  using assms(2) by (auto simp: source_requests_unfold [OF assms(1)] Let_def split_beta simp del: split_paired_All)

lemma filtered:
  assumes "watch_laws l" and "\<forall>t. \<not> fst (predicate_of l k (b_EventFilter b) e t)"
  shows "fst (run_sources l k b e ss s) = []"
proof (induction ss arbitrary: s)
  case (Cons x ss)
  have "fst (source_requests l k b e p h t) = []" for p h t by (rule source_requests_filtered) (use assms in blast)+
  then show ?case using Cons by (cases x) (simp only: run_sources_fst, simp)
qed (simp add: run_sources_fst)

text \<open>An update that changes nothing but the status.\<close>

fun status_only :: "obj \<Rightarrow> obj \<Rightarrow> bool" where
  "status_only (PoolO x) (PoolO y) = (sp_meta y = sp_meta x \<and> sp_spec y = sp_spec x)"
| "status_only (SubnetO x) (SubnetO y) = (sn_meta y = sn_meta x \<and> sn_spec y = sn_spec x)"
| "status_only (ClaimO x) (ClaimO y) = (sc_meta y = sc_meta x \<and> sc_spec y = sc_spec x)"
| "status_only (PoolClaimO x) (PoolClaimO y) = (pc_meta y = pc_meta x \<and> pc_spec y = pc_spec x)"
| "status_only _ _ = False"

lemma status_only_meta: "status_only x y \<Longrightarrow> obj_meta y = obj_meta x \<and> obj_kind y = obj_kind x"
  by (cases "(x, y)" rule: status_only.cases) simp_all

text \<open>Three controllers filter all their sources by the generation.\<close>

lemma generation_filtered:
  assumes l: "watch_laws l" and b: "b_EventFilter b \<in> {GenerationChangedPredicate, SubnetEventsPredicate}" and so: "status_only x y"
  shows "fst (controller_requests l k b (UpdateEvent x y) s) = []"
  unfolding controller_requests_def
  by (rule filtered [OF l]) (use b status_only_meta [OF so] in \<open>auto simp: watch_lawsD(1) [OF l]\<close>)

text \<open>The pool status controller hears of Subnets without a filter, of pools through two of them.\<close>

lemma pool_status_requests:
  assumes l: "watch_laws l"
  shows "obj_kind (event_new e) = SubnetPoolKind \<Longrightarrow> \<not> childPoolPredicate (event_map obj_pool e) \<Longrightarrow>
      fst (controller_requests l k (setupPoolStatusBuilder n) e s) = []"
    and "obj_kind (event_new e) = SubnetKind \<Longrightarrow>
      controller_requests l k (setupPoolStatusBuilder n) e s = wl_FromMapFunc l (map_func_of k MapAllocToPool) e s"
    and "obj_kind (event_new e) \<in> {SubnetClaimKind, SubnetPoolClaimKind} \<Longrightarrow>
      controller_requests l k (setupPoolStatusBuilder n) e s = ([], s)"
proof -
  let ?b = "setupPoolStatusBuilder n"
  have g: "\<forall>t. \<not> fst (predicate_of l k PoolStatusAndGauge e t)" using gauge_filter [OF watch_lawsD(3) [OF l]] by simp
  have f: "b_EventFilter ?b = NoPredicate" and p: "b_For ?b = (SubnetPoolKind, PoolStatusAndGauge)" "b_Owns ?b = []"
    "b_Watches ?b = [(SubnetKind, MapAllocToPool, NoPredicate), (SubnetPoolKind, MapChildToParent, ChildPoolPredicate)]"
    by (simp_all add: setupPoolStatusBuilder_def)
  show "fst (controller_requests l k ?b e s) = []"
    if "obj_kind (event_new e) = SubnetPoolKind" "\<not> childPoolPredicate (event_map obj_pool e)"
    using that g by (simp add: controller_requests_def sources_def p run_sources_fst source_requests_filtered [OF l]
        del: run_sources.simps split_paired_All)
  show "controller_requests l k ?b e s = wl_FromMapFunc l (map_func_of k MapAllocToPool) e s" if "obj_kind (event_new e) = SubnetKind"
    using that by (simp add: controller_requests_def sources_def p source_requests_unfold [OF l] f Let_def split_beta)
  show "controller_requests l k ?b e s = ([], s)" if "obj_kind (event_new e) \<in> {SubnetClaimKind, SubnetPoolClaimKind}"
    using that by (auto simp: controller_requests_def sources_def p)
qed

lemma generation_created:
  assumes "watch_laws l" and "b_EventFilter b \<in> {GenerationChangedPredicate, SubnetEventsPredicate}"
  shows "predicate_of l k (b_EventFilter b) (CreateEvent x) s = (True, s)"
  using assms(2) watch_lawsD(2) [OF assms(1)] by auto

lemma created_requests:
  assumes l: "watch_laws l" and b: "b_EventFilter b \<in> {GenerationChangedPredicate, SubnetEventsPredicate}"
    and f: "b_For b = (obj_kind x, NoPredicate)"
  shows "meta_key (obj_meta x) \<in> set (fst (controller_requests l k b (CreateEvent x) s))"
proof -
  have "source_requests l k b (CreateEvent x) NoPredicate h s = h s" for h
    by (simp add: source_requests_unfold [OF l] generation_created [OF l b])
  then show ?thesis
    using watch_lawsD(4) [OF l, of "CreateEvent (obj_meta x)"]
    by (simp add: controller_requests_def sources_def f run_sources_fst del: run_sources.simps)
qed

lemma subnet_created_requests:
  assumes l: "watch_laws l" and p: "sn_PoolRef (sn_spec x) \<noteq> ''''"
  shows "set (fst (controller_requests l k (subnet_builder n) (CreateEvent (SubnetO x)) s))
    = {meta_key (sn_meta x), (Namespace (sn_meta x), sn_PoolRef (sn_spec x))}"
proof -
  let ?b = "subnet_builder n" and ?e = "CreateEvent (SubnetO x)"
  have b: "b_EventFilter ?b = SubnetEventsPredicate" "b_For ?b = (SubnetKind, NoPredicate)" "b_Owns ?b = []"
    "b_Watches ?b = [(SubnetKind, MapSubnetToParentPool, NoPredicate), (SubnetPoolKind, MapPoolToSubnets, NoPredicate)]"
    by (simp_all add: subnet_builder_def)
  have "source_requests l k ?b ?e NoPredicate h t = h t" for h t
    by (simp add: source_requests_unfold [OF l] b)
  then show ?thesis
    using watch_lawsD(4) [OF l, of "CreateEvent (sn_meta x)"] p
    by (simp add: controller_requests_def sources_def b run_sources_fst watch_lawsD(5) [OF l] mapSubnetToParentPool_def enqueueParentPool_def
        Let_def insert_commute del: run_sources.simps)
qed

section \<open>A watch library in memory\<close>

definition mem_watch :: "'w watch_lib" where
  "mem_watch = \<lparr>
     wl_GenerationChanged = (\<lambda>e. case e of UpdateEvent x y \<Rightarrow> Generation x \<noteq> Generation y | _ \<Rightarrow> True),
     wl_And = rec_list (\<lambda>s. (True, s)) (\<lambda>p ps r s. case p s of (ok, s') \<Rightarrow> if ok then r s' else (False, s')),
     wl_ForObject = (\<lambda>e. [meta_key (event_new e)]), wl_ForOwner = (\<lambda>e. []),
     wl_FromMapFunc = (\<lambda>f e s. case e of
         UpdateEvent x y \<Rightarrow> (case f x s of (rs, s1) \<Rightarrow> case f y s1 of (rs', s2) \<Rightarrow> (rs @ rs', s2))
       | _ \<Rightarrow> f (event_new e) s),
     wl_Source = (\<lambda>ps h. rec_list h (\<lambda>p ps r s. case p s of (ok, s') \<Rightarrow> if ok then r s' else ([], s')) ps)\<rparr>"

lemma mem_watch_laws: "watch_laws mem_watch"
  unfolding watch_laws_def
proof (intro conjI allI impI)
  fix f :: "obj \<Rightarrow> 'a handler" and e :: "obj event" and s
  assume "\<forall>x y. e \<noteq> UpdateEvent x y"
  then show "set (fst (wl_FromMapFunc mem_watch f e s)) = set (fst (f (event_new e) s))" by (cases e) (simp_all add: mem_watch_def)
qed (simp_all add: mem_watch_def and_law_def split_beta)

section \<open>Properties\<close>

text \<open>
  C15. A status write does not start a round of reconciliations: when an update changes nothing
  but the status of an object, no controller gets a request, except that the pool status
  controller is asked for the pool of a Subnet whose status changed. The status that it writes
  in turn, like every other status the controllers write, leads to no request at all.
\<close>

theorem status_updates_quiet:
  assumes "watch_laws l" and "status_only old new"
  shows "fst (controller_requests l k (claim_builder n) (UpdateEvent old new) s) = []
    \<and> fst (controller_requests l k (subnet_builder n) (UpdateEvent old new) s) = []
    \<and> fst (controller_requests l k poolclaim_builder (UpdateEvent old new) s) = []
    \<and> set (fst (controller_requests l k (setupPoolStatusBuilder n) (UpdateEvent old new) s)) = set (mapAllocToPool (obj_subnet new))"
proof -
  have g: "fst (controller_requests l k b (UpdateEvent old new) s) = []"
    if "b_EventFilter b \<in> {GenerationChangedPredicate, SubnetEventsPredicate}" for b
    by (rule generation_filtered [OF assms(1) that assms(2)])
  have "set (fst (controller_requests l k (setupPoolStatusBuilder n) (UpdateEvent old new) s)) = set (mapAllocToPool (obj_subnet new))"
    using assms(2) pool_status_requests [OF assms(1), of "UpdateEvent old new" k n s]
    by (cases "(old, new)" rule: status_only.cases) (simp_all add: watch_lawsD(6) [OF assms(1)] mapAllocToPool_def Let_def del: not_None_eq)
  then show ?thesis by (simp add: g claim_builder_def subnet_builder_def poolclaim_builder_def)
qed

theorem status_updates_quiet_witness:
  "let old = paged_subnet ''10.0.0.0/24''; new = old\<lparr>sn_status := \<lparr>sn_Phase = SubnetPhaseAllocated, sn_AllocatedAt = Some 1\<rparr>\<rparr>;
       e = UpdateEvent (SubnetO old) (SubnetO new); s = (\<lambda>_. None, pool_world)
   in fst (controller_requests mem_watch mem_kube (subnet_builder '''') e s) = []
      \<and> set (fst (controller_requests mem_watch mem_kube (setupPoolStatusBuilder '''') e s)) = {(''ns'', ''p'')}"
proof -
  let ?x = "paged_subnet ''10.0.0.0/24''"
  let ?y = "?x\<lparr>sn_status := \<lparr>sn_Phase = SubnetPhaseAllocated, sn_AllocatedAt = Some 1\<rparr>\<rparr>"
  have "status_only (SubnetO ?x) (SubnetO ?y)" by simp
  moreover have "mapAllocToPool (obj_subnet (SubnetO ?y)) = [(''ns'', ''p'')]"
    by (simp add: mapAllocToPool_def paged_subnet_def empty_meta_def)
  ultimately show ?thesis
    using status_updates_quiet [OF mem_watch_laws, of "SubnetO ?x" "SubnetO ?y" mem_kube "''''" "(\<lambda>_. None, pool_world)"] by (simp add: Let_def)
qed

text \<open>
  C31. Every new object is noticed: the creation of a SubnetClaim or a SubnetPoolClaim puts its own
  key into the queue of its controller; the creation of a Subnet puts its key into the queue of
  the Subnet controller, and the key of its pool into the queue of the pool status controller.
  The Subnet controller also gets the key of the pool, as if it were a Subnet.
\<close>

theorem creations_noticed:
  assumes "watch_laws l" and "sn_PoolRef (sn_spec x) \<noteq> ''''" and "Namespace (sn_meta x) \<noteq> ''''"
  shows "meta_key (sc_meta c) \<in> set (fst (controller_requests l k (claim_builder n) (CreateEvent (ClaimO c)) s))
    \<and> meta_key (pc_meta d) \<in> set (fst (controller_requests l k poolclaim_builder (CreateEvent (PoolClaimO d)) s))
    \<and> set (fst (controller_requests l k (subnet_builder n) (CreateEvent (SubnetO x)) s))
        = {meta_key (sn_meta x), (Namespace (sn_meta x), sn_PoolRef (sn_spec x))}
    \<and> set (fst (controller_requests l k (setupPoolStatusBuilder n) (CreateEvent (SubnetO x)) s))
        = {(Namespace (sn_meta x), sn_PoolRef (sn_spec x))}"
  using created_requests [OF assms(1), of "claim_builder n" "ClaimO c"] created_requests [OF assms(1), of poolclaim_builder "PoolClaimO d"]
    subnet_created_requests [OF assms(1,2)] pool_status_requests(2) [OF assms(1), of "CreateEvent (SubnetO x)"] watch_lawsD(5) [OF assms(1)] assms(2,3)
  by (simp add: claim_builder_def poolclaim_builder_def mapAllocToPool_def Let_def)

theorem creations_noticed_witness:
  "set (fst (controller_requests mem_watch mem_kube (subnet_builder '''') (CreateEvent (SubnetO (paged_subnet ''10.0.0.0/24''))) (\<lambda>_. None, pool_world)))
     = {(''ns'', ''10.0.0.0/24''), (''ns'', ''p'')}"
  using creations_noticed [OF mem_watch_laws, of "paged_subnet ''10.0.0.0/24''" _ mem_kube "''''" "(\<lambda>_. None, pool_world)"]
  by (simp add: paged_subnet_def empty_meta_def meta_key_def)

end
