(* ===== verification/Gauge_Locks.thy ===== *)
theory Gauge_Locks
  imports Metrics
begin

text \<open>
  The registry of \<^verbatim>\<open>metrics_static.go\<close> under its \<^verbatim>\<open>sync.RWMutex\<close>: the goroutines
  of the controllers and of the watch handlers call it at the same time. A goroutine is at a
  program point; every access of the map and every lock operation is one step, and steps of
  all goroutines interleave. The lemmas show that the double check of
  \<open>registerPoolGaugeForSize\<close> and the other operations behave as if each were one step: the
  machine refines the registry with atomic operations, which are the functions of \<open>Metrics\<close>.
\<close>

section \<open>Objects with atomic operations\<close>

datatype ('op, 'res) label = CallL nat 'op | RetL nat 'op 'res

datatype ('op, 'res) phase = Ready | Called 'op | Answered 'op 'res

text \<open>
  The specification: a goroutine calls an operation, at one later moment the operation is
  applied to the object as a whole, and later still the answer is returned. The list holds the
  calls and returns in their order.
\<close>

inductive atomic_run ::
    "('op \<Rightarrow> 'a \<Rightarrow> 'res \<times> 'a) \<Rightarrow> (nat \<Rightarrow> ('op, 'res) phase) \<times> 'a \<Rightarrow> ('op, 'res) label list
     \<Rightarrow> (nat \<Rightarrow> ('op, 'res) phase) \<times> 'a \<Rightarrow> bool" for app s where
  start: "atomic_run app s [] s"
| call: "atomic_run app s tr (ps, x) \<Longrightarrow> ps i = Ready \<Longrightarrow> atomic_run app s (tr @ [CallL i op]) (ps(i := Called op), x)"
| commit: "atomic_run app s tr (ps, x) \<Longrightarrow> ps i = Called op \<Longrightarrow> app op x = (res, y) \<Longrightarrow>
     atomic_run app s tr (ps(i := Answered op res), y)"
| return: "atomic_run app s tr (ps, x) \<Longrightarrow> ps i = Answered op res \<Longrightarrow>
     atomic_run app s (tr @ [RetL i op res]) (ps(i := Ready), x)"

text \<open>What holds of every operation alone holds of every interleaving.\<close>

locale atomic_object =
  fixes app :: "'op \<Rightarrow> 'a \<Rightarrow> 'res \<times> 'a" and good :: "'a \<Rightarrow> bool" and answers :: "'op \<Rightarrow> 'res \<Rightarrow> bool"
  assumes app_good: "good x \<Longrightarrow> app op x = (res, y) \<Longrightarrow> good y"
    and app_answers: "good x \<Longrightarrow> app op x = (res, y) \<Longrightarrow> answers op res"
begin

lemma run_good:
  assumes "atomic_run app (\<lambda>_. Ready, x) tr t" and "good x"
  shows "good (snd t) \<and> (\<forall>i op res. fst t i = Answered op res \<longrightarrow> answers op res)
    \<and> (\<forall>i op res. RetL i op res \<in> set tr \<longrightarrow> answers op res)"
  using assms(1)
proof (induction rule: atomic_run.induct)
  case start
  then show ?case using assms(2) by simp
next
  case (commit tr ps y i op res z)
  then show ?case using app_good [of y op res z] app_answers [of y op res z] by auto
qed (auto split: if_splits)

end

section \<open>The operations as atomic steps\<close>

text \<open>
  The parts of the code between two lock operations. \<open>RegisterPoolGauges\<close> and
  \<open>ensurePoolGauge\<close> are made of several of them.
\<close>

datatype gauge_op = GetOp string string | RegisterOp string string | InitOp string | UnregisterOp string

datatype gauge_res = Looked "gauge option" | Given gauge | Nothing

definition init_pool :: "string \<Rightarrow> registry \<Rightarrow> registry" where
  "init_pool poolName r = (if r poolName = None then r(poolName \<mapsto> (\<lambda>_. None)) else r)"

fun gauge_apply :: "'w kube \<Rightarrow> gauge_op \<Rightarrow> registry \<times> 'w \<Rightarrow> gauge_res \<times> registry \<times> 'w" where
  "gauge_apply k (GetOp p z) s = (Looked (getPoolGauge (fst s) p z), s)"
| "gauge_apply k (RegisterOp p z) s = (case registerPoolGaugeForSize k p z s of (g, t) \<Rightarrow> (Given g, t))"
| "gauge_apply k (InitOp p) s = (Nothing, init_pool p (fst s), snd s)"
| "gauge_apply k (UnregisterOp p) s = (Nothing, unregisterPoolGauges k p s)"

lemma RegisterPoolGauges_ops:
  "RegisterPoolGauges k p s =
     (let s1 = snd (gauge_apply k (RegisterOp p ''24'') (snd (gauge_apply k (InitOp p) s)))
      in fold (\<lambda>z s. if z \<noteq> ''24'' then snd (gauge_apply k (RegisterOp p z) s) else s) (k_order k (snd s1) commonSizes) s1)"
proof -
  have "snd (gauge_apply k (RegisterOp p z) t) = snd (registerPoolGaugeForSize k p z t)" for z t
    by (simp split: prod.splits)
  then show ?thesis by (simp add: RegisterPoolGauges_def Let_def init_pool_def cong: if_cong)
qed

lemma ensurePoolGauge_ops:
  "ensurePoolGauge k p z s =
     (case gauge_apply k (GetOp p z) s of
        (Looked (Some g), t) \<Rightarrow> (g, t)
      | (_, t) \<Rightarrow> if HasPrefix p test_prefix then (nilSafeGauge, t)
                  else (case gauge_apply k (RegisterOp p z) t of (Given g, u) \<Rightarrow> (g, u)))"
  by (simp add: ensurePoolGauge_def split: option.splits prod.splits)

section \<open>The code with its lock\<close>

text \<open>
  The mutex as the goroutines that hold it: \<open>RLock\<close> waits for the writer, \<open>Lock\<close> for
  everyone. (Go also makes new readers wait behind a waiting writer; every run of the code is a
  run of this machine.)
\<close>

record 'w shared =
  rw_readers :: "nat set"
  rw_writer :: "nat option"
  sh_reg :: registry
  sh_world :: 'w

definition RLock :: "nat \<Rightarrow> 'w shared \<Rightarrow> 'w shared option" where
  "RLock i s = (if rw_writer s = None then Some (s\<lparr>rw_readers := insert i (rw_readers s)\<rparr>) else None)"

definition RUnlock :: "nat \<Rightarrow> 'w shared \<Rightarrow> 'w shared" where
  "RUnlock i s = s\<lparr>rw_readers := rw_readers s - {i}\<rparr>"

definition Lock :: "nat \<Rightarrow> 'w shared \<Rightarrow> 'w shared option" where
  "Lock i s = (if rw_writer s = None \<and> rw_readers s = {} then Some (s\<lparr>rw_writer := Some i\<rparr>) else None)"

definition Unlock :: "'w shared \<Rightarrow> 'w shared" where
  "Unlock s = s\<lparr>rw_writer := None\<rparr>"

text \<open>Program points; the name says what the next step does.\<close>

datatype pc = Idle | Finished gauge_op gauge_res | Panicked
  | GetRLock string string | GetRead string string | GetRUnlock string string "gauge option"
  | RegStart string string | RegRLock string string | RegCheck string string | RegRUnlock string string "gauge option"
  | RegLock string string | RegRecheck string string | RegCreate string string | RegNew string string
  | RegPublish string string | RegPut string string gauge | RegUnlock string string gauge
  | InitLock string | InitCheck string | InitCreate string | InitUnlock string
  | UnregLock string | UnregCheck string | UnregEach string "gauge list" | UnregDelete string | UnregUnlock string

fun entry :: "gauge_op \<Rightarrow> pc" where
  "entry (GetOp p z) = GetRLock p z"
| "entry (RegisterOp p z) = RegStart p z"
| "entry (InitOp p) = InitLock p"
| "entry (UnregisterOp p) = UnregLock p"

text \<open>
  The next step of goroutine \<open>i\<close>; \<open>None\<close>: it waits for the lock, or has nothing to do. A
  write into the map of a pool that is not there is a write into a nil map: a panic.
\<close>

fun local_step :: "'w kube \<Rightarrow> nat \<Rightarrow> pc \<Rightarrow> 'w shared \<Rightarrow> (pc \<times> 'w shared) option" where
  "local_step k i (GetRLock p z) s = map_option (Pair (GetRead p z)) (RLock i s)"
| "local_step k i (GetRead p z) s = Some (GetRUnlock p z (getPoolGauge (sh_reg s) p z), s)"
| "local_step k i (GetRUnlock p z g) s = Some (Finished (GetOp p z) (Looked g), RUnlock i s)"
| "local_step k i (RegStart p z) s =
     Some (if HasPrefix p test_prefix then Finished (RegisterOp p z) (Given nilSafeGauge) else RegRLock p z, s)"
| "local_step k i (RegRLock p z) s = map_option (Pair (RegCheck p z)) (RLock i s)"
| "local_step k i (RegCheck p z) s = Some (RegRUnlock p z (getPoolGauge (sh_reg s) p z), s)"
| "local_step k i (RegRUnlock p z g) s =
     Some (case g of Some x \<Rightarrow> Finished (RegisterOp p z) (Given x) | None \<Rightarrow> RegLock p z, RUnlock i s)"
| "local_step k i (RegLock p z) s = map_option (Pair (RegRecheck p z)) (Lock i s)"
| "local_step k i (RegRecheck p z) s =
     Some (case sh_reg s p of
             None \<Rightarrow> RegCreate p z
           | Some gauges \<Rightarrow> (case gauges z of Some g \<Rightarrow> RegUnlock p z g | None \<Rightarrow> RegNew p z), s)"
| "local_step k i (RegCreate p z) s = Some (RegNew p z, s\<lparr>sh_reg := (sh_reg s)(p \<mapsto> (\<lambda>_. None))\<rparr>)"
| "local_step k i (RegNew p z) s = Some (if z \<notin> commonSizes then RegPut p z nilSafeGauge else RegPublish p z, s)"
| "local_step k i (RegPublish p z) s =
     Some (RegPut p z (Some (p, z)), s\<lparr>sh_world := k_emit k (RegisterGauge p z) (sh_world s)\<rparr>)"
| "local_step k i (RegPut p z g) s =
     Some (case sh_reg s p of
             None \<Rightarrow> (Panicked, s)
           | Some gauges \<Rightarrow> (RegUnlock p z g, s\<lparr>sh_reg := (sh_reg s)(p \<mapsto> gauges(z \<mapsto> g))\<rparr>))"
| "local_step k i (RegUnlock p z g) s = Some (Finished (RegisterOp p z) (Given g), Unlock s)"
| "local_step k i (InitLock p) s = map_option (Pair (InitCheck p)) (Lock i s)"
| "local_step k i (InitCheck p) s = Some (if sh_reg s p = None then InitCreate p else InitUnlock p, s)"
| "local_step k i (InitCreate p) s = Some (InitUnlock p, s\<lparr>sh_reg := (sh_reg s)(p \<mapsto> (\<lambda>_. None))\<rparr>)"
| "local_step k i (InitUnlock p) s = Some (Finished (InitOp p) Nothing, Unlock s)"
| "local_step k i (UnregLock p) s = map_option (Pair (UnregCheck p)) (Lock i s)"
| "local_step k i (UnregCheck p) s =
     Some (case sh_reg s p of
             None \<Rightarrow> UnregUnlock p
           | Some gauges \<Rightarrow> UnregEach p (map (\<lambda>z. the (gauges z)) (k_order k (sh_world s) (dom gauges))), s)"
| "local_step k i (UnregEach p []) s = Some (UnregDelete p, s)"
| "local_step k i (UnregEach p (g # gs)) s =
     Some (UnregEach p gs, s\<lparr>sh_world := k_emit k (UnregisterGauge g) (sh_world s)\<rparr>)"
| "local_step k i (UnregDelete p) s = Some (UnregUnlock p, s\<lparr>sh_reg := (sh_reg s)(p := None)\<rparr>)"
| "local_step k i (UnregUnlock p) s = Some (Finished (UnregisterOp p) Nothing, Unlock s)"
| "local_step k i pc s = None"

text \<open>All goroutines together.\<close>

inductive gauge_run ::
    "'w kube \<Rightarrow> (nat \<Rightarrow> pc) \<times> 'w shared \<Rightarrow> (gauge_op, gauge_res) label list \<Rightarrow> (nat \<Rightarrow> pc) \<times> 'w shared \<Rightarrow> bool" for k s where
  start: "gauge_run k s [] s"
| call: "gauge_run k s tr (ps, x) \<Longrightarrow> ps i = Idle \<Longrightarrow> gauge_run k s (tr @ [CallL i op]) (ps(i := entry op), x)"
| inner: "gauge_run k s tr (ps, x) \<Longrightarrow> local_step k i (ps i) x = Some (c, y) \<Longrightarrow> gauge_run k s tr (ps(i := c), y)"
| return: "gauge_run k s tr (ps, x) \<Longrightarrow> ps i = Finished op res \<Longrightarrow> gauge_run k s (tr @ [RetL i op res]) (ps(i := Idle), x)"

section \<open>Who holds the lock\<close>

fun in_read :: "pc \<Rightarrow> bool" where
  "in_read (GetRead p z) = True"
| "in_read (GetRUnlock p z g) = True"
| "in_read (RegCheck p z) = True"
| "in_read (RegRUnlock p z g) = True"
| "in_read _ = False"

fun in_write :: "pc \<Rightarrow> bool" where
  "in_write (RegRecheck p z) = True"
| "in_write (RegCreate p z) = True"
| "in_write (RegNew p z) = True"
| "in_write (RegPublish p z) = True"
| "in_write (RegPut p z g) = True"
| "in_write (RegUnlock p z g) = True"
| "in_write (InitCheck p) = True"
| "in_write (InitCreate p) = True"
| "in_write (InitUnlock p) = True"
| "in_write (UnregCheck p) = True"
| "in_write (UnregEach p gs) = True"
| "in_write (UnregDelete p) = True"
| "in_write (UnregUnlock p) = True"
| "in_write _ = False"

text \<open>What a goroutine knows at its program point.\<close>

fun knows :: "registry \<Rightarrow> pc \<Rightarrow> bool" where
  "knows r Panicked = False"
| "knows r (RegRLock p z) = (\<not> HasPrefix p test_prefix)"
| "knows r (RegCheck p z) = (\<not> HasPrefix p test_prefix)"
| "knows r (RegRUnlock p z g) = (\<not> HasPrefix p test_prefix)"
| "knows r (RegLock p z) = (\<not> HasPrefix p test_prefix)"
| "knows r (RegRecheck p z) = (\<not> HasPrefix p test_prefix)"
| "knows r (RegNew p z) = (r p \<noteq> None)"
| "knows r (RegPublish p z) = (r p \<noteq> None \<and> z \<in> commonSizes)"
| "knows r (RegPut p z g) = (r p \<noteq> None)"
| "knows r _ = True"

lemma knows_outside: "\<not> in_write pc \<Longrightarrow> knows r pc = knows r' pc"
  by (cases pc) simp_all

lemma entry_outside: "\<not> in_read (entry op)" "\<not> in_write (entry op)" "knows r (entry op)"
  by (cases op; simp)+

lemma step_knows: "local_step k i pc x = Some (c, y) \<Longrightarrow> knows (sh_reg x) pc \<Longrightarrow> knows (sh_reg y) c"
  by (cases "(k, i, pc, x)" rule: local_step.cases)
    (auto simp: RLock_def RUnlock_def Lock_def Unlock_def split: if_splits option.splits)

text \<open>Every step is of one of five kinds.\<close>

lemma step_kinds:
  assumes "local_step k i pc x = Some (c, y)" and "knows (sh_reg x) pc"
  obtains (quiet) "in_read c = in_read pc" "in_write c = in_write pc" "rw_readers y = rw_readers x" "rw_writer y = rw_writer x"
      "\<not> in_write pc \<longrightarrow> y = x"
  | (rlock) "RLock i x = Some y" "\<not> in_read pc" "\<not> in_write pc" "in_read c" "\<not> in_write c"
  | (runlock) "y = RUnlock i x" "in_read pc" "\<not> in_write pc" "\<not> in_read c" "\<not> in_write c"
  | (lock) "Lock i x = Some y" "\<not> in_read pc" "\<not> in_write pc" "\<not> in_read c" "in_write c"
  | (unlock) "y = Unlock x" "\<not> in_read pc" "in_write pc" "\<not> in_read c" "\<not> in_write c"
  using assms by (cases "(k, i, pc, x)" rule: local_step.cases) (auto split: if_splits option.splits)

definition lock_inv :: "(nat \<Rightarrow> pc) \<times> 'w shared \<Rightarrow> bool" where
  "lock_inv s \<longleftrightarrow>
     (\<forall>i. in_read (fst s i) \<longleftrightarrow> i \<in> rw_readers (snd s))
     \<and> (\<forall>i. in_write (fst s i) \<longleftrightarrow> rw_writer (snd s) = Some i)
     \<and> (rw_writer (snd s) \<noteq> None \<longrightarrow> rw_readers (snd s) = {})
     \<and> (\<forall>i. knows (sh_reg (snd s)) (fst s i))"

lemma lock_inv_step:
  assumes inv: "lock_inv (ps, x)" and step: "local_step k i (ps i) x = Some (c, y)"
  shows "lock_inv (ps(i := c), y)"
proof -
  have k: "knows (sh_reg x) (ps j)" for j using inv by (simp add: lock_inv_def)
  have c: "knows (sh_reg y) c" by (rule step_knows [OF step k])
  from step k show ?thesis
  proof (cases rule: step_kinds)
    case quiet
    have "knows (sh_reg y) (ps j)" if "j \<noteq> i" for j
    proof (cases "in_write (ps i)")
      case True
      then have "\<not> in_write (ps j)" using inv that by (auto simp: lock_inv_def)
      then show ?thesis using knows_outside k by blast
    qed (use quiet k in simp)
    then show ?thesis using inv quiet c by (auto simp: lock_inv_def)
  next
    case rlock
    then show ?thesis using inv c by (auto simp: lock_inv_def RLock_def split: if_splits)
  next
    case runlock
    then show ?thesis using inv c by (auto simp: lock_inv_def RUnlock_def)
  next
    case lock
    then show ?thesis using inv c by (auto simp: lock_inv_def Lock_def split: if_splits)
  next
    case unlock
    then have "rw_writer x = Some i" using inv by (simp add: lock_inv_def)
    then show ?thesis using inv c unlock by (auto simp: lock_inv_def Unlock_def)
  qed
qed

section \<open>Refinement of the atomic registry\<close>

text \<open>
  An operation takes effect when it reads the map for its decision: before that point it has
  been called, after it the answer is known. The rest of a write section is applied in advance.
\<close>

fun abs_pc :: "pc \<Rightarrow> (gauge_op, gauge_res) phase" where
  "abs_pc Idle = Ready"
| "abs_pc (Finished op res) = Answered op res"
| "abs_pc Panicked = Ready"
| "abs_pc (GetRLock p z) = Called (GetOp p z)"
| "abs_pc (GetRead p z) = Called (GetOp p z)"
| "abs_pc (GetRUnlock p z g) = Answered (GetOp p z) (Looked g)"
| "abs_pc (RegStart p z) = Called (RegisterOp p z)"
| "abs_pc (RegRLock p z) = Called (RegisterOp p z)"
| "abs_pc (RegCheck p z) = Called (RegisterOp p z)"
| "abs_pc (RegRUnlock p z g) = (case g of None \<Rightarrow> Called (RegisterOp p z) | Some x \<Rightarrow> Answered (RegisterOp p z) (Given x))"
| "abs_pc (RegLock p z) = Called (RegisterOp p z)"
| "abs_pc (RegRecheck p z) = Called (RegisterOp p z)"
| "abs_pc (RegCreate p z) = Answered (RegisterOp p z) (Given (expected_gauge p z))"
| "abs_pc (RegNew p z) = Answered (RegisterOp p z) (Given (expected_gauge p z))"
| "abs_pc (RegPublish p z) = Answered (RegisterOp p z) (Given (expected_gauge p z))"
| "abs_pc (RegPut p z g) = Answered (RegisterOp p z) (Given g)"
| "abs_pc (RegUnlock p z g) = Answered (RegisterOp p z) (Given g)"
| "abs_pc (InitLock p) = Called (InitOp p)"
| "abs_pc (InitCheck p) = Called (InitOp p)"
| "abs_pc (InitCreate p) = Answered (InitOp p) Nothing"
| "abs_pc (InitUnlock p) = Answered (InitOp p) Nothing"
| "abs_pc (UnregLock p) = Called (UnregisterOp p)"
| "abs_pc (UnregCheck p) = Called (UnregisterOp p)"
| "abs_pc (UnregEach p gs) = Answered (UnregisterOp p) Nothing"
| "abs_pc (UnregDelete p) = Answered (UnregisterOp p) Nothing"
| "abs_pc (UnregUnlock p) = Answered (UnregisterOp p) Nothing"

definition put_gauge :: "string \<Rightarrow> string \<Rightarrow> gauge \<Rightarrow> registry \<Rightarrow> registry" where
  "put_gauge p z g r = r(p \<mapsto> (the (r p))(z \<mapsto> g))"

definition publish :: "'w kube \<Rightarrow> string \<Rightarrow> string \<Rightarrow> 'w \<Rightarrow> 'w" where
  "publish k p z w = (if z \<in> commonSizes then k_emit k (RegisterGauge p z) w else w)"

fun rest_of :: "'w kube \<Rightarrow> pc \<Rightarrow> registry \<times> 'w \<Rightarrow> registry \<times> 'w" where
  "rest_of k (RegCreate p z) (r, w) = (put_gauge p z (expected_gauge p z) (r(p \<mapsto> (\<lambda>_. None))), publish k p z w)"
| "rest_of k (RegNew p z) (r, w) = (put_gauge p z (expected_gauge p z) r, publish k p z w)"
| "rest_of k (RegPublish p z) (r, w) = (put_gauge p z (expected_gauge p z) r, publish k p z w)"
| "rest_of k (RegPut p z g) (r, w) = (put_gauge p z g r, w)"
| "rest_of k (InitCreate p) (r, w) = (r(p \<mapsto> (\<lambda>_. None)), w)"
| "rest_of k (UnregEach p gs) (r, w) = (r(p := None), fold (\<lambda>g. k_emit k (UnregisterGauge g)) gs w)"
| "rest_of k (UnregDelete p) (r, w) = (r(p := None), w)"
| "rest_of k _ s = s"

definition map_of_shared :: "'w shared \<Rightarrow> registry \<times> 'w" where
  "map_of_shared x = (sh_reg x, sh_world x)"

definition abs_obj :: "'w kube \<Rightarrow> (nat \<Rightarrow> pc) \<times> 'w shared \<Rightarrow> registry \<times> 'w" where
  "abs_obj k s = (case rw_writer (snd s) of None \<Rightarrow> map_of_shared (snd s) | Some i \<Rightarrow> rest_of k (fst s i) (map_of_shared (snd s)))"

definition abs_state :: "'w kube \<Rightarrow> (nat \<Rightarrow> pc) \<times> 'w shared \<Rightarrow> (nat \<Rightarrow> (gauge_op, gauge_res) phase) \<times> registry \<times> 'w" where
  "abs_state k s = (\<lambda>i. abs_pc (fst s i), abs_obj k s)"

lemma rest_outside: "\<not> in_write pc \<Longrightarrow> rest_of k pc s = s"
  by (cases pc; cases s) simp_all

text \<open>One step of the code is no step of the atomic registry, or the step in which the operation takes effect.\<close>

definition refines_step ::
    "'w kube \<Rightarrow> pc \<Rightarrow> registry \<times> 'w \<Rightarrow> pc \<Rightarrow> registry \<times> 'w \<Rightarrow> bool" where
  "refines_step k pc s c t \<longleftrightarrow> abs_pc c = abs_pc pc \<and> t = s
     \<or> (\<exists>op res. abs_pc pc = Called op \<and> abs_pc c = Answered op res \<and> gauge_apply k op s = (res, t))"

lemma writer_refines:
  assumes "local_step k i pc x = Some (c, y)" and "in_write pc" and "knows (sh_reg x) pc"
  shows "refines_step k pc (rest_of k pc (map_of_shared x)) c (rest_of k c (map_of_shared y))"
  using assms
  by (cases "(k, i, pc, x)" rule: local_step.cases)
    (auto simp: refines_step_def map_of_shared_def put_gauge_def publish_def expected_gauge_def Unlock_def init_pool_def
      registerPoolGaugeForSize_def unregisterPoolGauges_def getPoolGauge_def fold_map o_def Let_def
      split: if_splits option.splits)

lemma reader_refines:
  assumes "local_step k i pc x = Some (c, y)" and "\<not> in_write pc" and "knows (sh_reg x) pc" and "in_read pc \<longrightarrow> s = map_of_shared x"
  shows "refines_step k pc s c s"
  using assms
  by (cases "(k, i, pc, x)" rule: local_step.cases)
    (auto simp: refines_step_def map_of_shared_def registerPoolGaugeForSize_def getPoolGauge_def split: if_splits option.splits prod.splits)

lemma outside_shared:
  assumes "local_step k i pc x = Some (c, y)" and "\<not> in_write pc"
  shows "map_of_shared y = map_of_shared x"
    and "in_write c \<Longrightarrow> abs_pc c = abs_pc pc \<and> rest_of k c s = s"
    and "\<not> in_write c \<Longrightarrow> rw_writer y = rw_writer x"
  using assms
  by (cases "(k, i, pc, x)" rule: local_step.cases;
      auto simp: map_of_shared_def RLock_def RUnlock_def Lock_def split: if_splits option.splits)+

lemma step_refines:
  assumes inv: "lock_inv (ps, x)" and step: "local_step k i (ps i) x = Some (c, y)"
  shows "refines_step k (ps i) (abs_obj k (ps, x)) c (abs_obj k (ps(i := c), y))"
proof -
  have kn: "knows (sh_reg x) (ps i)" and w: "in_write (ps i) \<longleftrightarrow> rw_writer x = Some i"
    and rd: "in_read (ps i) \<Longrightarrow> rw_writer x = None"
    using inv by (auto simp: lock_inv_def)
  show ?thesis
  proof (cases "in_write (ps i)")
    case True
    then have "abs_obj k (ps, x) = rest_of k (ps i) (map_of_shared x)" using w by (simp add: abs_obj_def)
    moreover have "abs_obj k (ps(i := c), y) = rest_of k c (map_of_shared y)"
      using step kn by (cases rule: step_kinds) (use True w in \<open>simp_all add: abs_obj_def Unlock_def rest_outside\<close>)
    ultimately show ?thesis using writer_refines [OF step True kn] by simp
  next
    case False
    note same = outside_shared [OF step False]
    show ?thesis
    proof (cases "in_write c")
      case True
      have "rw_writer x = None \<and> rw_writer y = Some i"
        using step kn by (cases rule: step_kinds) (use True False in \<open>auto simp: Lock_def split: if_splits\<close>)
      then show ?thesis using same(1) same(2) [OF True] by (simp add: refines_step_def abs_obj_def)
    next
      case c: False
      have "abs_obj k (ps(i := c), y) = abs_obj k (ps, x)"
        using same(1) same(3) [OF c] w False by (auto simp: abs_obj_def split: option.splits)
      moreover have "in_read (ps i) \<longrightarrow> abs_obj k (ps, x) = map_of_shared x" using rd by (simp add: abs_obj_def)
      ultimately show ?thesis using reader_refines [OF step False kn] by simp
    qed
  qed
qed

definition free_lock :: "registry \<Rightarrow> 'w \<Rightarrow> 'w shared" where
  "free_lock r w = \<lparr>rw_readers = {}, rw_writer = None, sh_reg = r, sh_world = w\<rparr>"

lemma outside_update:
  assumes "lock_inv (ps, x)" and "\<not> in_read (ps i)" "\<not> in_write (ps i)" and "\<not> in_read c" "\<not> in_write c" "knows (sh_reg x) c"
  shows "lock_inv (ps(i := c), x)" and "abs_obj k (ps(i := c), x) = abs_obj k (ps, x)"
proof -
  have w: "rw_writer x \<noteq> Some i" and r: "i \<notin> rw_readers x" using assms(1-3) unfolding lock_inv_def by auto
  show "lock_inv (ps(i := c), x)" using assms w r by (auto simp: lock_inv_def)
  show "abs_obj k (ps(i := c), x) = abs_obj k (ps, x)" using w by (auto simp: abs_obj_def split: option.splits)
qed

lemma abs_state_upd: "abs_state k (ps(i := c), x) = ((\<lambda>j. abs_pc (ps j))(i := abs_pc c), abs_obj k (ps(i := c), x))"
  by (simp add: abs_state_def fun_eq_iff)

lemma gauge_run_refines:
  assumes "gauge_run k (\<lambda>_. Idle, free_lock r w) tr t"
  shows "lock_inv t \<and> atomic_run (gauge_apply k) (\<lambda>_. Ready, r, w) tr (abs_state k t)"
  using assms
proof (induction rule: gauge_run.induct)
  case start
  show ?case by (simp add: lock_inv_def free_lock_def abs_state_def abs_obj_def map_of_shared_def atomic_run.start)
next
  case (call tr ps x i op)
  then have "lock_inv (ps, x)" by simp
  note upd = outside_update [OF this, of i "entry op", OF _ _ entry_outside]
  have "abs_pc (entry op) = Called op" by (cases op) simp_all
  with call atomic_run.call [of "gauge_apply k" _ tr "\<lambda>i. abs_pc (ps i)" "abs_obj k (ps, x)" i op] upd
  show ?case by (simp add: abs_state_upd abs_state_def [of k "(ps, x)"])
next
  case (inner tr ps x i c y)
  then have inv: "lock_inv (ps, x)" and run: "atomic_run (gauge_apply k) (\<lambda>_. Ready, r, w) tr (\<lambda>i. abs_pc (ps i), abs_obj k (ps, x))"
    by (simp_all add: abs_state_def)
  have "atomic_run (gauge_apply k) (\<lambda>_. Ready, r, w) tr ((\<lambda>i. abs_pc (ps i))(i := abs_pc c), abs_obj k (ps(i := c), y))"
    using step_refines [OF inv inner.hyps(2)] run
    unfolding refines_step_def by (auto simp: fun_upd_idem intro: atomic_run.commit [OF run])
  then show ?case using lock_inv_step [OF inv inner.hyps(2)] by (simp add: abs_state_upd abs_state_def [of k "(ps, x)"])
next
  case (return tr ps x i op res)
  then have "lock_inv (ps, x)" by simp
  note upd = outside_update [OF this, of i Idle]
  from return atomic_run.return [of "gauge_apply k" _ tr "\<lambda>i. abs_pc (ps i)" "abs_obj k (ps, x)" i op res] upd
  show ?case by (simp add: abs_state_upd abs_state_def [of k "(ps, x)"])
qed

section \<open>Progress\<close>

fun busy :: "pc \<Rightarrow> bool" where
  "busy Idle = False"
| "busy (Finished op res) = False"
| "busy _ = True"

lemma holder_moves: "in_read pc \<or> in_write pc \<Longrightarrow> local_step k i pc x \<noteq> None"
  by (cases "(k, i, pc, x)" rule: local_step.cases) simp_all

lemma free_moves:
  "busy pc \<Longrightarrow> knows r pc \<Longrightarrow> rw_writer x = None \<Longrightarrow> rw_readers x = {} \<Longrightarrow> local_step k i pc x \<noteq> None"
  by (cases "(k, i, pc, x)" rule: local_step.cases) (simp_all add: RLock_def Lock_def)

lemma no_deadlock:
  assumes inv: "lock_inv (ps, x)" and "busy (ps i)"
  shows "\<exists>j. local_step k j (ps j) x \<noteq> None"
proof (cases "rw_writer x")
  case (Some j)
  then have "in_write (ps j)" using inv by (simp add: lock_inv_def)
  then show ?thesis using holder_moves by blast
next
  case None
  show ?thesis
  proof (cases "rw_readers x = {}")
    case True
    then show ?thesis using None assms free_moves [of "ps i" "sh_reg x" x k i] by (auto simp: lock_inv_def)
  next
    case False
    then obtain j where "j \<in> rw_readers x" by blast
    then have "in_read (ps j)" using inv by (simp add: lock_inv_def)
    then show ?thesis using holder_moves by blast
  qed
qed

section \<open>The registry under concurrency\<close>

text \<open>The answers an operation may give: the stored labels are those of the pool and the size asked for.\<close>

fun gauge_answers :: "gauge_op \<Rightarrow> gauge_res \<Rightarrow> bool" where
  "gauge_answers (GetOp p z) (Looked (Some g)) = (g = expected_gauge p z)"
| "gauge_answers (GetOp p z) (Looked None) = True"
| "gauge_answers (RegisterOp p z) (Given g) = (g = (if HasPrefix p test_prefix then nilSafeGauge else expected_gauge p z))"
| "gauge_answers (InitOp p) Nothing = True"
| "gauge_answers (UnregisterOp p) Nothing = True"
| "gauge_answers _ _ = False"

lemma gauge_apply_good:
  assumes "reg_ok (fst s)" and "gauge_apply k op s = (res, t)"
  shows "reg_ok (fst t) \<and> gauge_answers op res"
proof (cases op)
  case (GetOp p z)
  then show ?thesis using assms by (cases "getPoolGauge (fst s) p z") (auto simp: reg_ok_def)
next
  case (RegisterOp p z)
  obtain g r w where e: "registerPoolGaugeForSize k p z (fst s, snd s) = (g, r, w)"
    by (cases "registerPoolGaugeForSize k p z (fst s, snd s)")
  show ?thesis
  proof (cases "HasPrefix p test_prefix")
    case True
    then show ?thesis using assms RegisterOp by (auto simp: registerPoolGaugeForSize_def split: prod.splits)
  next
    case False
    then show ?thesis
      using registerPoolGaugeForSize_post(1,4) [OF False assms(1) e] assms(2) e RegisterOp by auto
  qed
next
  case (InitOp p)
  then show ?thesis using assms by (auto simp: init_pool_def reg_ok_def getPoolGauge_def split: if_splits)
next
  case (UnregisterOp p)
  then have "fst t = (fst s)(p := None)" "res = Nothing" using assms(2) unregisterPoolGauges_fst [of k p "fst s" "snd s"] by auto
  then show ?thesis using assms(1) UnregisterOp by (auto simp: reg_ok_def getPoolGauge_del split: if_splits)
qed

interpretation gr: atomic_object "gauge_apply k" "\<lambda>s. reg_ok (fst s)" gauge_answers for k
  by unfold_locales (use gauge_apply_good in blast)+

section \<open>Schedules\<close>

text \<open>A run from the moves of its goroutines, for evaluation; \<open>None\<close>: a move is not possible.\<close>

datatype move = CallM nat gauge_op | StepM nat | ReturnM nat

fun exec_moves ::
    "'w kube \<Rightarrow> move list \<Rightarrow> (gauge_op, gauge_res) label list \<times> (nat \<Rightarrow> pc) \<times> 'w shared
     \<Rightarrow> ((gauge_op, gauge_res) label list \<times> (nat \<Rightarrow> pc) \<times> 'w shared) option" where
  "exec_moves k [] s = Some s"
| "exec_moves k (CallM i op # ms) (tr, ps, x) =
     (if ps i = Idle then exec_moves k ms (tr @ [CallL i op], ps(i := entry op), x) else None)"
| "exec_moves k (StepM i # ms) (tr, ps, x) =
     (case local_step k i (ps i) x of None \<Rightarrow> None | Some (c, y) \<Rightarrow> exec_moves k ms (tr, ps(i := c), y))"
| "exec_moves k (ReturnM i # ms) (tr, ps, x) =
     (case ps i of Finished op res \<Rightarrow> exec_moves k ms (tr @ [RetL i op res], ps(i := Idle), x) | _ \<Rightarrow> None)"

lemma exec_moves_run:
  "exec_moves k ms (tr, ps, x) = Some (tr', ps', x') \<Longrightarrow> gauge_run k s tr (ps, x) \<Longrightarrow> gauge_run k s tr' (ps', x')"
proof (induction ms arbitrary: tr ps x)
  case (Cons m ms)
  show ?case
  proof (cases m)
    case (CallM i op)
    then have "ps i = Idle" using Cons.prems(1) by (simp split: if_splits)
    then show ?thesis
      using CallM Cons.prems(1) by (auto intro: Cons.IH gauge_run.call [OF Cons.prems(2)])
  next
    case (StepM i)
    then obtain c y where "local_step k i (ps i) x = Some (c, y)" using Cons.prems(1) by (auto split: option.splits)
    then show ?thesis
      using StepM Cons.prems(1) by (auto intro: Cons.IH gauge_run.inner [OF Cons.prems(2)])
  next
    case (ReturnM i)
    then obtain op res where "ps i = Finished op res" using Cons.prems(1) by (auto split: pc.splits)
    then show ?thesis
      using ReturnM Cons.prems(1) by (auto intro: Cons.IH gauge_run.return [OF Cons.prems(2)])
  qed
qed simp

lemma abs_obj_free: "rw_writer x = None \<Longrightarrow> abs_obj k (ps, x) = (sh_reg x, sh_world x)"
  by (simp add: abs_obj_def map_of_shared_def)

text \<open>Two goroutines that register the same gauge: both miss it in the first check, the second finds it in the second check.\<close>

definition gauge_race :: "move list" where
  "gauge_race = [CallM 0 (RegisterOp ''a'' ''24''), CallM 1 (RegisterOp ''a'' ''24''), StepM 0, StepM 1, StepM 0, StepM 1, StepM 0,
     StepM 1, StepM 0, StepM 1, StepM 0, StepM 0, StepM 0, StepM 0, StepM 0, StepM 0, StepM 0, StepM 1, StepM 1, StepM 1, ReturnM 1, ReturnM 0]"

definition gauge_store :: store where
  "gauge_store = \<lparr>st_pools = [], st_subnets = [], st_claims = [], st_poolclaims = [], st_log = []\<rparr>"

lemma gauge_race_run:
  "\<exists>ps x. gauge_run mem_kube (\<lambda>_. Idle, free_lock Map.empty gauge_store)
     [CallL 0 (RegisterOp ''a'' ''24''), CallL 1 (RegisterOp ''a'' ''24''),
      RetL 1 (RegisterOp ''a'' ''24'') (Given (Some (''a'', ''24''))), RetL 0 (RegisterOp ''a'' ''24'') (Given (Some (''a'', ''24'')))] (ps, x)
     \<and> rw_writer x = None \<and> sh_reg x = [''a'' \<mapsto> [''24'' \<mapsto> Some (''a'', ''24'')]]
     \<and> st_log (sh_world x) = [RegisterGauge ''a'' ''24'']"
proof -
  have "\<exists>ps x. exec_moves mem_kube gauge_race ([], \<lambda>_. Idle, free_lock Map.empty gauge_store) =
      Some ([CallL 0 (RegisterOp ''a'' ''24''), CallL 1 (RegisterOp ''a'' ''24''),
        RetL 1 (RegisterOp ''a'' ''24'') (Given (Some (''a'', ''24''))), RetL 0 (RegisterOp ''a'' ''24'') (Given (Some (''a'', ''24'')))], ps, x)
      \<and> rw_writer x = None \<and> sh_reg x = [''a'' \<mapsto> [''24'' \<mapsto> Some (''a'', ''24'')]]
      \<and> st_log (sh_world x) = [RegisterGauge ''a'' ''24'']"
    by (simp add: gauge_race_def free_lock_def gauge_store_def test_prefix_def RLock_def RUnlock_def Lock_def Unlock_def
        getPoolGauge_def commonSizes_def mem_kube_def insert_Diff_if)
  then show ?thesis using exec_moves_run [OF _ gauge_run.start] by blast
qed

section \<open>Properties\<close>

text \<open>
  C10. The registry of gauges is linearizable: whatever goroutines call it and however their
  steps interleave, the calls and returns are those of a registry whose operations happen in
  one step, each between its call and its return; when nobody holds the write lock the map is
  the one of that registry. No goroutine panics on a nil map, readers and a writer never hold
  the lock together, and while a goroutine is inside an operation some goroutine can move.
\<close>

theorem gauge_registry_linearizable:
  assumes "gauge_run k (\<lambda>_. Idle, free_lock r w) tr (ps, x)"
  shows "(\<exists>qs s. atomic_run (gauge_apply k) (\<lambda>_. Ready, r, w) tr (qs, s) \<and> (rw_writer x = None \<longrightarrow> s = (sh_reg x, sh_world x)))
    \<and> (\<forall>i. ps i \<noteq> Panicked) \<and> (\<forall>i j. in_write (ps i) \<and> (in_write (ps j) \<or> in_read (ps j)) \<longrightarrow> i = j)
    \<and> (\<forall>i. busy (ps i) \<longrightarrow> (\<exists>j. local_step k j (ps j) x \<noteq> None))"
proof -
  have inv: "lock_inv (ps, x)" and run: "atomic_run (gauge_apply k) (\<lambda>_. Ready, r, w) tr (abs_state k (ps, x))"
    using gauge_run_refines [OF assms] by simp_all
  have "ps i \<noteq> Panicked" for i
  proof
    assume "ps i = Panicked"
    moreover have "knows (sh_reg x) (ps i)" using inv by (simp add: lock_inv_def)
    ultimately show False by simp
  qed
  moreover have "i = j" if "in_write (ps i)" "in_write (ps j) \<or> in_read (ps j)" for i j
    using inv that by (auto simp: lock_inv_def)
  moreover have "\<exists>qs s. atomic_run (gauge_apply k) (\<lambda>_. Ready, r, w) tr (qs, s) \<and> (rw_writer x = None \<longrightarrow> s = (sh_reg x, sh_world x))"
    using run abs_obj_free [of x k ps] by (intro exI [of _ "\<lambda>i. abs_pc (ps i)"] exI [of _ "abs_obj k (ps, x)"]) (simp add: abs_state_def)
  ultimately show ?thesis using no_deadlock [OF inv] by blast
qed

theorem gauge_registry_linearizable_witness:
  "\<exists>qs s. atomic_run (gauge_apply mem_kube) (\<lambda>_. Ready, Map.empty, gauge_store)
     [CallL 0 (RegisterOp ''a'' ''24''), CallL 1 (RegisterOp ''a'' ''24''),
      RetL 1 (RegisterOp ''a'' ''24'') (Given (Some (''a'', ''24''))), RetL 0 (RegisterOp ''a'' ''24'') (Given (Some (''a'', ''24'')))] (qs, s)
     \<and> fst s = [''a'' \<mapsto> [''24'' \<mapsto> Some (''a'', ''24'')]]"
proof -
  obtain ps x where run: "gauge_run mem_kube (\<lambda>_. Idle, free_lock Map.empty gauge_store)
     [CallL 0 (RegisterOp ''a'' ''24''), CallL 1 (RegisterOp ''a'' ''24''),
      RetL 1 (RegisterOp ''a'' ''24'') (Given (Some (''a'', ''24''))), RetL 0 (RegisterOp ''a'' ''24'') (Given (Some (''a'', ''24'')))] (ps, x)"
    and x: "rw_writer x = None" "sh_reg x = [''a'' \<mapsto> [''24'' \<mapsto> Some (''a'', ''24'')]]"
    using gauge_race_run by blast
  show ?thesis using gauge_registry_linearizable [OF run] x by fastforce
qed

text \<open>
  C32. Under any interleaving of registrations, look-ups and removals the registry stays
  consistent, and every gauge that is handed out carries the labels of the pool and the size
  that were asked for, or is the shared one for an uncommon size or the reserved prefix: no
  caller gets a gauge of another pool, and a registration never yields nil.
\<close>

theorem concurrent_gauges_own_labels:
  assumes "gauge_run k (\<lambda>_. Idle, free_lock r w) tr (ps, x)" and "reg_ok r"
  shows "(rw_writer x = None \<longrightarrow> reg_ok (sh_reg x))
    \<and> (\<forall>i p z g. RetL i (RegisterOp p z) (Given g) \<in> set tr \<longrightarrow>
         g = (if HasPrefix p test_prefix then nilSafeGauge else expected_gauge p z))
    \<and> (\<forall>i p z g. RetL i (GetOp p z) (Looked (Some g)) \<in> set tr \<longrightarrow> g = expected_gauge p z)"
proof -
  have run: "atomic_run (gauge_apply k) (\<lambda>_. Ready, r, w) tr (abs_state k (ps, x))"
    using gauge_run_refines [OF assms(1)] by simp
  note good = gr.run_good [OF run]
  have "rw_writer x = None \<longrightarrow> reg_ok (sh_reg x)"
    using good assms(2) abs_obj_free [of x k ps] by (auto simp: abs_state_def)
  then show ?thesis using good assms(2) by fastforce
qed

theorem concurrent_gauges_own_labels_witness:
  "\<exists>ps x. gauge_run mem_kube (\<lambda>_. Idle, free_lock Map.empty gauge_store)
     [CallL 0 (RegisterOp ''a'' ''24''), CallL 1 (RegisterOp ''a'' ''24''),
      RetL 1 (RegisterOp ''a'' ''24'') (Given (Some (''a'', ''24''))), RetL 0 (RegisterOp ''a'' ''24'') (Given (Some (''a'', ''24'')))] (ps, x)
     \<and> reg_ok (sh_reg x) \<and> Some (''a'', ''24'') = expected_gauge ''a'' ''24''"
proof -
  obtain ps x where run: "gauge_run mem_kube (\<lambda>_. Idle, free_lock Map.empty gauge_store)
     [CallL 0 (RegisterOp ''a'' ''24''), CallL 1 (RegisterOp ''a'' ''24''),
      RetL 1 (RegisterOp ''a'' ''24'') (Given (Some (''a'', ''24''))), RetL 0 (RegisterOp ''a'' ''24'') (Given (Some (''a'', ''24'')))] (ps, x)"
    and x: "rw_writer x = None"
    using gauge_race_run by blast
  have "reg_ok Map.empty" by (simp add: reg_ok_def getPoolGauge_def)
  moreover have "\<not> HasPrefix ''a'' test_prefix" by (simp add: test_prefix_def)
  ultimately show ?thesis using concurrent_gauges_own_labels [OF run] run x by force
qed

end
