(* ===== verification/Deep_Copy.thy ===== *)
theory Deep_Copy
  imports Api_Types "HOL-Library.List_Lexorder" "HOL-Library.Char_ord"
begin

text \<open>
  \<^verbatim>\<open>api/v1alpha1/zz_generated.deepcopy.go\<close> on an explicit heap. The other theories
  pass resources by value. In the code a resource is a struct whose maps, slices and optional
  fields are references, so that two structs may share them; the controllers take a deep copy
  as the base of a patch and then change the original. The lemmas show that a deep copy has
  the same value as its original and shares nothing with it. A pointer to a struct is an
  \<open>option\<close> of the struct; the copying functions of \<^verbatim>\<open>apimachinery\<close> are parameters.
\<close>

section \<open>Heap\<close>

type_synonym addr = nat

text \<open>A slice refers to an array, with the first element and the length.\<close>

datatype slice = NilSlice | Slice addr nat nat

type_synonym TypeMeta = "string \<times> string"

text \<open>The structs as they lie in memory; \<open>'m\<close> is the struct \<open>ObjectMeta\<close> of \<^verbatim>\<open>apimachinery\<close>.\<close>

record SubnetStatus_raw =
  rsn_Phase :: string
  rsn_AllocatedAt :: "addr option"

record 'm Subnet_raw =
  rsn_TypeMeta :: TypeMeta
  rsn_ObjectMeta :: 'm
  rsn_Spec :: SubnetSpec
  rsn_Status :: SubnetStatus_raw

record SubnetClaimStatus_raw =
  rsc_ObservedGeneration :: int
  rsc_Phase :: string
  rsc_AllocatedCIDR :: string
  rsc_Message :: string
  rsc_Conditions :: slice

record 'm SubnetClaim_raw =
  rsc_TypeMeta :: TypeMeta
  rsc_ObjectMeta :: 'm
  rsc_Spec :: SubnetClaimSpec
  rsc_Status :: SubnetClaimStatus_raw

record SubnetPoolStatus_raw =
  rsp_ObservedGeneration :: int
  rsp_AllocatedCount :: int
  rsp_FreeCountBySize :: "addr option"
  rsp_AllocatedCIDRs :: "addr option"
  rsp_Conditions :: slice

record 'm SubnetPool_raw =
  rsp_TypeMeta :: TypeMeta
  rsp_ObjectMeta :: 'm
  rsp_Spec :: SubnetPoolSpec
  rsp_Status :: SubnetPoolStatus_raw

record SubnetPoolClaimStatus_raw =
  rpc_ObservedGeneration :: int
  rpc_Phase :: string
  rpc_BoundPoolName :: string
  rpc_Message :: string
  rpc_Conditions :: slice

record 'm SubnetPoolClaim_raw =
  rpc_TypeMeta :: TypeMeta
  rpc_ObjectMeta :: 'm
  rpc_Spec :: SubnetPoolClaimSpec
  rpc_Status :: SubnetPoolClaimStatus_raw

text \<open>What an address can hold; \<open>'x\<close> is what the library's structs refer to.\<close>

datatype ('m, 'x) cell = TimeCell int | IntMap "string \<rightharpoonup> int" | StrMap "string \<rightharpoonup> string" | CondArr "Condition list"
  | SubnetArr "'m Subnet_raw list" | ClaimArr "'m SubnetClaim_raw list" | PoolArr "'m SubnetPool_raw list"
  | PoolClaimArr "'m SubnetPoolClaim_raw list" | Foreign 'x

record ('m, 'x) heap =
  cells :: "addr \<rightharpoonup> ('m, 'x) cell"
  lim :: addr

definition good_heap :: "('m, 'x) heap \<Rightarrow> bool" where
  "good_heap h \<longleftrightarrow> dom (cells h) \<subseteq> {..<lim h}"

definition alloc :: "('m, 'x) cell \<Rightarrow> ('m, 'x) heap \<Rightarrow> addr \<times> ('m, 'x) heap" where
  "alloc c h = (lim h, h\<lparr>cells := (cells h)(lim h \<mapsto> c), lim := Suc (lim h)\<rparr>)"

definition put_cell :: "addr \<Rightarrow> ('m, 'x) cell \<Rightarrow> ('m, 'x) heap \<Rightarrow> ('m, 'x) heap" where
  "put_cell a c h = h\<lparr>cells := (cells h)(a \<mapsto> c)\<rparr>"

text \<open>A heap in which everything that was there is still the same.\<close>

definition extends :: "('m, 'x) heap \<Rightarrow> ('m, 'x) heap \<Rightarrow> bool" where
  "extends h h' \<longleftrightarrow> good_heap h' \<and> lim h \<le> lim h' \<and> (\<forall>a < lim h. cells h' a = cells h a)"

lemma good_cell: "good_heap h \<Longrightarrow> cells h a = Some c \<Longrightarrow> a < lim h"
  by (auto simp: good_heap_def)

lemma extends_refl: "good_heap h \<Longrightarrow> extends h h"
  by (simp add: extends_def)

lemma extends_trans [trans]: "extends h h' \<Longrightarrow> extends h' h'' \<Longrightarrow> extends h h''"
  by (auto simp: extends_def)

lemma extends_good: "extends h h' \<Longrightarrow> good_heap h' \<and> lim h \<le> lim h'"
  by (simp add: extends_def)

lemma alloc_extends: "good_heap h \<Longrightarrow> alloc c h = (a, h') \<Longrightarrow> extends h h' \<and> a = lim h \<and> lim h' = Suc a \<and> cells h' a = Some c"
  by (fastforce simp: alloc_def extends_def good_heap_def)

lemma put_extends: "extends h h' \<Longrightarrow> lim h \<le> a \<Longrightarrow> a < lim h' \<Longrightarrow> extends h (put_cell a c h')"
  by (auto simp: put_cell_def extends_def good_heap_def)

section \<open>The contract of a deep copy\<close>

text \<open>
  \<open>owns\<close> are the addresses a value refers to, at any depth; \<open>view\<close> is the value as the other
  theories have it; \<open>valid\<close> says that the references lead to cells of the right type. The view
  depends on the owned cells only. The copy is valid in a heap that extends the old one, has
  the view of the original and refers to new cells only.
\<close>

locale deep_copier =
  fixes cp :: "'r \<Rightarrow> ('m, 'x) heap \<Rightarrow> 'r \<times> ('m, 'x) heap" and owns :: "('m, 'x) heap \<Rightarrow> 'r \<Rightarrow> addr set"
    and view :: "('m, 'x) heap \<Rightarrow> 'r \<Rightarrow> 'v" and valid :: "('m, 'x) heap \<Rightarrow> 'r \<Rightarrow> bool"
  assumes frame: "\<And>h h' :: ('m, 'x) heap. valid h x \<Longrightarrow> \<forall>a \<in> owns h x. cells h' a = cells h a \<Longrightarrow>
      valid h' x \<and> owns h' x = owns h x \<and> view h' x = view h x"
    and inside: "good_heap h \<Longrightarrow> valid h x \<Longrightarrow> owns h x \<subseteq> {..<lim h}"
    and copies: "good_heap h \<Longrightarrow> valid h x \<Longrightarrow> cp x h = (y, h') \<Longrightarrow>
      extends h h' \<and> valid h' y \<and> view h' y = view h x \<and> owns h' y \<subseteq> {lim h..<lim h'}"
begin

lemma keeps:
  assumes "extends h h'" and "good_heap h" and "valid h x"
  shows "valid h' x" and "owns h' x = owns h x" and "view h' x = view h x"
  using frame [of h x h'] inside [of h x] assms by (auto simp: extends_def)

text \<open>Neither of the two notices writes into what the other refers to.\<close>

lemma independent:
  assumes good: "good_heap h" and x: "valid h x" and c: "cp x h = (y, h')"
  shows "\<forall>a. a \<notin> owns h' y \<longrightarrow> cells g a = cells h' a \<Longrightarrow> view g x = view h x"
    and "\<forall>a. a \<notin> owns h x \<longrightarrow> cells g a = cells h' a \<Longrightarrow> view g y = view h x"
proof -
  note post = copies [OF good x c]
  have ext: "extends h h'" using post by simp
  note kept = keeps [OF ext good x]
  have disj: "owns h' y \<inter> owns h x = {}" using post inside [OF good x] by fastforce
  show "view g x = view h x" if "\<forall>a. a \<notin> owns h' y \<longrightarrow> cells g a = cells h' a"
    using frame [OF kept(1), of g] kept(2,3) disj that by auto
  show "view g y = view h x" if "\<forall>a. a \<notin> owns h x \<longrightarrow> cells g a = cells h' a"
    using frame [of h' y g] post disj that by auto
qed

end

section \<open>Slices, maps and optional times\<close>

definition elems :: "(('m, 'x) cell \<Rightarrow> 'r list option) \<Rightarrow> ('m, 'x) heap \<Rightarrow> slice \<Rightarrow> 'r list" where
  "elems prj h s =
     (case s of NilSlice \<Rightarrow> []
      | Slice a i n \<Rightarrow> (case cells h a of None \<Rightarrow> []
          | Some c \<Rightarrow> (case prj c of None \<Rightarrow> [] | Some xs \<Rightarrow> take n (drop i xs))))"

fun copy_elems :: "('r \<Rightarrow> ('m, 'x) heap \<Rightarrow> 'r \<times> ('m, 'x) heap) \<Rightarrow> 'r list \<Rightarrow> ('m, 'x) heap \<Rightarrow> 'r list \<times> ('m, 'x) heap" where
  "copy_elems cp [] h = ([], h)"
| "copy_elems cp (x # xs) h = (case cp x h of (y, h1) \<Rightarrow> case copy_elems cp xs h1 of (ys, h2) \<Rightarrow> (y # ys, h2))"

text \<open>
  The loop over a slice: \<open>make\<close> an array of the length with zero values, copy the elements in
  order into it. \<open>mk\<close> and \<open>prj\<close> make and read an array of the element type.
\<close>

definition copy_slice ::
    "('r list \<Rightarrow> ('m, 'x) cell) \<Rightarrow> (('m, 'x) cell \<Rightarrow> 'r list option) \<Rightarrow> 'r
     \<Rightarrow> ('r \<Rightarrow> ('m, 'x) heap \<Rightarrow> 'r \<times> ('m, 'x) heap) \<Rightarrow> slice \<Rightarrow> ('m, 'x) heap \<Rightarrow> slice \<times> ('m, 'x) heap" where
  "copy_slice mk prj zero cp s h =
     (if s = NilSlice then (NilSlice, h)
      else let xs = elems prj h s; (a, h1) = alloc (mk (replicate (length xs) zero)) h; (ys, h2) = copy_elems cp xs h1
           in (Slice a 0 (length xs), put_cell a (mk ys) h2))"

definition slice_owns ::
    "(('m, 'x) cell \<Rightarrow> 'r list option) \<Rightarrow> (('m, 'x) heap \<Rightarrow> 'r \<Rightarrow> addr set) \<Rightarrow> ('m, 'x) heap \<Rightarrow> slice \<Rightarrow> addr set" where
  "slice_owns prj owns h s = (case s of NilSlice \<Rightarrow> {} | Slice a i n \<Rightarrow> insert a (\<Union> (owns h ` set (elems prj h s))))"

definition slice_view ::
    "(('m, 'x) cell \<Rightarrow> 'r list option) \<Rightarrow> (('m, 'x) heap \<Rightarrow> 'r \<Rightarrow> 'v) \<Rightarrow> ('m, 'x) heap \<Rightarrow> slice \<Rightarrow> 'v list" where
  "slice_view prj view h s = map (view h) (elems prj h s)"

definition slice_valid ::
    "('r list \<Rightarrow> ('m, 'x) cell) \<Rightarrow> (('m, 'x) cell \<Rightarrow> 'r list option) \<Rightarrow> (('m, 'x) heap \<Rightarrow> 'r \<Rightarrow> bool)
     \<Rightarrow> ('m, 'x) heap \<Rightarrow> slice \<Rightarrow> bool" where
  "slice_valid mk prj valid h s =
     (case s of NilSlice \<Rightarrow> True
      | Slice a i n \<Rightarrow> (\<exists>xs. cells h a = Some (mk xs) \<and> i + n \<le> length xs) \<and> (\<forall>x \<in> set (elems prj h s). valid h x))"

lemma slice_simps [simp]:
  "slice_owns prj owns h NilSlice = {}" "slice_view prj view h NilSlice = []" "slice_valid mk prj valid h NilSlice" "elems prj h NilSlice = []"
  "slice_owns prj owns h (Slice a i n) = insert a (\<Union> (owns h ` set (elems prj h (Slice a i n))))"
  "slice_view prj view h (Slice a i n) = map (view h) (elems prj h (Slice a i n))"
  "slice_valid mk prj valid h (Slice a i n) \<longleftrightarrow>
     (\<exists>xs. cells h a = Some (mk xs) \<and> i + n \<le> length xs) \<and> (\<forall>x \<in> set (elems prj h (Slice a i n)). valid h x)"
  by (simp_all add: slice_owns_def slice_view_def slice_valid_def elems_def)

locale slice_copier = deep_copier cp owns view valid
  for cp :: "'r \<Rightarrow> ('m, 'x) heap \<Rightarrow> 'r \<times> ('m, 'x) heap" and owns and view :: "('m, 'x) heap \<Rightarrow> 'r \<Rightarrow> 'v" and valid +
  fixes mk :: "'r list \<Rightarrow> ('m, 'x) cell" and prj :: "('m, 'x) cell \<Rightarrow> 'r list option" and zero :: 'r
  assumes prj_mk: "prj (mk xs) = Some xs"
begin

lemma copy_elems_copies:
  assumes "good_heap h" and "\<forall>x \<in> set xs. valid h x" and "copy_elems cp xs h = (ys, h')"
  shows "extends h h' \<and> length ys = length xs \<and> (\<forall>y \<in> set ys. valid h' y \<and> owns h' y \<subseteq> {lim h..<lim h'})
    \<and> map (view h') ys = map (view h) xs"
  using assms
proof (induction xs arbitrary: h ys)
  case Nil
  then show ?case by (simp add: extends_refl)
next
  case (Cons x xs)
  obtain y h1 where y: "cp x h = (y, h1)" by fastforce
  obtain zs where zs: "copy_elems cp xs h1 = (zs, h')" and ys: "ys = y # zs"
    using Cons.prems(3) y by (auto split: prod.splits)
  have post: "extends h h1 \<and> valid h1 y \<and> view h1 y = view h x \<and> owns h1 y \<subseteq> {lim h..<lim h1}"
    using copies [OF Cons.prems(1) _ y] Cons.prems(2) by simp
  then have e1: "extends h h1" and g1: "good_heap h1" by (simp_all add: extends_def)
  have kept: "\<forall>x \<in> set xs. valid h1 x" "map (view h1) xs = map (view h) xs"
    using keeps [OF e1 Cons.prems(1)] Cons.prems(2) by auto
  note ih = Cons.IH [OF g1 kept(1) zs]
  then have e2: "extends h1 h'" by simp
  note y' = keeps [OF e2 g1, of y]
  show ?case using ih post y' kept(2) ys extends_trans [OF e1 e2] extends_good [OF e1] extends_good [OF e2] by fastforce
qed

lemma copy_slice_copies:
  assumes good: "good_heap h" and s: "slice_valid mk prj valid h s" and c: "copy_slice mk prj zero cp s h = (t, h')"
  shows "extends h h' \<and> slice_valid mk prj valid h' t \<and> slice_view prj view h' t = slice_view prj view h s
    \<and> slice_owns prj owns h' t \<subseteq> {lim h..<lim h'}"
proof (cases "s = NilSlice")
  case True
  then show ?thesis using c good by (simp add: copy_slice_def slice_valid_def slice_view_def slice_owns_def elems_def extends_refl)
next
  case False
  let ?xs = "elems prj h s"
  obtain a h1 where a: "alloc (mk (replicate (length ?xs) zero)) h = (a, h1)" by fastforce
  obtain ys h2 where ys: "copy_elems cp ?xs h1 = (ys, h2)" by fastforce
  have t: "t = Slice a 0 (length ?xs)" and h': "h' = put_cell a (mk ys) h2"
    using c a ys False by (simp_all add: copy_slice_def Let_def)
  note al = alloc_extends [OF good a]
  have e1: "extends h h1" and g1: "good_heap h1" using al by (simp_all add: extends_def)
  have xs: "\<forall>x \<in> set ?xs. valid h x" using s False by (cases s) simp_all
  have kept: "\<forall>x \<in> set ?xs. valid h1 x" "map (view h1) ?xs = map (view h) ?xs" using keeps [OF e1 good] xs by auto
  note post = copy_elems_copies [OF g1 kept(1) ys]
  have lims: "lim h \<le> a" "a < lim h1" "lim h1 \<le> lim h2" "lim h' = lim h2" using al post by (auto simp: h' put_cell_def extends_def)
  have same: "\<forall>b \<in> owns h2 y. cells h' b = cells h2 b" if "y \<in> set ys" for y
    using post that lims by (force simp: h' put_cell_def)
  have fr: "valid h' y \<and> owns h' y = owns h2 y \<and> view h' y = view h2 y" if "y \<in> set ys" for y
    using frame [of h2 y h'] post that same [OF that] by simp
  have el: "elems prj h' t = ys" using post by (simp add: elems_def t h' put_cell_def prj_mk)
  have "extends h h'"
    using put_extends [of h h2 a "mk ys"] extends_trans [OF e1] post lims by (simp add: h')
  moreover have "cells h' a = Some (mk ys) \<and> 0 + length ?xs \<le> length ys" using post by (simp add: h' put_cell_def)
  then have "slice_valid mk prj valid h' t" using fr el by (simp add: t) blast
  moreover have "slice_view prj view h' t = slice_view prj view h s"
    using fr post kept(2) by (simp add: slice_view_def el cong: map_cong)
  moreover have "owns h' y \<subseteq> {lim h..<lim h'}" if "y \<in> set ys" for y
    using fr [OF that] post that lims by fastforce
  then have "slice_owns prj owns h' t \<subseteq> {lim h..<lim h'}" using lims el by (simp add: t) blast
  ultimately show ?thesis by blast
qed

sublocale slices: deep_copier "copy_slice mk prj zero cp" "slice_owns prj owns" "slice_view prj view" "slice_valid mk prj valid"
proof
  fix h h' :: "('m, 'x) heap" and s
  assume v: "slice_valid mk prj valid h s" and same: "\<forall>a \<in> slice_owns prj owns h s. cells h' a = cells h a"
  show "slice_valid mk prj valid h' s \<and> slice_owns prj owns h' s = slice_owns prj owns h s
      \<and> slice_view prj view h' s = slice_view prj view h s"
  proof (cases s)
    case (Slice a i n)
    then have el: "elems prj h' (Slice a i n) = elems prj h (Slice a i n)" using same by (simp add: elems_def)
    have "valid h' x \<and> owns h' x = owns h x \<and> view h' x = view h x" if "x \<in> set (elems prj h (Slice a i n))" for x
      using frame [of h x h'] v same that Slice by auto
    then show ?thesis using v same by (simp add: Slice el)
  qed simp
next
  fix h s
  assume good: "good_heap h" and v: "slice_valid mk prj valid h s"
  show "slice_owns prj owns h s \<subseteq> {..<lim h}"
    using inside [OF good] v good by (cases s) (auto simp: good_heap_def)
qed (fact copy_slice_copies)

end

text \<open>A map is copied entry by entry, in the order \<open>ord\<close> of the iteration; a nil map stays nil.\<close>

definition copy_map ::
    "((string \<rightharpoonup> 'v) \<Rightarrow> ('m, 'x) cell) \<Rightarrow> (('m, 'x) cell \<Rightarrow> (string \<rightharpoonup> 'v) option) \<Rightarrow> (string set \<Rightarrow> string list)
     \<Rightarrow> addr option \<Rightarrow> ('m, 'x) heap \<Rightarrow> addr option \<times> ('m, 'x) heap" where
  "copy_map mk prj ord p h =
     (case p of
        None \<Rightarrow> (None, h)
      | Some q \<Rightarrow>
          let m = (case cells h q of None \<Rightarrow> Map.empty | Some c \<Rightarrow> (case prj c of None \<Rightarrow> Map.empty | Some m \<Rightarrow> m));
              (a, h1) = alloc (mk Map.empty) h
          in (Some a, put_cell a (mk (fold (\<lambda>key out. out(key := m key)) (ord (dom m)) Map.empty)) h1))"

definition map_view :: "(('m, 'x) cell \<Rightarrow> (string \<rightharpoonup> 'v) option) \<Rightarrow> ('m, 'x) heap \<Rightarrow> addr option \<Rightarrow> (string \<rightharpoonup> 'v)" where
  "map_view prj h p =
     (case p of None \<Rightarrow> Map.empty
      | Some a \<Rightarrow> (case cells h a of None \<Rightarrow> Map.empty | Some c \<Rightarrow> (case prj c of None \<Rightarrow> Map.empty | Some m \<Rightarrow> m)))"

definition map_valid :: "((string \<rightharpoonup> 'v) \<Rightarrow> ('m, 'x) cell) \<Rightarrow> ('m, 'x) heap \<Rightarrow> addr option \<Rightarrow> bool" where
  "map_valid mk h p \<longleftrightarrow> (\<forall>a. p = Some a \<longrightarrow> (\<exists>m. cells h a = Some (mk m) \<and> finite (dom m)))"

lemma fold_entries: "fold (\<lambda>key out. out(key := m key)) ks f = (\<lambda>key. if key \<in> set ks then m key else f key)"
  by (induction ks arbitrary: f) (auto simp: fun_eq_iff)

locale map_copier =
  fixes mk :: "(string \<rightharpoonup> 'v) \<Rightarrow> ('m, 'x) cell" and prj :: "('m, 'x) cell \<Rightarrow> (string \<rightharpoonup> 'v) option" and ord :: "string set \<Rightarrow> string list"
  assumes prj_mk: "prj (mk m) = Some m" and ord: "finite S \<Longrightarrow> set (ord S) = S"
begin

lemma copy_map_copies:
  assumes good: "good_heap h" and v: "map_valid mk h p" and c: "copy_map mk prj ord p h = (q, h')"
  shows "extends h h' \<and> map_valid mk h' q \<and> map_view prj h' q = map_view prj h p \<and> set_option q \<subseteq> {lim h..<lim h'}"
proof (cases p)
  case None
  then show ?thesis using c good by (simp add: copy_map_def map_valid_def map_view_def extends_refl)
next
  case (Some r)
  then obtain m where m: "cells h r = Some (mk m)" "finite (dom m)" using v by (auto simp: map_valid_def)
  obtain a h1 where a: "alloc (mk Map.empty) h = (a, h1)" by fastforce
  note al = alloc_extends [OF good a]
  have "fold (\<lambda>key out. out(key := m key)) (ord (dom m)) Map.empty = m"
    by (auto simp: fold_entries ord [OF m(2)] fun_eq_iff domIff)
  then have q: "q = Some a" and h': "h' = put_cell a (mk m) h1"
    using c a m(1) Some by (simp_all add: copy_map_def Let_def prj_mk)
  then show ?thesis
    using al put_extends [of h h1 a "mk m"] m by (auto simp: map_valid_def map_view_def put_cell_def prj_mk Some)
qed

sublocale deep_copier "copy_map mk prj ord" "\<lambda>h. set_option" "map_view prj" "map_valid mk"
proof
  fix h h' :: "('m, 'x) heap" and p
  assume v: "map_valid mk h p" and same: "\<forall>a \<in> set_option p. cells h' a = cells h a"
  then show "map_valid mk h' p \<and> set_option p = set_option p \<and> map_view prj h' p = map_view prj h p"
    by (cases p) (simp_all add: map_valid_def map_view_def)
next
  fix h p
  assume "good_heap h" and "map_valid mk h p"
  then show "set_option p \<subseteq> {..<lim h}" by (auto simp: map_valid_def intro: good_cell)
qed (fact copy_map_copies)

end

text \<open>Two copies after each other.\<close>

lemma copy_two:
  assumes "deep_copier cp1 owns1 view1 valid1" and "deep_copier cp2 owns2 view2 valid2"
    and good: "good_heap h" and x: "valid1 h x" and y: "valid2 h y"
    and c: "cp1 x h = (x', h1)" "cp2 y h1 = (y', h2)"
  shows "extends h h2" "valid1 h2 x'" "view1 h2 x' = view1 h x" "owns1 h2 x' \<subseteq> {lim h..<lim h2}"
    "valid2 h2 y'" "view2 h2 y' = view2 h y" "owns2 h2 y' \<subseteq> {lim h..<lim h2}"
proof -
  note p1 = deep_copier.copies [OF assms(1) good x c(1)]
  have e1: "extends h h1" and g1: "good_heap h1" using p1 by (simp_all add: extends_def)
  note k = deep_copier.keeps [OF assms(2) e1 good y]
  note p2 = deep_copier.copies [OF assms(2) g1 k(1) c(2)]
  have e2: "extends h1 h2" using p2 by simp
  note k1 = deep_copier.keeps [OF assms(1) e2 g1, of x']
  show "extends h h2" by (rule extends_trans [OF e1 e2])
  have l: "lim h \<le> lim h1" "lim h1 \<le> lim h2" using e1 e2 by (simp_all add: extends_def)
  show "valid1 h2 x'" "view1 h2 x' = view1 h x" using k1 p1 by simp_all
  show "owns1 h2 x' \<subseteq> {lim h..<lim h2}" using k1 p1 l by fastforce
  show "valid2 h2 y'" "view2 h2 y' = view2 h y" using p2 k by simp_all
  show "owns2 h2 y' \<subseteq> {lim h..<lim h2}" using p2 l by fastforce
qed

section \<open>The generated functions\<close>

text \<open>
  The functions of \<^verbatim>\<open>apimachinery\<close>, the zero value of its struct, and the order in which
  a map is iterated.
\<close>

record ('m, 'l, 'x) apimachinery =
  ObjectMeta_DeepCopyInto :: "'m \<Rightarrow> ('m, 'x) heap \<Rightarrow> 'm \<times> ('m, 'x) heap"
  ListMeta_DeepCopyInto :: "'l \<Rightarrow> ('m, 'x) heap \<Rightarrow> 'l \<times> ('m, 'x) heap"
  Condition_DeepCopyInto :: "Condition \<Rightarrow> Condition"
  Time_DeepCopy :: "int \<Rightarrow> int"
  zero_ObjectMeta :: 'm
  map_keys :: "string set \<Rightarrow> string list"

fun as_ints :: "('m, 'x) cell \<Rightarrow> (string \<rightharpoonup> int) option" where
  "as_ints (IntMap m) = Some m" | "as_ints _ = None"

fun as_strs :: "('m, 'x) cell \<Rightarrow> (string \<rightharpoonup> string) option" where
  "as_strs (StrMap m) = Some m" | "as_strs _ = None"

fun as_conds :: "('m, 'x) cell \<Rightarrow> Condition list option" where
  "as_conds (CondArr xs) = Some xs" | "as_conds _ = None"

fun as_subnets :: "('m, 'x) cell \<Rightarrow> 'm Subnet_raw list option" where
  "as_subnets (SubnetArr xs) = Some xs" | "as_subnets _ = None"

fun as_claims :: "('m, 'x) cell \<Rightarrow> 'm SubnetClaim_raw list option" where
  "as_claims (ClaimArr xs) = Some xs" | "as_claims _ = None"

fun as_pools :: "('m, 'x) cell \<Rightarrow> 'm SubnetPool_raw list option" where
  "as_pools (PoolArr xs) = Some xs" | "as_pools _ = None"

fun as_poolclaims :: "('m, 'x) cell \<Rightarrow> 'm SubnetPoolClaim_raw list option" where
  "as_poolclaims (PoolClaimArr xs) = Some xs" | "as_poolclaims _ = None"

definition zero_Condition :: Condition where
  "zero_Condition = \<lparr>co_Type = '''', co_Status = '''', co_ObservedGeneration = 0, co_LastTransitionTime = 0, co_Reason = '''', co_Message = ''''\<rparr>"

definition copy_conditions :: "('m, 'l, 'x) apimachinery \<Rightarrow> slice \<Rightarrow> ('m, 'x) heap \<Rightarrow> slice \<times> ('m, 'x) heap" where
  "copy_conditions a = copy_slice CondArr as_conds zero_Condition (\<lambda>c h. (Condition_DeepCopyInto a c, h))"

text \<open>Structs without references.\<close>

definition ClaimReference_DeepCopyInto :: "ClaimReference \<Rightarrow> ClaimReference" where
  "ClaimReference_DeepCopyInto x = x"

definition SubnetSpec_DeepCopyInto :: "SubnetSpec \<Rightarrow> SubnetSpec" where
  "SubnetSpec_DeepCopyInto x = x\<lparr>sn_ClaimRef := sn_ClaimRef x\<rparr>"

definition SubnetClaimSpec_DeepCopyInto :: "SubnetClaimSpec \<Rightarrow> SubnetClaimSpec" where
  "SubnetClaimSpec_DeepCopyInto x = x"

definition SubnetPoolSpec_DeepCopyInto :: "SubnetPoolSpec \<Rightarrow> SubnetPoolSpec" where
  "SubnetPoolSpec_DeepCopyInto x = x"

definition SubnetPoolClaimSpec_DeepCopyInto :: "SubnetPoolClaimSpec \<Rightarrow> SubnetPoolClaimSpec" where
  "SubnetPoolClaimSpec_DeepCopyInto x = x"

text \<open>Statuses.\<close>

definition SubnetStatus_DeepCopyInto ::
    "('m, 'l, 'x) apimachinery \<Rightarrow> SubnetStatus_raw \<Rightarrow> ('m, 'x) heap \<Rightarrow> SubnetStatus_raw \<times> ('m, 'x) heap" where
  "SubnetStatus_DeepCopyInto a x h =
     (case rsn_AllocatedAt x of
        None \<Rightarrow> (x, h)
      | Some p \<Rightarrow>
          let t = (case cells h p of Some (TimeCell t) \<Rightarrow> t | _ \<Rightarrow> 0); (q, h1) = alloc (TimeCell (Time_DeepCopy a t)) h
          in (x\<lparr>rsn_AllocatedAt := Some q\<rparr>, h1))"

definition SubnetClaimStatus_DeepCopyInto ::
    "('m, 'l, 'x) apimachinery \<Rightarrow> SubnetClaimStatus_raw \<Rightarrow> ('m, 'x) heap \<Rightarrow> SubnetClaimStatus_raw \<times> ('m, 'x) heap" where
  "SubnetClaimStatus_DeepCopyInto a x h =
     (case copy_conditions a (rsc_Conditions x) h of (c, h1) \<Rightarrow> (x\<lparr>rsc_Conditions := c\<rparr>, h1))"

definition SubnetPoolClaimStatus_DeepCopyInto ::
    "('m, 'l, 'x) apimachinery \<Rightarrow> SubnetPoolClaimStatus_raw \<Rightarrow> ('m, 'x) heap \<Rightarrow> SubnetPoolClaimStatus_raw \<times> ('m, 'x) heap" where
  "SubnetPoolClaimStatus_DeepCopyInto a x h =
     (case copy_conditions a (rpc_Conditions x) h of (c, h1) \<Rightarrow> (x\<lparr>rpc_Conditions := c\<rparr>, h1))"

definition SubnetPoolStatus_DeepCopyInto ::
    "('m, 'l, 'x) apimachinery \<Rightarrow> SubnetPoolStatus_raw \<Rightarrow> ('m, 'x) heap \<Rightarrow> SubnetPoolStatus_raw \<times> ('m, 'x) heap" where
  "SubnetPoolStatus_DeepCopyInto a x h =
     (case copy_map IntMap as_ints (map_keys a) (rsp_FreeCountBySize x) h of (f, h1) \<Rightarrow>
      case copy_map StrMap as_strs (map_keys a) (rsp_AllocatedCIDRs x) h1 of (m, h2) \<Rightarrow>
      case copy_conditions a (rsp_Conditions x) h2 of (c, h3) \<Rightarrow>
        (x\<lparr>rsp_FreeCountBySize := f, rsp_AllocatedCIDRs := m, rsp_Conditions := c\<rparr>, h3))"

text \<open>Resources.\<close>

definition Subnet_DeepCopyInto ::
    "('m, 'l, 'x) apimachinery \<Rightarrow> 'm Subnet_raw \<Rightarrow> ('m, 'x) heap \<Rightarrow> 'm Subnet_raw \<times> ('m, 'x) heap" where
  "Subnet_DeepCopyInto a x h =
     (case ObjectMeta_DeepCopyInto a (rsn_ObjectMeta x) h of (m, h1) \<Rightarrow>
      case SubnetStatus_DeepCopyInto a (rsn_Status x) h1 of (s, h2) \<Rightarrow>
        (x\<lparr>rsn_TypeMeta := rsn_TypeMeta x, rsn_ObjectMeta := m, rsn_Spec := rsn_Spec x, rsn_Status := s\<rparr>, h2))"

definition SubnetClaim_DeepCopyInto ::
    "('m, 'l, 'x) apimachinery \<Rightarrow> 'm SubnetClaim_raw \<Rightarrow> ('m, 'x) heap \<Rightarrow> 'm SubnetClaim_raw \<times> ('m, 'x) heap" where
  "SubnetClaim_DeepCopyInto a x h =
     (case ObjectMeta_DeepCopyInto a (rsc_ObjectMeta x) h of (m, h1) \<Rightarrow>
      case SubnetClaimStatus_DeepCopyInto a (rsc_Status x) h1 of (s, h2) \<Rightarrow>
        (x\<lparr>rsc_TypeMeta := rsc_TypeMeta x, rsc_ObjectMeta := m, rsc_Spec := rsc_Spec x, rsc_Status := s\<rparr>, h2))"

definition SubnetPool_DeepCopyInto ::
    "('m, 'l, 'x) apimachinery \<Rightarrow> 'm SubnetPool_raw \<Rightarrow> ('m, 'x) heap \<Rightarrow> 'm SubnetPool_raw \<times> ('m, 'x) heap" where
  "SubnetPool_DeepCopyInto a x h =
     (case ObjectMeta_DeepCopyInto a (rsp_ObjectMeta x) h of (m, h1) \<Rightarrow>
      case SubnetPoolStatus_DeepCopyInto a (rsp_Status x) h1 of (s, h2) \<Rightarrow>
        (x\<lparr>rsp_TypeMeta := rsp_TypeMeta x, rsp_ObjectMeta := m, rsp_Spec := rsp_Spec x, rsp_Status := s\<rparr>, h2))"

definition SubnetPoolClaim_DeepCopyInto ::
    "('m, 'l, 'x) apimachinery \<Rightarrow> 'm SubnetPoolClaim_raw \<Rightarrow> ('m, 'x) heap \<Rightarrow> 'm SubnetPoolClaim_raw \<times> ('m, 'x) heap" where
  "SubnetPoolClaim_DeepCopyInto a x h =
     (case ObjectMeta_DeepCopyInto a (rpc_ObjectMeta x) h of (m, h1) \<Rightarrow>
      case SubnetPoolClaimStatus_DeepCopyInto a (rpc_Status x) h1 of (s, h2) \<Rightarrow>
        (x\<lparr>rpc_TypeMeta := rpc_TypeMeta x, rpc_ObjectMeta := m, rpc_Spec := rpc_Spec x, rpc_Status := s\<rparr>, h2))"

text \<open>Lists; \<open>'l\<close> is the struct \<open>ListMeta\<close>.\<close>

record ('i, 'l) List_raw =
  rl_TypeMeta :: TypeMeta
  rl_ListMeta :: 'l
  rl_Items :: slice

definition zero_Subnet :: "('m, 'l, 'x) apimachinery \<Rightarrow> 'm Subnet_raw" where
  "zero_Subnet a = \<lparr>rsn_TypeMeta = ('''', ''''), rsn_ObjectMeta = zero_ObjectMeta a,
     rsn_Spec = \<lparr>sn_PoolRef = '''', sn_CIDR = '''', sn_ClusterID = '''', sn_ClaimRef = \<lparr>cr_Name = '''', cr_UID = ''''\<rparr>\<rparr>,
     rsn_Status = \<lparr>rsn_Phase = '''', rsn_AllocatedAt = None\<rparr>\<rparr>"

definition zero_SubnetClaim :: "('m, 'l, 'x) apimachinery \<Rightarrow> 'm SubnetClaim_raw" where
  "zero_SubnetClaim a = \<lparr>rsc_TypeMeta = ('''', ''''), rsc_ObjectMeta = zero_ObjectMeta a,
     rsc_Spec = \<lparr>sc_PoolRef = '''', sc_ClusterID = '''', sc_BlockSize = 0, sc_RequestedCIDR = ''''\<rparr>,
     rsc_Status = \<lparr>rsc_ObservedGeneration = 0, rsc_Phase = '''', rsc_AllocatedCIDR = '''', rsc_Message = '''', rsc_Conditions = NilSlice\<rparr>\<rparr>"

definition zero_SubnetPool :: "('m, 'l, 'x) apimachinery \<Rightarrow> 'm SubnetPool_raw" where
  "zero_SubnetPool a = \<lparr>rsp_TypeMeta = ('''', ''''), rsp_ObjectMeta = zero_ObjectMeta a,
     rsp_Spec = \<lparr>sp_CIDR = '''', sp_DefaultBlockSize = 0, sp_MinBlockSize = 0, sp_MaxBlockSize = 0, sp_Strategy = ''''\<rparr>,
     rsp_Status = \<lparr>rsp_ObservedGeneration = 0, rsp_AllocatedCount = 0, rsp_FreeCountBySize = None, rsp_AllocatedCIDRs = None,
       rsp_Conditions = NilSlice\<rparr>\<rparr>"

definition zero_SubnetPoolClaim :: "('m, 'l, 'x) apimachinery \<Rightarrow> 'm SubnetPoolClaim_raw" where
  "zero_SubnetPoolClaim a = \<lparr>rpc_TypeMeta = ('''', ''''), rpc_ObjectMeta = zero_ObjectMeta a,
     rpc_Spec = \<lparr>pc_ParentPoolRef = '''', pc_DesiredBlockSize = 0\<rparr>,
     rpc_Status = \<lparr>rpc_ObservedGeneration = 0, rpc_Phase = '''', rpc_BoundPoolName = '''', rpc_Message = '''', rpc_Conditions = NilSlice\<rparr>\<rparr>"

text \<open>The four functions for lists differ in the type of the items only.\<close>

definition List_DeepCopyInto ::
    "('m, 'l, 'x) apimachinery \<Rightarrow> (slice \<Rightarrow> ('m, 'x) heap \<Rightarrow> slice \<times> ('m, 'x) heap)
     \<Rightarrow> ('i, 'l) List_raw \<Rightarrow> ('m, 'x) heap \<Rightarrow> ('i, 'l) List_raw \<times> ('m, 'x) heap" where
  "List_DeepCopyInto a copy_items x h =
     (case ListMeta_DeepCopyInto a (rl_ListMeta x) h of (m, h1) \<Rightarrow>
      case copy_items (rl_Items x) h1 of (i, h2) \<Rightarrow>
        (x\<lparr>rl_TypeMeta := rl_TypeMeta x, rl_ListMeta := m, rl_Items := i\<rparr>, h2))"

definition SubnetList_DeepCopyInto ::
    "('m, 'l, 'x) apimachinery \<Rightarrow> ('m Subnet_raw, 'l) List_raw \<Rightarrow> ('m, 'x) heap \<Rightarrow> ('m Subnet_raw, 'l) List_raw \<times> ('m, 'x) heap" where
  "SubnetList_DeepCopyInto a = List_DeepCopyInto a (copy_slice SubnetArr as_subnets (zero_Subnet a) (Subnet_DeepCopyInto a))"

definition SubnetClaimList_DeepCopyInto ::
    "('m, 'l, 'x) apimachinery \<Rightarrow> ('m SubnetClaim_raw, 'l) List_raw \<Rightarrow> ('m, 'x) heap
     \<Rightarrow> ('m SubnetClaim_raw, 'l) List_raw \<times> ('m, 'x) heap" where
  "SubnetClaimList_DeepCopyInto a = List_DeepCopyInto a (copy_slice ClaimArr as_claims (zero_SubnetClaim a) (SubnetClaim_DeepCopyInto a))"

definition SubnetPoolList_DeepCopyInto ::
    "('m, 'l, 'x) apimachinery \<Rightarrow> ('m SubnetPool_raw, 'l) List_raw \<Rightarrow> ('m, 'x) heap
     \<Rightarrow> ('m SubnetPool_raw, 'l) List_raw \<times> ('m, 'x) heap" where
  "SubnetPoolList_DeepCopyInto a = List_DeepCopyInto a (copy_slice PoolArr as_pools (zero_SubnetPool a) (SubnetPool_DeepCopyInto a))"

definition SubnetPoolClaimList_DeepCopyInto ::
    "('m, 'l, 'x) apimachinery \<Rightarrow> ('m SubnetPoolClaim_raw, 'l) List_raw \<Rightarrow> ('m, 'x) heap
     \<Rightarrow> ('m SubnetPoolClaim_raw, 'l) List_raw \<times> ('m, 'x) heap" where
  "SubnetPoolClaimList_DeepCopyInto a =
     List_DeepCopyInto a (copy_slice PoolClaimArr as_poolclaims (zero_SubnetPoolClaim a) (SubnetPoolClaim_DeepCopyInto a))"

text \<open>\<open>DeepCopy\<close> of a pointer: nil stays nil, otherwise \<open>DeepCopyInto\<close> a new struct.\<close>

definition DeepCopy :: "('r \<Rightarrow> 'h \<Rightarrow> 'r \<times> 'h) \<Rightarrow> 'r option \<Rightarrow> 'h \<Rightarrow> 'r option \<times> 'h" where
  "DeepCopy into x h = (case x of None \<Rightarrow> (None, h) | Some v \<Rightarrow> (case into v h of (y, h') \<Rightarrow> (Some y, h')))"

definition Subnet_DeepCopy :: "('m, 'l, 'x) apimachinery \<Rightarrow> 'm Subnet_raw option \<Rightarrow> ('m, 'x) heap \<Rightarrow> 'm Subnet_raw option \<times> ('m, 'x) heap" where
  "Subnet_DeepCopy a = DeepCopy (Subnet_DeepCopyInto a)"

definition SubnetClaim_DeepCopy ::
    "('m, 'l, 'x) apimachinery \<Rightarrow> 'm SubnetClaim_raw option \<Rightarrow> ('m, 'x) heap \<Rightarrow> 'm SubnetClaim_raw option \<times> ('m, 'x) heap" where
  "SubnetClaim_DeepCopy a = DeepCopy (SubnetClaim_DeepCopyInto a)"

definition SubnetPool_DeepCopy ::
    "('m, 'l, 'x) apimachinery \<Rightarrow> 'm SubnetPool_raw option \<Rightarrow> ('m, 'x) heap \<Rightarrow> 'm SubnetPool_raw option \<times> ('m, 'x) heap" where
  "SubnetPool_DeepCopy a = DeepCopy (SubnetPool_DeepCopyInto a)"

definition SubnetPoolClaim_DeepCopy ::
    "('m, 'l, 'x) apimachinery \<Rightarrow> 'm SubnetPoolClaim_raw option \<Rightarrow> ('m, 'x) heap \<Rightarrow> 'm SubnetPoolClaim_raw option \<times> ('m, 'x) heap" where
  "SubnetPoolClaim_DeepCopy a = DeepCopy (SubnetPoolClaim_DeepCopyInto a)"

definition SubnetList_DeepCopy ::
    "('m, 'l, 'x) apimachinery \<Rightarrow> ('m Subnet_raw, 'l) List_raw option \<Rightarrow> ('m, 'x) heap \<Rightarrow> ('m Subnet_raw, 'l) List_raw option \<times> ('m, 'x) heap" where
  "SubnetList_DeepCopy a = DeepCopy (SubnetList_DeepCopyInto a)"

definition SubnetClaimList_DeepCopy ::
    "('m, 'l, 'x) apimachinery \<Rightarrow> ('m SubnetClaim_raw, 'l) List_raw option \<Rightarrow> ('m, 'x) heap
     \<Rightarrow> ('m SubnetClaim_raw, 'l) List_raw option \<times> ('m, 'x) heap" where
  "SubnetClaimList_DeepCopy a = DeepCopy (SubnetClaimList_DeepCopyInto a)"

definition SubnetPoolList_DeepCopy ::
    "('m, 'l, 'x) apimachinery \<Rightarrow> ('m SubnetPool_raw, 'l) List_raw option \<Rightarrow> ('m, 'x) heap
     \<Rightarrow> ('m SubnetPool_raw, 'l) List_raw option \<times> ('m, 'x) heap" where
  "SubnetPoolList_DeepCopy a = DeepCopy (SubnetPoolList_DeepCopyInto a)"

definition SubnetPoolClaimList_DeepCopy ::
    "('m, 'l, 'x) apimachinery \<Rightarrow> ('m SubnetPoolClaim_raw, 'l) List_raw option \<Rightarrow> ('m, 'x) heap
     \<Rightarrow> ('m SubnetPoolClaim_raw, 'l) List_raw option \<times> ('m, 'x) heap" where
  "SubnetPoolClaimList_DeepCopy a = DeepCopy (SubnetPoolClaimList_DeepCopyInto a)"

definition SubnetStatus_DeepCopy ::
    "('m, 'l, 'x) apimachinery \<Rightarrow> SubnetStatus_raw option \<Rightarrow> ('m, 'x) heap \<Rightarrow> SubnetStatus_raw option \<times> ('m, 'x) heap" where
  "SubnetStatus_DeepCopy a = DeepCopy (SubnetStatus_DeepCopyInto a)"

definition SubnetClaimStatus_DeepCopy ::
    "('m, 'l, 'x) apimachinery \<Rightarrow> SubnetClaimStatus_raw option \<Rightarrow> ('m, 'x) heap \<Rightarrow> SubnetClaimStatus_raw option \<times> ('m, 'x) heap" where
  "SubnetClaimStatus_DeepCopy a = DeepCopy (SubnetClaimStatus_DeepCopyInto a)"

definition SubnetPoolStatus_DeepCopy ::
    "('m, 'l, 'x) apimachinery \<Rightarrow> SubnetPoolStatus_raw option \<Rightarrow> ('m, 'x) heap \<Rightarrow> SubnetPoolStatus_raw option \<times> ('m, 'x) heap" where
  "SubnetPoolStatus_DeepCopy a = DeepCopy (SubnetPoolStatus_DeepCopyInto a)"

definition SubnetPoolClaimStatus_DeepCopy ::
    "('m, 'l, 'x) apimachinery \<Rightarrow> SubnetPoolClaimStatus_raw option \<Rightarrow> ('m, 'x) heap \<Rightarrow> SubnetPoolClaimStatus_raw option \<times> ('m, 'x) heap" where
  "SubnetPoolClaimStatus_DeepCopy a = DeepCopy (SubnetPoolClaimStatus_DeepCopyInto a)"

definition ClaimReference_DeepCopy :: "ClaimReference option \<Rightarrow> ClaimReference option" where
  "ClaimReference_DeepCopy x = map_option ClaimReference_DeepCopyInto x"

definition SubnetSpec_DeepCopy :: "SubnetSpec option \<Rightarrow> SubnetSpec option" where
  "SubnetSpec_DeepCopy x = map_option SubnetSpec_DeepCopyInto x"

definition SubnetClaimSpec_DeepCopy :: "SubnetClaimSpec option \<Rightarrow> SubnetClaimSpec option" where
  "SubnetClaimSpec_DeepCopy x = map_option SubnetClaimSpec_DeepCopyInto x"

definition SubnetPoolSpec_DeepCopy :: "SubnetPoolSpec option \<Rightarrow> SubnetPoolSpec option" where
  "SubnetPoolSpec_DeepCopy x = map_option SubnetPoolSpec_DeepCopyInto x"

definition SubnetPoolClaimSpec_DeepCopy :: "SubnetPoolClaimSpec option \<Rightarrow> SubnetPoolClaimSpec option" where
  "SubnetPoolClaimSpec_DeepCopy x = map_option SubnetPoolClaimSpec_DeepCopyInto x"

text \<open>The interface \<open>runtime.Object\<close>, and its method by the type of the receiver.\<close>

datatype ('m, 'l) object = SubnetObj "'m Subnet_raw" | SubnetClaimObj "'m SubnetClaim_raw" | SubnetPoolObj "'m SubnetPool_raw"
  | SubnetPoolClaimObj "'m SubnetPoolClaim_raw" | SubnetListObj "('m Subnet_raw, 'l) List_raw"
  | SubnetClaimListObj "('m SubnetClaim_raw, 'l) List_raw" | SubnetPoolListObj "('m SubnetPool_raw, 'l) List_raw"
  | SubnetPoolClaimListObj "('m SubnetPoolClaim_raw, 'l) List_raw"

definition as_object :: "('r \<Rightarrow> ('m, 'l) object) \<Rightarrow> 'r option \<times> 'h \<Rightarrow> ('m, 'l) object option \<times> 'h" where
  "as_object obj r = (case r of (Some c, h) \<Rightarrow> (Some (obj c), h) | (None, h) \<Rightarrow> (None, h))"

definition Subnet_DeepCopyObject ::
    "('m, 'l, 'x) apimachinery \<Rightarrow> 'm Subnet_raw option \<Rightarrow> ('m, 'x) heap \<Rightarrow> ('m, 'l) object option \<times> ('m, 'x) heap" where
  "Subnet_DeepCopyObject a x h = as_object SubnetObj (Subnet_DeepCopy a x h)"

definition SubnetClaim_DeepCopyObject ::
    "('m, 'l, 'x) apimachinery \<Rightarrow> 'm SubnetClaim_raw option \<Rightarrow> ('m, 'x) heap \<Rightarrow> ('m, 'l) object option \<times> ('m, 'x) heap" where
  "SubnetClaim_DeepCopyObject a x h = as_object SubnetClaimObj (SubnetClaim_DeepCopy a x h)"

definition SubnetPool_DeepCopyObject ::
    "('m, 'l, 'x) apimachinery \<Rightarrow> 'm SubnetPool_raw option \<Rightarrow> ('m, 'x) heap \<Rightarrow> ('m, 'l) object option \<times> ('m, 'x) heap" where
  "SubnetPool_DeepCopyObject a x h = as_object SubnetPoolObj (SubnetPool_DeepCopy a x h)"

definition SubnetPoolClaim_DeepCopyObject ::
    "('m, 'l, 'x) apimachinery \<Rightarrow> 'm SubnetPoolClaim_raw option \<Rightarrow> ('m, 'x) heap \<Rightarrow> ('m, 'l) object option \<times> ('m, 'x) heap" where
  "SubnetPoolClaim_DeepCopyObject a x h = as_object SubnetPoolClaimObj (SubnetPoolClaim_DeepCopy a x h)"

definition SubnetList_DeepCopyObject ::
    "('m, 'l, 'x) apimachinery \<Rightarrow> ('m Subnet_raw, 'l) List_raw option \<Rightarrow> ('m, 'x) heap \<Rightarrow> ('m, 'l) object option \<times> ('m, 'x) heap" where
  "SubnetList_DeepCopyObject a x h = as_object SubnetListObj (SubnetList_DeepCopy a x h)"

definition SubnetClaimList_DeepCopyObject ::
    "('m, 'l, 'x) apimachinery \<Rightarrow> ('m SubnetClaim_raw, 'l) List_raw option \<Rightarrow> ('m, 'x) heap \<Rightarrow> ('m, 'l) object option \<times> ('m, 'x) heap" where
  "SubnetClaimList_DeepCopyObject a x h = as_object SubnetClaimListObj (SubnetClaimList_DeepCopy a x h)"

definition SubnetPoolList_DeepCopyObject ::
    "('m, 'l, 'x) apimachinery \<Rightarrow> ('m SubnetPool_raw, 'l) List_raw option \<Rightarrow> ('m, 'x) heap \<Rightarrow> ('m, 'l) object option \<times> ('m, 'x) heap" where
  "SubnetPoolList_DeepCopyObject a x h = as_object SubnetPoolListObj (SubnetPoolList_DeepCopy a x h)"

definition SubnetPoolClaimList_DeepCopyObject ::
    "('m, 'l, 'x) apimachinery \<Rightarrow> ('m SubnetPoolClaim_raw, 'l) List_raw option \<Rightarrow> ('m, 'x) heap \<Rightarrow> ('m, 'l) object option \<times> ('m, 'x) heap" where
  "SubnetPoolClaimList_DeepCopyObject a x h = as_object SubnetPoolClaimListObj (SubnetPoolClaimList_DeepCopy a x h)"

fun DeepCopyObject ::
    "('m, 'l, 'x) apimachinery \<Rightarrow> ('m, 'l) object \<Rightarrow> ('m, 'x) heap \<Rightarrow> ('m, 'l) object option \<times> ('m, 'x) heap" where
  "DeepCopyObject a (SubnetObj x) h = Subnet_DeepCopyObject a (Some x) h"
| "DeepCopyObject a (SubnetClaimObj x) h = SubnetClaim_DeepCopyObject a (Some x) h"
| "DeepCopyObject a (SubnetPoolObj x) h = SubnetPool_DeepCopyObject a (Some x) h"
| "DeepCopyObject a (SubnetPoolClaimObj x) h = SubnetPoolClaim_DeepCopyObject a (Some x) h"
| "DeepCopyObject a (SubnetListObj x) h = SubnetList_DeepCopyObject a (Some x) h"
| "DeepCopyObject a (SubnetClaimListObj x) h = SubnetClaimList_DeepCopyObject a (Some x) h"
| "DeepCopyObject a (SubnetPoolListObj x) h = SubnetPoolList_DeepCopyObject a (Some x) h"
| "DeepCopyObject a (SubnetPoolClaimListObj x) h = SubnetPoolClaimList_DeepCopyObject a (Some x) h"

section \<open>Structs\<close>

definition copy_pair ::
    "('r \<Rightarrow> 'h \<Rightarrow> 'r \<times> 'h) \<Rightarrow> ('s \<Rightarrow> 'h \<Rightarrow> 's \<times> 'h) \<Rightarrow> 'r \<times> 's \<Rightarrow> 'h \<Rightarrow> ('r \<times> 's) \<times> 'h" where
  "copy_pair cp1 cp2 p h = (case cp1 (fst p) h of (x, h1) \<Rightarrow> case cp2 (snd p) h1 of (y, h2) \<Rightarrow> ((x, y), h2))"

definition pair_owns :: "('h \<Rightarrow> 'r \<Rightarrow> addr set) \<Rightarrow> ('h \<Rightarrow> 's \<Rightarrow> addr set) \<Rightarrow> 'h \<Rightarrow> 'r \<times> 's \<Rightarrow> addr set" where
  "pair_owns o1 o2 h p = o1 h (fst p) \<union> o2 h (snd p)"

definition pair_view :: "('h \<Rightarrow> 'r \<Rightarrow> 'v) \<Rightarrow> ('h \<Rightarrow> 's \<Rightarrow> 'u) \<Rightarrow> 'h \<Rightarrow> 'r \<times> 's \<Rightarrow> 'v \<times> 'u" where
  "pair_view v1 v2 h p = (v1 h (fst p), v2 h (snd p))"

definition pair_valid :: "('h \<Rightarrow> 'r \<Rightarrow> bool) \<Rightarrow> ('h \<Rightarrow> 's \<Rightarrow> bool) \<Rightarrow> 'h \<Rightarrow> 'r \<times> 's \<Rightarrow> bool" where
  "pair_valid w1 w2 h p \<longleftrightarrow> w1 h (fst p) \<and> w2 h (snd p)"

lemma pair_copier:
  fixes cp1 :: "'r \<Rightarrow> ('m, 'x) heap \<Rightarrow> 'r \<times> ('m, 'x) heap"
  assumes "deep_copier cp1 owns1 view1 valid1" and "deep_copier cp2 owns2 view2 valid2"
  shows "deep_copier (copy_pair cp1 cp2) (pair_owns owns1 owns2) (pair_view view1 view2) (pair_valid valid1 valid2)"
proof
  fix h h' :: "('m, 'x) heap" and p
  assume "pair_valid valid1 valid2 h p" and "\<forall>a \<in> pair_owns owns1 owns2 h p. cells h' a = cells h a"
  then show "pair_valid valid1 valid2 h' p \<and> pair_owns owns1 owns2 h' p = pair_owns owns1 owns2 h p
      \<and> pair_view view1 view2 h' p = pair_view view1 view2 h p"
    using deep_copier.frame [OF assms(1), of h "fst p" h'] deep_copier.frame [OF assms(2), of h "snd p" h']
    by (simp add: pair_valid_def pair_owns_def pair_view_def)
next
  fix h p
  assume "good_heap h" and "pair_valid valid1 valid2 h p"
  then show "pair_owns owns1 owns2 h p \<subseteq> {..<lim h}"
    using deep_copier.inside [OF assms(1), of h "fst p"] deep_copier.inside [OF assms(2), of h "snd p"]
    by (simp add: pair_valid_def pair_owns_def)
next
  fix h p q h'
  assume good: "good_heap h" and v: "pair_valid valid1 valid2 h p" and c: "copy_pair cp1 cp2 p h = (q, h')"
  obtain x h1 y where q: "cp1 (fst p) h = (x, h1)" "cp2 (snd p) h1 = (y, h')" "q = (x, y)"
    using c by (auto simp: copy_pair_def split: prod.splits)
  show "extends h h' \<and> pair_valid valid1 valid2 h' q \<and> pair_view view1 view2 h' q = pair_view view1 view2 h p
      \<and> pair_owns owns1 owns2 h' q \<subseteq> {lim h..<lim h'}"
    using copy_two [OF assms good _ _ q(1,2)] v by (simp add: pair_valid_def pair_view_def pair_owns_def q(3))
qed

text \<open>
  A struct whose references are in the parts \<open>get x\<close>: the copy puts new parts into the struct,
  and the value of the struct is made of its other fields and the value of the parts.
\<close>

lemma struct_copier:
  fixes cp :: "'p \<Rightarrow> ('m, 'x) heap \<Rightarrow> 'p \<times> ('m, 'x) heap"
  assumes "deep_copier cp owns view valid" and "\<And>x p. get (put x p) = p" and "\<And>x p v. val (put x p) v = val x v"
    and into: "\<And>x h. into x h = (case cp (get x) h of (p, h') \<Rightarrow> (put x p, h'))"
    and parts: "\<And>h x. owns' h x = owns h (get x)" "\<And>h x. view' h x = val x (view h (get x))" "\<And>h x. valid' h x = valid h (get x)"
  shows "deep_copier into owns' view' valid'"
proof (unfold_locales, unfold parts into)
  fix h h' :: "('m, 'x) heap" and x
  assume "valid h (get x)" and "\<forall>a \<in> owns h (get x). cells h' a = cells h a"
  then show "valid h' (get x) \<and> owns h' (get x) = owns h (get x) \<and> val x (view h' (get x)) = val x (view h (get x))"
    using deep_copier.frame [OF assms(1)] by metis
next
  fix h x
  assume "good_heap h" and "valid h (get x)"
  then show "owns h (get x) \<subseteq> {..<lim h}" by (rule deep_copier.inside [OF assms(1)])
next
  fix h x y h'
  assume "good_heap h" and "valid h (get x)" and "(case cp (get x) h of (p, h') \<Rightarrow> (put x p, h')) = (y, h')"
  then show "extends h h' \<and> valid h' (get y) \<and> val y (view h' (get y)) = val x (view h (get x)) \<and> owns h' (get y) \<subseteq> {lim h..<lim h'}"
    using deep_copier.copies [OF assms(1), of h "get x"] assms(2,3) by (auto split: prod.splits)
qed

section \<open>The value of a resource\<close>

definition time_view :: "('m, 'x) heap \<Rightarrow> addr option \<Rightarrow> int option" where
  "time_view h p = (case p of None \<Rightarrow> None | Some q \<Rightarrow> (case cells h q of Some (TimeCell t) \<Rightarrow> Some t | _ \<Rightarrow> None))"

definition time_valid :: "('m, 'x) heap \<Rightarrow> addr option \<Rightarrow> bool" where
  "time_valid h p \<longleftrightarrow> (\<forall>q. p = Some q \<longrightarrow> (\<exists>t. cells h q = Some (TimeCell t)))"

definition SubnetStatus_val :: "SubnetStatus_raw \<Rightarrow> int option \<Rightarrow> SubnetStatus" where
  "SubnetStatus_val x t = \<lparr>sn_Phase = rsn_Phase x, sn_AllocatedAt = t\<rparr>"

definition SubnetClaimStatus_val :: "SubnetClaimStatus_raw \<Rightarrow> Condition list \<Rightarrow> SubnetClaimStatus" where
  "SubnetClaimStatus_val x cs = \<lparr>sc_ObservedGeneration = rsc_ObservedGeneration x, sc_Phase = rsc_Phase x,
     sc_AllocatedCIDR = rsc_AllocatedCIDR x, sc_Message = rsc_Message x, sc_Conditions = cs\<rparr>"

definition SubnetPoolClaimStatus_val :: "SubnetPoolClaimStatus_raw \<Rightarrow> Condition list \<Rightarrow> SubnetPoolClaimStatus" where
  "SubnetPoolClaimStatus_val x cs = \<lparr>pc_ObservedGeneration = rpc_ObservedGeneration x, pc_Phase = rpc_Phase x,
     pc_BoundPoolName = rpc_BoundPoolName x, pc_Message = rpc_Message x, pc_Conditions = cs\<rparr>"

definition SubnetPoolStatus_val ::
    "SubnetPoolStatus_raw \<Rightarrow> (string \<rightharpoonup> int) \<times> (string \<rightharpoonup> string) \<times> Condition list \<Rightarrow> SubnetPoolStatus" where
  "SubnetPoolStatus_val x v = \<lparr>sp_ObservedGeneration = rsp_ObservedGeneration x, sp_AllocatedCount = rsp_AllocatedCount x,
     sp_FreeCountBySize = fst v, sp_AllocatedCIDRs = fst (snd v), sp_Conditions = snd (snd v)\<rparr>"

definition Subnet_val :: "'m Subnet_raw \<Rightarrow> ObjectMeta \<times> SubnetStatus \<Rightarrow> TypeMeta \<times> Subnet" where
  "Subnet_val x v = (rsn_TypeMeta x, \<lparr>sn_meta = fst v, sn_spec = rsn_Spec x, sn_status = snd v\<rparr>)"

definition SubnetClaim_val :: "'m SubnetClaim_raw \<Rightarrow> ObjectMeta \<times> SubnetClaimStatus \<Rightarrow> TypeMeta \<times> SubnetClaim" where
  "SubnetClaim_val x v = (rsc_TypeMeta x, \<lparr>sc_meta = fst v, sc_spec = rsc_Spec x, sc_status = snd v\<rparr>)"

definition SubnetPool_val :: "'m SubnetPool_raw \<Rightarrow> ObjectMeta \<times> SubnetPoolStatus \<Rightarrow> TypeMeta \<times> SubnetPool" where
  "SubnetPool_val x v = (rsp_TypeMeta x, \<lparr>sp_meta = fst v, sp_spec = rsp_Spec x, sp_status = snd v\<rparr>)"

definition SubnetPoolClaim_val :: "'m SubnetPoolClaim_raw \<Rightarrow> ObjectMeta \<times> SubnetPoolClaimStatus \<Rightarrow> TypeMeta \<times> SubnetPoolClaim" where
  "SubnetPoolClaim_val x v = (rpc_TypeMeta x, \<lparr>pc_meta = fst v, pc_spec = rpc_Spec x, pc_status = snd v\<rparr>)"

text \<open>The references of each struct.\<close>

definition SubnetPoolStatus_refs :: "SubnetPoolStatus_raw \<Rightarrow> addr option \<times> addr option \<times> slice" where
  "SubnetPoolStatus_refs x = (rsp_FreeCountBySize x, rsp_AllocatedCIDRs x, rsp_Conditions x)"

definition Subnet_refs :: "'m Subnet_raw \<Rightarrow> 'm \<times> SubnetStatus_raw" where
  "Subnet_refs x = (rsn_ObjectMeta x, rsn_Status x)"

definition SubnetClaim_refs :: "'m SubnetClaim_raw \<Rightarrow> 'm \<times> SubnetClaimStatus_raw" where
  "SubnetClaim_refs x = (rsc_ObjectMeta x, rsc_Status x)"

definition SubnetPool_refs :: "'m SubnetPool_raw \<Rightarrow> 'm \<times> SubnetPoolStatus_raw" where
  "SubnetPool_refs x = (rsp_ObjectMeta x, rsp_Status x)"

definition SubnetPoolClaim_refs :: "'m SubnetPoolClaim_raw \<Rightarrow> 'm \<times> SubnetPoolClaimStatus_raw" where
  "SubnetPoolClaim_refs x = (rpc_ObjectMeta x, rpc_Status x)"

definition List_refs :: "('i, 'l) List_raw \<Rightarrow> 'l \<times> slice" where
  "List_refs x = (rl_ListMeta x, rl_Items x)"

definition List_val :: "('i, 'l) List_raw \<Rightarrow> 'v \<times> 'u list \<Rightarrow> TypeMeta \<times> 'v \<times> 'u list" where
  "List_val x v = (rl_TypeMeta x, v)"

section \<open>The generated functions are deep copies\<close>

abbreviation (input) no_refs :: "('m, 'x) heap \<Rightarrow> 'r \<Rightarrow> addr set" where "no_refs \<equiv> \<lambda>h x. {}"
abbreviation (input) itself :: "('m, 'x) heap \<Rightarrow> 'r \<Rightarrow> 'r" where "itself \<equiv> \<lambda>h x. x"
abbreviation (input) any_value :: "('m, 'x) heap \<Rightarrow> 'r \<Rightarrow> bool" where "any_value \<equiv> \<lambda>h x. True"

definition cond_owns :: "('m, 'x) heap \<Rightarrow> slice \<Rightarrow> addr set" where "cond_owns = slice_owns as_conds no_refs"
definition cond_view :: "('m, 'x) heap \<Rightarrow> slice \<Rightarrow> Condition list" where "cond_view = slice_view as_conds itself"
definition cond_valid :: "('m, 'x) heap \<Rightarrow> slice \<Rightarrow> bool" where "cond_valid = slice_valid CondArr as_conds any_value"

definition pool_status_owns :: "('m, 'x) heap \<Rightarrow> SubnetPoolStatus_raw \<Rightarrow> addr set" where
  "pool_status_owns h x = pair_owns (\<lambda>h. set_option) (pair_owns (\<lambda>h. set_option) cond_owns) h (SubnetPoolStatus_refs x)"
definition pool_status_view :: "('m, 'x) heap \<Rightarrow> SubnetPoolStatus_raw \<Rightarrow> SubnetPoolStatus" where
  "pool_status_view h x = SubnetPoolStatus_val x (pair_view (map_view as_ints) (pair_view (map_view as_strs) cond_view) h (SubnetPoolStatus_refs x))"
definition pool_status_valid :: "('m, 'x) heap \<Rightarrow> SubnetPoolStatus_raw \<Rightarrow> bool" where
  "pool_status_valid h x = pair_valid (map_valid IntMap) (pair_valid (map_valid StrMap) cond_valid) h (SubnetPoolStatus_refs x)"

definition subnet_status_owns :: "('m, 'x) heap \<Rightarrow> SubnetStatus_raw \<Rightarrow> addr set" where
  "subnet_status_owns h x = set_option (rsn_AllocatedAt x)"
definition subnet_status_view :: "('m, 'x) heap \<Rightarrow> SubnetStatus_raw \<Rightarrow> SubnetStatus" where
  "subnet_status_view h x = SubnetStatus_val x (time_view h (rsn_AllocatedAt x))"
definition subnet_status_valid :: "('m, 'x) heap \<Rightarrow> SubnetStatus_raw \<Rightarrow> bool" where
  "subnet_status_valid h x = time_valid h (rsn_AllocatedAt x)"

definition claim_status_owns :: "('m, 'x) heap \<Rightarrow> SubnetClaimStatus_raw \<Rightarrow> addr set" where
  "claim_status_owns h x = cond_owns h (rsc_Conditions x)"
definition claim_status_view :: "('m, 'x) heap \<Rightarrow> SubnetClaimStatus_raw \<Rightarrow> SubnetClaimStatus" where
  "claim_status_view h x = SubnetClaimStatus_val x (cond_view h (rsc_Conditions x))"
definition claim_status_valid :: "('m, 'x) heap \<Rightarrow> SubnetClaimStatus_raw \<Rightarrow> bool" where
  "claim_status_valid h x = cond_valid h (rsc_Conditions x)"

definition poolclaim_status_owns :: "('m, 'x) heap \<Rightarrow> SubnetPoolClaimStatus_raw \<Rightarrow> addr set" where
  "poolclaim_status_owns h x = cond_owns h (rpc_Conditions x)"
definition poolclaim_status_view :: "('m, 'x) heap \<Rightarrow> SubnetPoolClaimStatus_raw \<Rightarrow> SubnetPoolClaimStatus" where
  "poolclaim_status_view h x = SubnetPoolClaimStatus_val x (cond_view h (rpc_Conditions x))"
definition poolclaim_status_valid :: "('m, 'x) heap \<Rightarrow> SubnetPoolClaimStatus_raw \<Rightarrow> bool" where
  "poolclaim_status_valid h x = cond_valid h (rpc_Conditions x)"

definition subnet_raw_owns :: "(('m, 'x) heap \<Rightarrow> 'm \<Rightarrow> addr set) \<Rightarrow> ('m, 'x) heap \<Rightarrow> 'm Subnet_raw \<Rightarrow> addr set" where
  "subnet_raw_owns mo h x = pair_owns mo subnet_status_owns h (Subnet_refs x)"
definition subnet_raw_view :: "(('m, 'x) heap \<Rightarrow> 'm \<Rightarrow> ObjectMeta) \<Rightarrow> ('m, 'x) heap \<Rightarrow> 'm Subnet_raw \<Rightarrow> TypeMeta \<times> Subnet" where
  "subnet_raw_view mv h x = Subnet_val x (pair_view mv subnet_status_view h (Subnet_refs x))"
definition subnet_raw_valid :: "(('m, 'x) heap \<Rightarrow> 'm \<Rightarrow> bool) \<Rightarrow> ('m, 'x) heap \<Rightarrow> 'm Subnet_raw \<Rightarrow> bool" where
  "subnet_raw_valid mw h x = pair_valid mw subnet_status_valid h (Subnet_refs x)"

definition claim_raw_owns :: "(('m, 'x) heap \<Rightarrow> 'm \<Rightarrow> addr set) \<Rightarrow> ('m, 'x) heap \<Rightarrow> 'm SubnetClaim_raw \<Rightarrow> addr set" where
  "claim_raw_owns mo h x = pair_owns mo claim_status_owns h (SubnetClaim_refs x)"
definition claim_raw_view :: "(('m, 'x) heap \<Rightarrow> 'm \<Rightarrow> ObjectMeta) \<Rightarrow> ('m, 'x) heap \<Rightarrow> 'm SubnetClaim_raw \<Rightarrow> TypeMeta \<times> SubnetClaim" where
  "claim_raw_view mv h x = SubnetClaim_val x (pair_view mv claim_status_view h (SubnetClaim_refs x))"
definition claim_raw_valid :: "(('m, 'x) heap \<Rightarrow> 'm \<Rightarrow> bool) \<Rightarrow> ('m, 'x) heap \<Rightarrow> 'm SubnetClaim_raw \<Rightarrow> bool" where
  "claim_raw_valid mw h x = pair_valid mw claim_status_valid h (SubnetClaim_refs x)"

definition pool_raw_owns :: "(('m, 'x) heap \<Rightarrow> 'm \<Rightarrow> addr set) \<Rightarrow> ('m, 'x) heap \<Rightarrow> 'm SubnetPool_raw \<Rightarrow> addr set" where
  "pool_raw_owns mo h x = pair_owns mo pool_status_owns h (SubnetPool_refs x)"
definition pool_raw_view :: "(('m, 'x) heap \<Rightarrow> 'm \<Rightarrow> ObjectMeta) \<Rightarrow> ('m, 'x) heap \<Rightarrow> 'm SubnetPool_raw \<Rightarrow> TypeMeta \<times> SubnetPool" where
  "pool_raw_view mv h x = SubnetPool_val x (pair_view mv pool_status_view h (SubnetPool_refs x))"
definition pool_raw_valid :: "(('m, 'x) heap \<Rightarrow> 'm \<Rightarrow> bool) \<Rightarrow> ('m, 'x) heap \<Rightarrow> 'm SubnetPool_raw \<Rightarrow> bool" where
  "pool_raw_valid mw h x = pair_valid mw pool_status_valid h (SubnetPool_refs x)"

definition poolclaim_raw_owns :: "(('m, 'x) heap \<Rightarrow> 'm \<Rightarrow> addr set) \<Rightarrow> ('m, 'x) heap \<Rightarrow> 'm SubnetPoolClaim_raw \<Rightarrow> addr set" where
  "poolclaim_raw_owns mo h x = pair_owns mo poolclaim_status_owns h (SubnetPoolClaim_refs x)"
definition poolclaim_raw_view :: "(('m, 'x) heap \<Rightarrow> 'm \<Rightarrow> ObjectMeta) \<Rightarrow> ('m, 'x) heap \<Rightarrow> 'm SubnetPoolClaim_raw \<Rightarrow> TypeMeta \<times> SubnetPoolClaim" where
  "poolclaim_raw_view mv h x = SubnetPoolClaim_val x (pair_view mv poolclaim_status_view h (SubnetPoolClaim_refs x))"
definition poolclaim_raw_valid :: "(('m, 'x) heap \<Rightarrow> 'm \<Rightarrow> bool) \<Rightarrow> ('m, 'x) heap \<Rightarrow> 'm SubnetPoolClaim_raw \<Rightarrow> bool" where
  "poolclaim_raw_valid mw h x = pair_valid mw poolclaim_status_valid h (SubnetPoolClaim_refs x)"

text \<open>Lists, given the contract of their items.\<close>

definition list_owns ::
    "(('m, 'x) heap \<Rightarrow> 'l \<Rightarrow> addr set) \<Rightarrow> (('m, 'x) heap \<Rightarrow> slice \<Rightarrow> addr set) \<Rightarrow> ('m, 'x) heap \<Rightarrow> ('i, 'l) List_raw \<Rightarrow> addr set" where
  "list_owns lo io h x = pair_owns lo io h (List_refs x)"
definition list_view ::
    "(('m, 'x) heap \<Rightarrow> 'l \<Rightarrow> 'v) \<Rightarrow> (('m, 'x) heap \<Rightarrow> slice \<Rightarrow> 'u list) \<Rightarrow> ('m, 'x) heap \<Rightarrow> ('i, 'l) List_raw \<Rightarrow> TypeMeta \<times> 'v \<times> 'u list" where
  "list_view lv iv h x = List_val x (pair_view lv iv h (List_refs x))"
definition list_valid ::
    "(('m, 'x) heap \<Rightarrow> 'l \<Rightarrow> bool) \<Rightarrow> (('m, 'x) heap \<Rightarrow> slice \<Rightarrow> bool) \<Rightarrow> ('m, 'x) heap \<Rightarrow> ('i, 'l) List_raw \<Rightarrow> bool" where
  "list_valid lw iw h x = pair_valid lw iw h (List_refs x)"

text \<open>Any object.\<close>

datatype 'v object_value = SubnetV "TypeMeta \<times> Subnet" | SubnetClaimV "TypeMeta \<times> SubnetClaim" | SubnetPoolV "TypeMeta \<times> SubnetPool"
  | SubnetPoolClaimV "TypeMeta \<times> SubnetPoolClaim" | SubnetListV "TypeMeta \<times> 'v \<times> (TypeMeta \<times> Subnet) list"
  | SubnetClaimListV "TypeMeta \<times> 'v \<times> (TypeMeta \<times> SubnetClaim) list" | SubnetPoolListV "TypeMeta \<times> 'v \<times> (TypeMeta \<times> SubnetPool) list"
  | SubnetPoolClaimListV "TypeMeta \<times> 'v \<times> (TypeMeta \<times> SubnetPoolClaim) list"

fun object_owns ::
    "(('m, 'x) heap \<Rightarrow> 'm \<Rightarrow> addr set) \<Rightarrow> (('m, 'x) heap \<Rightarrow> 'l \<Rightarrow> addr set) \<Rightarrow> ('m, 'x) heap \<Rightarrow> ('m, 'l) object \<Rightarrow> addr set" where
  "object_owns mo lo h (SubnetObj x) = subnet_raw_owns mo h x"
| "object_owns mo lo h (SubnetClaimObj x) = claim_raw_owns mo h x"
| "object_owns mo lo h (SubnetPoolObj x) = pool_raw_owns mo h x"
| "object_owns mo lo h (SubnetPoolClaimObj x) = poolclaim_raw_owns mo h x"
| "object_owns mo lo h (SubnetListObj x) = list_owns lo (slice_owns as_subnets (subnet_raw_owns mo)) h x"
| "object_owns mo lo h (SubnetClaimListObj x) = list_owns lo (slice_owns as_claims (claim_raw_owns mo)) h x"
| "object_owns mo lo h (SubnetPoolListObj x) = list_owns lo (slice_owns as_pools (pool_raw_owns mo)) h x"
| "object_owns mo lo h (SubnetPoolClaimListObj x) = list_owns lo (slice_owns as_poolclaims (poolclaim_raw_owns mo)) h x"

fun object_view ::
    "(('m, 'x) heap \<Rightarrow> 'm \<Rightarrow> ObjectMeta) \<Rightarrow> (('m, 'x) heap \<Rightarrow> 'l \<Rightarrow> 'v) \<Rightarrow> ('m, 'x) heap \<Rightarrow> ('m, 'l) object \<Rightarrow> 'v object_value" where
  "object_view mv lv h (SubnetObj x) = SubnetV (subnet_raw_view mv h x)"
| "object_view mv lv h (SubnetClaimObj x) = SubnetClaimV (claim_raw_view mv h x)"
| "object_view mv lv h (SubnetPoolObj x) = SubnetPoolV (pool_raw_view mv h x)"
| "object_view mv lv h (SubnetPoolClaimObj x) = SubnetPoolClaimV (poolclaim_raw_view mv h x)"
| "object_view mv lv h (SubnetListObj x) = SubnetListV (list_view lv (slice_view as_subnets (subnet_raw_view mv)) h x)"
| "object_view mv lv h (SubnetClaimListObj x) = SubnetClaimListV (list_view lv (slice_view as_claims (claim_raw_view mv)) h x)"
| "object_view mv lv h (SubnetPoolListObj x) = SubnetPoolListV (list_view lv (slice_view as_pools (pool_raw_view mv)) h x)"
| "object_view mv lv h (SubnetPoolClaimListObj x) = SubnetPoolClaimListV (list_view lv (slice_view as_poolclaims (poolclaim_raw_view mv)) h x)"

fun object_valid ::
    "(('m, 'x) heap \<Rightarrow> 'm \<Rightarrow> bool) \<Rightarrow> (('m, 'x) heap \<Rightarrow> 'l \<Rightarrow> bool) \<Rightarrow> ('m, 'x) heap \<Rightarrow> ('m, 'l) object \<Rightarrow> bool" where
  "object_valid mw lw h (SubnetObj x) = subnet_raw_valid mw h x"
| "object_valid mw lw h (SubnetClaimObj x) = claim_raw_valid mw h x"
| "object_valid mw lw h (SubnetPoolObj x) = pool_raw_valid mw h x"
| "object_valid mw lw h (SubnetPoolClaimObj x) = poolclaim_raw_valid mw h x"
| "object_valid mw lw h (SubnetListObj x) = list_valid lw (slice_valid SubnetArr as_subnets (subnet_raw_valid mw)) h x"
| "object_valid mw lw h (SubnetClaimListObj x) = list_valid lw (slice_valid ClaimArr as_claims (claim_raw_valid mw)) h x"
| "object_valid mw lw h (SubnetPoolListObj x) = list_valid lw (slice_valid PoolArr as_pools (pool_raw_valid mw)) h x"
| "object_valid mw lw h (SubnetPoolClaimListObj x) = list_valid lw (slice_valid PoolClaimArr as_poolclaims (poolclaim_raw_valid mw)) h x"

lemma DeepCopyObject_into:
  "DeepCopyObject a (SubnetObj x1) h = (case Subnet_DeepCopyInto a x1 h of (y, h') \<Rightarrow> (Some (SubnetObj y), h'))"
  "DeepCopyObject a (SubnetClaimObj x2) h = (case SubnetClaim_DeepCopyInto a x2 h of (y, h') \<Rightarrow> (Some (SubnetClaimObj y), h'))"
  "DeepCopyObject a (SubnetPoolObj x3) h = (case SubnetPool_DeepCopyInto a x3 h of (y, h') \<Rightarrow> (Some (SubnetPoolObj y), h'))"
  "DeepCopyObject a (SubnetPoolClaimObj x4) h = (case SubnetPoolClaim_DeepCopyInto a x4 h of (y, h') \<Rightarrow> (Some (SubnetPoolClaimObj y), h'))"
  "DeepCopyObject a (SubnetListObj x5) h = (case SubnetList_DeepCopyInto a x5 h of (y, h') \<Rightarrow> (Some (SubnetListObj y), h'))"
  "DeepCopyObject a (SubnetClaimListObj x6) h = (case SubnetClaimList_DeepCopyInto a x6 h of (y, h') \<Rightarrow> (Some (SubnetClaimListObj y), h'))"
  "DeepCopyObject a (SubnetPoolListObj x7) h = (case SubnetPoolList_DeepCopyInto a x7 h of (y, h') \<Rightarrow> (Some (SubnetPoolListObj y), h'))"
  "DeepCopyObject a (SubnetPoolClaimListObj x8) h = (case SubnetPoolClaimList_DeepCopyInto a x8 h of (y, h') \<Rightarrow> (Some (SubnetPoolClaimListObj y), h'))"
  by (simp_all add: Subnet_DeepCopyObject_def Subnet_DeepCopy_def SubnetClaim_DeepCopyObject_def SubnetClaim_DeepCopy_def SubnetPool_DeepCopyObject_def SubnetPool_DeepCopy_def SubnetPoolClaim_DeepCopyObject_def SubnetPoolClaim_DeepCopy_def SubnetList_DeepCopyObject_def SubnetList_DeepCopy_def SubnetClaimList_DeepCopyObject_def SubnetClaimList_DeepCopy_def SubnetPoolList_DeepCopyObject_def SubnetPoolList_DeepCopy_def SubnetPoolClaimList_DeepCopyObject_def SubnetPoolClaimList_DeepCopy_def DeepCopy_def as_object_def split: prod.splits)

text \<open>What is documented of the functions of \<^verbatim>\<open>apimachinery\<close> and of the iteration over a map.\<close>

locale apimachinery_laws =
  meta: deep_copier "ObjectMeta_DeepCopyInto a" mo mv mw + lmeta: deep_copier "ListMeta_DeepCopyInto a" lo lv lw
  for a :: "('m, 'l, 'x) apimachinery" and mo and mv :: "('m, 'x) heap \<Rightarrow> 'm \<Rightarrow> ObjectMeta" and mw
    and lo and lv :: "('m, 'x) heap \<Rightarrow> 'l \<Rightarrow> 'v" and lw +
  assumes condition_copy: "Condition_DeepCopyInto a c = c" and time_copy: "Time_DeepCopy a t = t"
    and keys: "finite S \<Longrightarrow> set (map_keys a S) = S"
begin

sublocale conds: slice_copier "\<lambda>c h. (Condition_DeepCopyInto a c, h)" no_refs itself any_value "CondArr :: _ \<Rightarrow> ('m, 'x) cell" as_conds zero_Condition
  by unfold_locales (auto simp: condition_copy extends_refl)

sublocale conditions: deep_copier "copy_conditions a" cond_owns cond_view cond_valid
  unfolding copy_conditions_def cond_owns_def cond_view_def cond_valid_def by (rule conds.slices.deep_copier_axioms)

sublocale ints: map_copier "IntMap :: _ \<Rightarrow> ('m, 'x) cell" as_ints "map_keys a"
  by unfold_locales (simp_all add: keys)

sublocale strs: map_copier "StrMap :: _ \<Rightarrow> ('m, 'x) cell" as_strs "map_keys a"
  by unfold_locales (simp_all add: keys)

sublocale times: deep_copier "\<lambda>p h. case p of None \<Rightarrow> (None, h) | Some q \<Rightarrow>
    let t = (case cells h q of Some (TimeCell t) \<Rightarrow> t | _ \<Rightarrow> 0); (r, h1) = alloc (TimeCell (Time_DeepCopy a t)) h in (Some r, h1)"
    "\<lambda>h. set_option" "time_view :: ('m, 'x) heap \<Rightarrow> _" time_valid
proof
  fix h h' :: "('m, 'x) heap" and p
  assume "time_valid h p" and "\<forall>b \<in> set_option p. cells h' b = cells h b"
  then show "time_valid h' p \<and> set_option p = set_option p \<and> time_view h' p = time_view h p"
    by (cases p) (simp_all add: time_valid_def time_view_def)
next
  fix h :: "('m, 'x) heap" and p
  assume "good_heap h" and "time_valid h p"
  then show "set_option p \<subseteq> {..<lim h}" by (auto simp: time_valid_def intro: good_cell)
next
  fix h h' :: "('m, 'x) heap" and p q
  assume "good_heap h" and "time_valid h p" and "(case p of None \<Rightarrow> (None, h) | Some q \<Rightarrow>
    let t = (case cells h q of Some (TimeCell t) \<Rightarrow> t | _ \<Rightarrow> 0); (r, h1) = alloc (TimeCell (Time_DeepCopy a t)) h in (Some r, h1)) = (q, h')"
  then show "extends h h' \<and> time_valid h' q \<and> time_view h' q = time_view h p \<and> set_option q \<subseteq> {lim h..<lim h'}"
    by (cases p) (auto simp: time_valid_def time_view_def time_copy extends_refl Let_def dest!: alloc_extends split: prod.splits)
qed

sublocale pool_status: deep_copier "SubnetPoolStatus_DeepCopyInto a" pool_status_owns pool_status_view pool_status_valid
  by (rule struct_copier [OF pair_copier [OF ints.deep_copier_axioms pair_copier [OF strs.deep_copier_axioms conditions.deep_copier_axioms]],
        where get = SubnetPoolStatus_refs and val = SubnetPoolStatus_val and
        put = "\<lambda>x p. x\<lparr>rsp_FreeCountBySize := fst p, rsp_AllocatedCIDRs := fst (snd p), rsp_Conditions := snd (snd p)\<rparr>"])
    (simp_all add: SubnetPoolStatus_refs_def SubnetPoolStatus_val_def SubnetPoolStatus_DeepCopyInto_def copy_pair_def
      pool_status_owns_def pool_status_view_def pool_status_valid_def split: prod.splits)

sublocale subnet_status: deep_copier "SubnetStatus_DeepCopyInto a" subnet_status_owns subnet_status_view subnet_status_valid
  by (rule struct_copier [OF times.deep_copier_axioms, where get = rsn_AllocatedAt and val = SubnetStatus_val and
        put = "\<lambda>x p. x\<lparr>rsn_AllocatedAt := p\<rparr>"])
    (simp_all add: SubnetStatus_val_def SubnetStatus_DeepCopyInto_def subnet_status_owns_def subnet_status_view_def subnet_status_valid_def
      Let_def split: option.splits prod.splits)

sublocale claim_status: deep_copier "SubnetClaimStatus_DeepCopyInto a" claim_status_owns claim_status_view claim_status_valid
  by (rule struct_copier [OF conditions.deep_copier_axioms, where get = rsc_Conditions and val = SubnetClaimStatus_val and
        put = "\<lambda>x p. x\<lparr>rsc_Conditions := p\<rparr>"])
    (simp_all add: SubnetClaimStatus_val_def SubnetClaimStatus_DeepCopyInto_def claim_status_owns_def claim_status_view_def claim_status_valid_def)

sublocale poolclaim_status: deep_copier "SubnetPoolClaimStatus_DeepCopyInto a" poolclaim_status_owns poolclaim_status_view poolclaim_status_valid
  by (rule struct_copier [OF conditions.deep_copier_axioms, where get = rpc_Conditions and val = SubnetPoolClaimStatus_val and
        put = "\<lambda>x p. x\<lparr>rpc_Conditions := p\<rparr>"])
    (simp_all add: SubnetPoolClaimStatus_val_def SubnetPoolClaimStatus_DeepCopyInto_def poolclaim_status_owns_def poolclaim_status_view_def
      poolclaim_status_valid_def)

sublocale subnet: deep_copier "Subnet_DeepCopyInto a" "subnet_raw_owns mo" "subnet_raw_view mv" "subnet_raw_valid mw"
  by (rule struct_copier [OF pair_copier [OF meta.deep_copier_axioms subnet_status.deep_copier_axioms], where get = Subnet_refs and
        val = Subnet_val and put = "\<lambda>x p. x\<lparr>rsn_ObjectMeta := fst p, rsn_Status := snd p\<rparr>"])
    (simp_all add: Subnet_refs_def Subnet_val_def Subnet_DeepCopyInto_def copy_pair_def subnet_raw_owns_def subnet_raw_view_def subnet_raw_valid_def
      split: prod.splits)

sublocale claim: deep_copier "SubnetClaim_DeepCopyInto a" "claim_raw_owns mo" "claim_raw_view mv" "claim_raw_valid mw"
  by (rule struct_copier [OF pair_copier [OF meta.deep_copier_axioms claim_status.deep_copier_axioms], where get = SubnetClaim_refs and
        val = SubnetClaim_val and put = "\<lambda>x p. x\<lparr>rsc_ObjectMeta := fst p, rsc_Status := snd p\<rparr>"])
    (simp_all add: SubnetClaim_refs_def SubnetClaim_val_def SubnetClaim_DeepCopyInto_def copy_pair_def claim_raw_owns_def claim_raw_view_def claim_raw_valid_def
      split: prod.splits)

sublocale pool: deep_copier "SubnetPool_DeepCopyInto a" "pool_raw_owns mo" "pool_raw_view mv" "pool_raw_valid mw"
  by (rule struct_copier [OF pair_copier [OF meta.deep_copier_axioms pool_status.deep_copier_axioms], where get = SubnetPool_refs and
        val = SubnetPool_val and put = "\<lambda>x p. x\<lparr>rsp_ObjectMeta := fst p, rsp_Status := snd p\<rparr>"])
    (simp_all add: SubnetPool_refs_def SubnetPool_val_def SubnetPool_DeepCopyInto_def copy_pair_def pool_raw_owns_def pool_raw_view_def pool_raw_valid_def
      split: prod.splits)

sublocale poolclaim: deep_copier "SubnetPoolClaim_DeepCopyInto a" "poolclaim_raw_owns mo" "poolclaim_raw_view mv" "poolclaim_raw_valid mw"
  by (rule struct_copier [OF pair_copier [OF meta.deep_copier_axioms poolclaim_status.deep_copier_axioms], where get = SubnetPoolClaim_refs and
        val = SubnetPoolClaim_val and put = "\<lambda>x p. x\<lparr>rpc_ObjectMeta := fst p, rpc_Status := snd p\<rparr>"])
    (simp_all add: SubnetPoolClaim_refs_def SubnetPoolClaim_val_def SubnetPoolClaim_DeepCopyInto_def copy_pair_def poolclaim_raw_owns_def poolclaim_raw_view_def poolclaim_raw_valid_def
      split: prod.splits)

lemma list_copier:
  assumes "deep_copier ci io iv iw"
  shows "deep_copier (List_DeepCopyInto a ci) (list_owns lo io) (list_view lv iv) (list_valid lw iw)"
  by (rule struct_copier [OF pair_copier [OF lmeta.deep_copier_axioms assms], where get = List_refs and val = List_val and
        put = "\<lambda>x p. x\<lparr>rl_ListMeta := fst p, rl_Items := snd p\<rparr>"])
    (simp_all add: List_refs_def List_val_def List_DeepCopyInto_def copy_pair_def list_owns_def list_view_def list_valid_def split: prod.splits)

sublocale subnets: slice_copier "Subnet_DeepCopyInto a" "subnet_raw_owns mo" "subnet_raw_view mv" "subnet_raw_valid mw" SubnetArr as_subnets "zero_Subnet a"
  by unfold_locales simp

sublocale subnet_list: deep_copier "SubnetList_DeepCopyInto a" "list_owns lo (slice_owns as_subnets (subnet_raw_owns mo))"
    "list_view lv (slice_view as_subnets (subnet_raw_view mv))" "list_valid lw (slice_valid SubnetArr as_subnets (subnet_raw_valid mw))"
  unfolding SubnetList_DeepCopyInto_def by (rule list_copier) (rule subnets.slices.deep_copier_axioms)

sublocale claims: slice_copier "SubnetClaim_DeepCopyInto a" "claim_raw_owns mo" "claim_raw_view mv" "claim_raw_valid mw" ClaimArr as_claims "zero_SubnetClaim a"
  by unfold_locales simp

sublocale claim_list: deep_copier "SubnetClaimList_DeepCopyInto a" "list_owns lo (slice_owns as_claims (claim_raw_owns mo))"
    "list_view lv (slice_view as_claims (claim_raw_view mv))" "list_valid lw (slice_valid ClaimArr as_claims (claim_raw_valid mw))"
  unfolding SubnetClaimList_DeepCopyInto_def by (rule list_copier) (rule claims.slices.deep_copier_axioms)

sublocale pools: slice_copier "SubnetPool_DeepCopyInto a" "pool_raw_owns mo" "pool_raw_view mv" "pool_raw_valid mw" PoolArr as_pools "zero_SubnetPool a"
  by unfold_locales simp

sublocale pool_list: deep_copier "SubnetPoolList_DeepCopyInto a" "list_owns lo (slice_owns as_pools (pool_raw_owns mo))"
    "list_view lv (slice_view as_pools (pool_raw_view mv))" "list_valid lw (slice_valid PoolArr as_pools (pool_raw_valid mw))"
  unfolding SubnetPoolList_DeepCopyInto_def by (rule list_copier) (rule pools.slices.deep_copier_axioms)

sublocale poolclaims: slice_copier "SubnetPoolClaim_DeepCopyInto a" "poolclaim_raw_owns mo" "poolclaim_raw_view mv" "poolclaim_raw_valid mw" PoolClaimArr as_poolclaims "zero_SubnetPoolClaim a"
  by unfold_locales simp

sublocale poolclaim_list: deep_copier "SubnetPoolClaimList_DeepCopyInto a" "list_owns lo (slice_owns as_poolclaims (poolclaim_raw_owns mo))"
    "list_view lv (slice_view as_poolclaims (poolclaim_raw_view mv))" "list_valid lw (slice_valid PoolClaimArr as_poolclaims (poolclaim_raw_valid mw))"
  unfolding SubnetPoolClaimList_DeepCopyInto_def by (rule list_copier) (rule poolclaims.slices.deep_copier_axioms)

text \<open>The method of the interface, on an object that is there.\<close>

sublocale objects: deep_copier "\<lambda>x h. case DeepCopyObject a x h of (y, h') \<Rightarrow> (the y, h')" "object_owns mo lo" "object_view mv lv" "object_valid mw lw"
proof
  fix h h' :: "('m, 'x) heap" and x
  assume "object_valid mw lw h x" and "\<forall>b \<in> object_owns mo lo h x. cells h' b = cells h b"
  then show "object_valid mw lw h' x \<and> object_owns mo lo h' x = object_owns mo lo h x \<and> object_view mv lv h' x = object_view mv lv h x"
    using subnet.frame [where h = h and h' = h'] claim.frame [where h = h and h' = h'] pool.frame [where h = h and h' = h'] poolclaim.frame [where h = h and h' = h']
      subnet_list.frame [where h = h and h' = h'] claim_list.frame [where h = h and h' = h'] pool_list.frame [where h = h and h' = h'] poolclaim_list.frame [where h = h and h' = h']
    by (cases x) simp_all
next
  fix h x
  assume "good_heap h" and "object_valid mw lw h x"
  then show "object_owns mo lo h x \<subseteq> {..<lim h}"
    by (cases x) (simp_all add: subnet.inside claim.inside pool.inside poolclaim.inside subnet_list.inside claim_list.inside pool_list.inside
        poolclaim_list.inside)
next
  fix h h' :: "('m, 'x) heap" and x y
  assume good: "good_heap h" and v: "object_valid mw lw h x" and c: "(case DeepCopyObject a x h of (y, h') \<Rightarrow> (the y, h')) = (y, h')"
  show "extends h h' \<and> object_valid mw lw h' y \<and> object_view mv lv h' y = object_view mv lv h x \<and> object_owns mo lo h' y \<subseteq> {lim h..<lim h'}"
  proof (cases x)
    case (SubnetObj z)
    then obtain u where "Subnet_DeepCopyInto a z h = (u, h')" "y = SubnetObj u"
      using c by (auto simp: DeepCopyObject_into simp del: DeepCopyObject.simps split: prod.splits)
    then show ?thesis using subnet.copies [OF good, of z u h'] v SubnetObj by simp
  next
    case (SubnetClaimObj z)
    then obtain u where "SubnetClaim_DeepCopyInto a z h = (u, h')" "y = SubnetClaimObj u"
      using c by (auto simp: DeepCopyObject_into simp del: DeepCopyObject.simps split: prod.splits)
    then show ?thesis using claim.copies [OF good, of z u h'] v SubnetClaimObj by simp
  next
    case (SubnetPoolObj z)
    then obtain u where "SubnetPool_DeepCopyInto a z h = (u, h')" "y = SubnetPoolObj u"
      using c by (auto simp: DeepCopyObject_into simp del: DeepCopyObject.simps split: prod.splits)
    then show ?thesis using pool.copies [OF good, of z u h'] v SubnetPoolObj by simp
  next
    case (SubnetPoolClaimObj z)
    then obtain u where "SubnetPoolClaim_DeepCopyInto a z h = (u, h')" "y = SubnetPoolClaimObj u"
      using c by (auto simp: DeepCopyObject_into simp del: DeepCopyObject.simps split: prod.splits)
    then show ?thesis using poolclaim.copies [OF good, of z u h'] v SubnetPoolClaimObj by simp
  next
    case (SubnetListObj z)
    then obtain u where "SubnetList_DeepCopyInto a z h = (u, h')" "y = SubnetListObj u"
      using c by (auto simp: DeepCopyObject_into simp del: DeepCopyObject.simps split: prod.splits)
    then show ?thesis using subnet_list.copies [OF good, of z u h'] v SubnetListObj by simp
  next
    case (SubnetClaimListObj z)
    then obtain u where "SubnetClaimList_DeepCopyInto a z h = (u, h')" "y = SubnetClaimListObj u"
      using c by (auto simp: DeepCopyObject_into simp del: DeepCopyObject.simps split: prod.splits)
    then show ?thesis using claim_list.copies [OF good, of z u h'] v SubnetClaimListObj by simp
  next
    case (SubnetPoolListObj z)
    then obtain u where "SubnetPoolList_DeepCopyInto a z h = (u, h')" "y = SubnetPoolListObj u"
      using c by (auto simp: DeepCopyObject_into simp del: DeepCopyObject.simps split: prod.splits)
    then show ?thesis using pool_list.copies [OF good, of z u h'] v SubnetPoolListObj by simp
  next
    case (SubnetPoolClaimListObj z)
    then obtain u where "SubnetPoolClaimList_DeepCopyInto a z h = (u, h')" "y = SubnetPoolClaimListObj u"
      using c by (auto simp: DeepCopyObject_into simp del: DeepCopyObject.simps split: prod.splits)
    then show ?thesis using poolclaim_list.copies [OF good, of z u h'] v SubnetPoolClaimListObj by simp
  qed
qed

lemma DeepCopyObject_some: "\<exists>y h'. DeepCopyObject a x h = (Some y, h')"
  by (cases x) (simp_all add: DeepCopyObject_into del: DeepCopyObject.simps split: prod.splits)

lemmas axioms_objects = objects.deep_copier_axioms

end

section \<open>A library in memory\<close>

text \<open>
  An implementation of the parameters: metadata whose labels are a map on the heap, list
  metadata without references.
\<close>

type_synonym mem_heap = "(ObjectMeta \<times> addr option, string \<rightharpoonup> string) heap"

fun as_labels :: "('m, 'x) cell \<Rightarrow> 'x option" where
  "as_labels (Foreign m) = Some m" | "as_labels _ = None"

definition mem_meta_view :: "mem_heap \<Rightarrow> ObjectMeta \<times> addr option \<Rightarrow> ObjectMeta" where
  "mem_meta_view h m = (fst m)\<lparr>Labels := map_view as_labels h (snd m)\<rparr>"

definition mem_apimachinery :: "(ObjectMeta \<times> addr option, string, string \<rightharpoonup> string) apimachinery" where
  "mem_apimachinery =
     \<lparr>ObjectMeta_DeepCopyInto = (\<lambda>m h. case copy_map Foreign as_labels sorted_list_of_set (snd m) h of (p, h') \<Rightarrow> ((fst m, p), h')),
      ListMeta_DeepCopyInto = Pair, Condition_DeepCopyInto = (\<lambda>c. c), Time_DeepCopy = (\<lambda>t. t),
      zero_ObjectMeta = (empty_meta, None), map_keys = sorted_list_of_set\<rparr>"

interpretation mem_labels: map_copier Foreign as_labels sorted_list_of_set
  by unfold_locales simp_all

interpretation mem: apimachinery_laws mem_apimachinery "\<lambda>h m. set_option (snd m)" mem_meta_view "\<lambda>h m. map_valid Foreign h (snd m)"
    "\<lambda>h l. {}" "\<lambda>h l. l" "\<lambda>h l. True"
proof -
  have "deep_copier (ObjectMeta_DeepCopyInto mem_apimachinery) (\<lambda>h m. set_option (snd m)) mem_meta_view (\<lambda>h m. map_valid Foreign h (snd m))"
    by (rule struct_copier [OF mem_labels.deep_copier_axioms, where get = snd and val = "\<lambda>m v. (fst m)\<lparr>Labels := v\<rparr>" and put = "\<lambda>m p. (fst m, p)"])
      (simp_all add: mem_apimachinery_def mem_meta_view_def)
  moreover have "deep_copier (ListMeta_DeepCopyInto mem_apimachinery) (\<lambda>h l. {}) (\<lambda>h l. l) (\<lambda>h l. True)"
    by unfold_locales (simp_all add: mem_apimachinery_def extends_refl)
  moreover have "apimachinery_laws_axioms mem_apimachinery"
    by unfold_locales (simp_all add: mem_apimachinery_def)
  ultimately show "apimachinery_laws mem_apimachinery (\<lambda>h m. set_option (snd m)) mem_meta_view (\<lambda>h m. map_valid Foreign h (snd m))
      (\<lambda>h l. {}) (\<lambda>h l. l) (\<lambda>h l. True)"
    by (simp add: apimachinery_laws_def)
qed

definition demo_raw_pool :: "(ObjectMeta \<times> addr option) SubnetPool_raw" where
  "demo_raw_pool = (zero_SubnetPool mem_apimachinery)\<lparr>rsp_ObjectMeta := (empty_meta, Some 0),
     rsp_Status := \<lparr>rsp_ObservedGeneration = 1, rsp_AllocatedCount = 1, rsp_FreeCountBySize = Some 1, rsp_AllocatedCIDRs = None,
       rsp_Conditions = Slice 2 0 1\<rparr>\<rparr>"

definition demo_heap :: mem_heap where
  "demo_heap = \<lparr>cells = [0 \<mapsto> Foreign [''k'' \<mapsto> ''v''], 1 \<mapsto> IntMap [''24'' \<mapsto> 3], 2 \<mapsto> CondArr [zero_Condition]], lim = 3\<rparr>"

section \<open>Properties\<close>

text \<open>
  C14. \<open>DeepCopyObject\<close> of every resource and every list returns an object with the same value,
  in a heap where all that was there is unchanged, and the two share nothing: whatever is
  written into the maps, slices and pointed-to values of the copy leaves the value of the
  original alone, and the other way round.
\<close>

theorem DeepCopyObject_independent:
  assumes "apimachinery_laws a mo mv mw lo lv lw" and "good_heap h" and "object_valid mw lw h x"
  shows "\<exists>y h'. DeepCopyObject a x h = (Some y, h') \<and> good_heap h' \<and> (\<forall>b < lim h. cells h' b = cells h b)
    \<and> object_view mv lv h' y = object_view mv lv h x
    \<and> (\<forall>g. (\<forall>b. b \<notin> object_owns mo lo h' y \<longrightarrow> cells g b = cells h' b) \<longrightarrow> object_view mv lv g x = object_view mv lv h x)
    \<and> (\<forall>g. (\<forall>b. b \<notin> object_owns mo lo h x \<longrightarrow> cells g b = cells h' b) \<longrightarrow> object_view mv lv g y = object_view mv lv h x)"
proof -
  have oc: "deep_copier (\<lambda>x h. case DeepCopyObject a x h of (y, h') \<Rightarrow> (the y, h')) (object_owns mo lo) (object_view mv lv) (object_valid mw lw)"
    by (rule apimachinery_laws.axioms_objects [OF assms(1)])
  obtain y h' where d: "DeepCopyObject a x h = (Some y, h')" using apimachinery_laws.DeepCopyObject_some [OF assms(1)] by blast
  then have c: "(\<lambda>x h. case DeepCopyObject a x h of (y, h') \<Rightarrow> (the y, h')) x h = (y, h')" by simp
  note copy = deep_copier.copies [OF oc assms(2,3) c] and ind = deep_copier.independent [OF oc assms(2,3) c]
  show ?thesis using d copy ind by (auto simp: extends_def)
qed

theorem DeepCopyObject_independent_witness:
  "\<exists>y h'. DeepCopyObject mem_apimachinery (SubnetPoolObj demo_raw_pool) demo_heap = (Some y, h')
     \<and> object_view mem_meta_view (\<lambda>h l. l) (put_cell 1 (IntMap Map.empty) h') y
         = object_view mem_meta_view (\<lambda>h l. l) demo_heap (SubnetPoolObj demo_raw_pool)"
proof -
  let ?x = "SubnetPoolObj demo_raw_pool :: (ObjectMeta \<times> addr option, string) object"
  have good: "good_heap demo_heap" by (auto simp: good_heap_def demo_heap_def split: if_splits)
  have valid: "object_valid (\<lambda>h m. map_valid Foreign h (snd m)) (\<lambda>h l. True) demo_heap ?x"
    by (simp add: pool_raw_valid_def pair_valid_def SubnetPool_refs_def pool_status_valid_def SubnetPoolStatus_refs_def map_valid_def
        cond_valid_def demo_raw_pool_def demo_heap_def)
  have owns: "1 \<in> object_owns (\<lambda>h m. set_option (snd m)) (\<lambda>h l. {}) demo_heap ?x"
    by (simp add: pool_raw_owns_def pair_owns_def SubnetPool_refs_def pool_status_owns_def SubnetPoolStatus_refs_def demo_raw_pool_def)
  obtain y h' where d: "DeepCopyObject mem_apimachinery ?x demo_heap = (Some y, h')"
    and ind: "\<forall>g. (\<forall>b. b \<notin> object_owns (\<lambda>h m. set_option (snd m)) (\<lambda>h l. {}) demo_heap ?x \<longrightarrow> cells g b = cells h' b) \<longrightarrow>
      object_view mem_meta_view (\<lambda>h l. l) g y = object_view mem_meta_view (\<lambda>h l. l) demo_heap ?x"
    using DeepCopyObject_independent [OF mem.apimachinery_laws_axioms good valid] by blast
  have "\<forall>b. b \<notin> object_owns (\<lambda>h m. set_option (snd m)) (\<lambda>h l. {}) demo_heap ?x \<longrightarrow>
      cells (put_cell 1 (IntMap Map.empty) h') b = cells h' b"
    using owns by (auto simp: put_cell_def)
  then show ?thesis using d ind by blast
qed

end
