(* ===== verification/Backoff.thy ===== *)
theory Backoff
  imports Complex_Main Allocator
begin

text \<open>
  The waiting time between the retries of \<open>allocateCIDR\<close>
  (\<^verbatim>\<open>internal/controller/allocator.go\<close>). Go's \<open>float64\<close> operations are the exact
  ones followed by a rounding \<open>fl\<close> with the relative error of 53 bits; \<open>math.Pow\<close> and
  \<open>rand.Intn\<close> (\<open>None\<close>: a panic) are parameters. The lemmas bound the errors through the
  formula.
\<close>

section \<open>The formula\<close>

definition AllocationBackoffBaseMs :: real where
  "AllocationBackoffBaseMs = 20"

definition AllocationBackoffFactor :: real where
  "AllocationBackoffFactor = 3 / 2"

definition AllocationJitterRatio :: real where
  "AllocationJitterRatio = 1 / 10"

text \<open>
  The conversion of a non-negative \<open>float64\<close> to an integer takes the integral part; a duration
  counts nanoseconds in 64 bits.
\<close>

definition calculateBackoffWithJitter ::
    "(real \<Rightarrow> real) \<Rightarrow> (real \<Rightarrow> nat \<Rightarrow> real) \<Rightarrow> (int \<Rightarrow> int option) \<Rightarrow> nat \<Rightarrow> 64 word option" where
  "calculateBackoffWithJitter fl pow intn retry =
     (let backoffMs = fl (AllocationBackoffBaseMs * pow AllocationBackoffFactor retry)
      in case intn \<lfloor>fl (backoffMs * fl AllocationJitterRatio)\<rfloor> of
           None \<Rightarrow> None
         | Some jitterMs \<Rightarrow> Some (word_of_int \<lfloor>fl (backoffMs + real_of_int jitterMs)\<rfloor> * 1000000))"

section \<open>Documented behaviour\<close>

text \<open>Relative errors: of the rounding of a positive result, and of \<open>math.Pow\<close>.\<close>

definition close_to :: "real \<Rightarrow> real \<Rightarrow> bool" where
  "close_to x y \<longleftrightarrow> x * (1 - 1 / 2 ^ 52) \<le> y \<and> y \<le> x * (1 + 1 / 2 ^ 52)"

definition float_law :: "(real \<Rightarrow> real) \<Rightarrow> bool" where
  "float_law fl \<longleftrightarrow> (\<forall>x. 1 / 100 \<le> x \<longrightarrow> x \<le> 2 ^ 60 \<longrightarrow> close_to x (fl x))"

definition pow_law :: "(real \<Rightarrow> nat \<Rightarrow> real) \<Rightarrow> bool" where
  "pow_law pow \<longleftrightarrow> (\<forall>x n. 1 \<le> x \<longrightarrow> x ^ n \<le> 2 ^ 60 \<longrightarrow> close_to (x ^ n) (pow x n))"

text \<open>\<open>rand.Intn\<close> panics unless its argument is positive, and returns a smaller natural number.\<close>

definition intn_law :: "(int \<Rightarrow> int option) \<Rightarrow> bool" where
  "intn_law intn \<longleftrightarrow> (\<forall>n. 0 < n \<longrightarrow> (\<exists>j. intn n = Some j \<and> 0 \<le> j \<and> j < n))"

section \<open>Error bounds\<close>

text \<open>Errors add up: \<open>near m x y\<close> if \<open>y\<close> is \<open>x\<close> up to \<open>m\<close> units of error.\<close>

definition near :: "real \<Rightarrow> real \<Rightarrow> real \<Rightarrow> bool" where
  "near m x y \<longleftrightarrow> x * (1 - m / 2 ^ 40) \<le> y \<and> y \<le> x * (1 + m / 2 ^ 40)"

lemma near_step:
  assumes "near m x y" and "close_to y z" and "0 < x" and "0 \<le> m" and "m \<le> 100"
  shows "near (m + 1) x z"
proof -
  let ?e = "1 / 2 ^ 52 :: real" and ?m = "m / 2 ^ 40"
  have y: "x * (1 - ?m) \<le> y" "y \<le> x * (1 + ?m)" and z: "y * (1 - ?e) \<le> z" "z \<le> y * (1 + ?e)"
    using assms(1,2) by (simp_all add: near_def close_to_def)
  have m: "0 \<le> ?m" "?m \<le> 1" using assms(4,5) by simp_all
  have "x * (1 - (m + 1) / 2 ^ 40) \<le> x * ((1 - ?m) * (1 - ?e))"
    using assms(3) m by (intro mult_left_mono) (simp_all add: field_simps)
  also have "\<dots> \<le> y * (1 - ?e)" using mult_right_mono [OF y(1), of "1 - ?e"] by (simp add: mult.assoc)
  finally have l: "x * (1 - (m + 1) / 2 ^ 40) \<le> z" using z(1) by linarith
  have "y * (1 + ?e) \<le> x * ((1 + ?m) * (1 + ?e))" using mult_right_mono [OF y(2), of "1 + ?e"] by (simp add: mult.assoc)
  also have "\<dots> \<le> x * (1 + (m + 1) / 2 ^ 40)"
    using assms(3,5) m by (intro mult_left_mono) (simp_all add: field_simps)
  finally have "z \<le> x * (1 + (m + 1) / 2 ^ 40)" using z(2) by linarith
  with l show ?thesis by (simp add: near_def)
qed

lemma near_scale: "near m x y \<Longrightarrow> 0 < a \<Longrightarrow> near m (a * x) (a * y)"
  by (simp add: near_def mult.assoc)

lemma near_times:
  assumes "near m x y" and "close_to a t" and "0 < x" and "0 < a" and "0 \<le> m" and "m \<le> 100"
  shows "near (m + 1) (a * x) (y * t)"
proof -
  have y: "0 < y"
  proof -
    have "0 < x * (1 - m / 2 ^ 40)" using assms(3,6) by (intro mult_pos_pos) simp_all
    then show ?thesis using assms(1) by (simp add: near_def)
  qed
  have "close_to (a * y) (y * t)"
    using assms(2) y by (simp add: close_to_def)
  from near_step [OF near_scale [OF assms(1,4)] this _ assms(5,6)] assms(3,4) show ?thesis by simp
qed

lemma factor_power_bounds:
  assumes "r \<le> 49"
  shows "1 \<le> (3 / 2 :: real) ^ r" and "(3 / 2 :: real) ^ r \<le> 2 ^ 29"
proof -
  show "1 \<le> (3 / 2 :: real) ^ r" by (rule one_le_power) simp
  have "(3 / 2 :: real) ^ r \<le> (3 / 2) ^ 49" by (rule power_increasing [OF assms]) simp
  also have "\<dots> \<le> 2 ^ 29" by (simp add: power_divide field_simps)
  finally show "(3 / 2 :: real) ^ r \<le> 2 ^ 29" .
qed

text \<open>The two float values of the formula, before the jitter is drawn.\<close>

lemma backoff_floats:
  assumes fl: "float_law fl" and pw: "pow_law pow" and r: "retry \<le> 49"
  defines "g \<equiv> (3 / 2 :: real) ^ retry"
  defines "b \<equiv> fl (AllocationBackoffBaseMs * pow AllocationBackoffFactor retry)"
  shows "near 2 (20 * g) b" and "near 4 (2 * g) (fl (b * fl AllocationJitterRatio))"
proof -
  have g: "1 \<le> g" "g \<le> 2 ^ 29" using factor_power_bounds [OF r] by (simp_all add: g_def)
  have bound: "x * (1 - 4 / 2 ^ 40) \<le> y \<and> y \<le> 2 * x" if "near m x y" "0 < x" "m \<le> 4" for m x y :: real
  proof -
    have "x * (1 - 4 / 2 ^ 40) \<le> x * (1 - m / 2 ^ 40)" "x * (1 + m / 2 ^ 40) \<le> x * 2"
      using that by (auto intro!: mult_left_mono)
    then show ?thesis using that(1) by (simp add: near_def)
  qed
  have "near 0 g g" by (simp add: near_def)
  moreover have "close_to g (pow (3 / 2) retry)" using pw g by (simp add: pow_law_def g_def)
  ultimately have "near 1 g (pow (3 / 2) retry)" using near_step [of 0 g g] g by simp
  from near_scale [OF this, of 20] have p: "near 1 (20 * g) (20 * pow (3 / 2) retry)" by simp
  have "close_to (20 * pow (3 / 2) retry) b"
    using fl bound [OF p] g by (simp add: float_law_def b_def AllocationBackoffBaseMs_def AllocationBackoffFactor_def)
  from near_step [OF p this] g show b: "near 2 (20 * g) b" by simp
  have "close_to (1 / 10) (fl (1 / 10))" using fl by (simp add: float_law_def)
  from near_times [OF b this] g have n: "near 3 (2 * g) (b * fl AllocationJitterRatio)" by (simp add: AllocationJitterRatio_def)
  have "close_to (b * fl AllocationJitterRatio) (fl (b * fl AllocationJitterRatio))"
    using fl bound [OF n] g by (simp add: float_law_def)
  from near_step [OF n this] g show "near 4 (2 * g) (fl (b * fl AllocationJitterRatio))" by simp
qed

section \<open>Properties\<close>

text \<open>
  C40. The wait before retry \<open>r\<close> of the allocation, for every retry the loop can make: it does not
  panic, since the argument of \<open>rand.Intn\<close> is positive, the duration does not overflow, and it
  is \<open>20 \<cdot> 1.5^r\<close> milliseconds plus at most a tenth, up to rounding. There is no upper limit: for
  retry 49 this is more than 98 days.
\<close>

theorem calculateBackoffWithJitter_bounds:
  assumes "float_law fl" and "pow_law pow" and "intn_law intn" and "retry \<le> 49"
  shows "\<exists>ms d. calculateBackoffWithJitter fl pow intn retry = Some d \<and> sint d = ms * 1000000
    \<and> 20 * (3 / 2) ^ retry * (1 - 1 / 10 ^ 9) - 1 \<le> real_of_int ms
    \<and> real_of_int ms \<le> 22 * (3 / 2) ^ retry * (1 + 1 / 10 ^ 9)"
proof -
  define g where "g = (3 / 2 :: real) ^ retry"
  define b where "b = fl (AllocationBackoffBaseMs * pow AllocationBackoffFactor retry)"
  define n where "n = fl (b * fl AllocationJitterRatio)"
  have g: "1 \<le> g" "g \<le> 2 ^ 29" using factor_power_bounds [OF assms(4)] by (simp_all add: g_def)
  have b: "near 2 (20 * g) b" and n: "near 4 (2 * g) n"
    using backoff_floats [OF assms(1,2,4)] by (simp_all add: g_def b_def n_def)
  have "1 \<le> n" using n g by (simp add: near_def)
  then have "0 < \<lfloor>n\<rfloor>" by linarith
  then obtain j where j: "intn \<lfloor>n\<rfloor> = Some j" "0 \<le> j" "j < \<lfloor>n\<rfloor>" using assms(3) unfolding intn_law_def by blast
  define s where "s = b + real_of_int j"
  have s: "20 * g * (1 - 2 / 2 ^ 40) \<le> s" "s \<le> 22 * g * (1 + 4 / 2 ^ 40)"
    using b n j g unfolding near_def s_def by (auto simp: algebra_simps) linarith+
  have c: "close_to s (fl s)" using assms(1) s g by (simp add: float_law_def)
  define ms where "ms = \<lfloor>fl s\<rfloor>"
  have "20 * g * (1 - 1 / 10 ^ 9) \<le> 20 * g * (1 - 2 / 2 ^ 40) * (1 - 1 / 2 ^ 52)" using g by simp
  also have "\<dots> \<le> s * (1 - 1 / 2 ^ 52)" by (rule mult_right_mono [OF s(1)]) simp
  finally have lo: "20 * g * (1 - 1 / 10 ^ 9) \<le> fl s" using c by (simp add: close_to_def)
  have "s * (1 + 1 / 2 ^ 52) \<le> 22 * g * (1 + 4 / 2 ^ 40) * (1 + 1 / 2 ^ 52)" by (rule mult_right_mono [OF s(2)]) simp
  also have "\<dots> \<le> 22 * g * (1 + 1 / 10 ^ 9)" using g by simp
  finally have hi: "fl s \<le> 22 * g * (1 + 1 / 10 ^ 9)" using c by (simp add: close_to_def)
  have m: "0 \<le> ms" "ms \<le> 2 ^ 35" using lo hi g by (simp_all add: ms_def floor_le_iff)
  have "signed_take_bit 63 (ms * 1000000) = ms * 1000000"
    by (rule signed_take_bit_int_eq_self) (use m in simp_all)
  moreover have "sint (word_of_int (ms * 1000000) :: 64 word) = signed_take_bit 63 (ms * 1000000)"
    by (simp only: signed_of_int len_num0 len_num1 len_bit0) simp
  ultimately have "sint (word_of_int ms * 1000000 :: 64 word) = ms * 1000000" by simp
  moreover have "calculateBackoffWithJitter fl pow intn retry = Some (word_of_int ms * 1000000)"
    using j(1) by (simp add: calculateBackoffWithJitter_def Let_def ms_def s_def b_def n_def)
  moreover have "20 * g * (1 - 1 / 10 ^ 9) - 1 \<le> real_of_int ms" "real_of_int ms \<le> 22 * g * (1 + 1 / 10 ^ 9)"
    using lo hi unfolding ms_def by linarith+
  ultimately show ?thesis unfolding g_def by blast
qed

theorem calculateBackoffWithJitter_bounds_witness:
  "\<exists>ms d. calculateBackoffWithJitter (\<lambda>x. x) (\<lambda>x n. x ^ n) (\<lambda>n. if 0 < n then Some (n - 1) else None) 49 = Some d
     \<and> sint d = ms * 1000000 \<and> 98 * 24 * 60 * 60 * 1000 \<le> real_of_int ms"
proof -
  have "float_law (\<lambda>x. x)" "pow_law (\<lambda>x n. x ^ n)" "intn_law (\<lambda>n. if 0 < n then Some (n - 1) else None)"
    by (auto simp: float_law_def pow_law_def intn_law_def close_to_def)
  from calculateBackoffWithJitter_bounds [OF this, of 49] obtain ms d where
    r: "calculateBackoffWithJitter (\<lambda>x. x) (\<lambda>x n. x ^ n) (\<lambda>n. if 0 < n then Some (n - 1) else None) 49 = Some d"
    "sint d = ms * 1000000" and b: "20 * (3 / 2) ^ 49 * (1 - 1 / 10 ^ 9) - 1 \<le> real_of_int ms" by auto
  have "98 * 24 * 60 * 60 * 1000 \<le> (20 * (3 / 2) ^ 49 * (1 - 1 / 10 ^ 9) - 1 :: real)" by (simp add: power_divide)
  with r b show ?thesis by fastforce
qed

end
