(* ===== verification/Envtest.thy ===== *)
theory Envtest
  imports Go_Std
begin

text \<open>
  \<^verbatim>\<open>internal/testutils/envtest_setup.go\<close>: before the integration tests run, the package
  looks for the binaries of a test control plane, or has them downloaded, and puts their
  directory into the environment. Environment, file system and the started processes are
  parameters, and so are \<open>filepath.Join\<close> and \<open>runtime.GOOS\<close>, which depend on the operating
  system; what is printed is left out. A panic is an \<open>Inl\<close>.
\<close>

section \<open>White space\<close>

text \<open>\<open>strings.TrimSpace\<close> on bytes: the characters of \<open>unicode.IsSpace\<close> in UTF-8.\<close>

definition utf8 :: "nat \<Rightarrow> string" where
  "utf8 n =
     (if n < 128 then [char_of n]
      else if n < 2048 then [char_of (192 + n div 64), char_of (128 + n mod 64)]
      else [char_of (224 + n div 4096), char_of (128 + n div 64 mod 64), char_of (128 + n mod 64)])"

definition space_runes :: "nat list" where
  "space_runes = [9, 10, 11, 12, 13, 32, 133, 160, 5760] @ [8192..<8203] @ [8232, 8233, 8239, 8287, 12288]"

lemma HasPrefix_drop_less: "HasPrefix s p \<Longrightarrow> p \<noteq> [] \<Longrightarrow> length (drop (length p) s) < length s"
  by (induction s p rule: HasPrefix.induct) auto

function drop_runes :: "string list \<Rightarrow> string \<Rightarrow> string" where
  "drop_runes ps s =
     (case find (\<lambda>p. p \<noteq> [] \<and> HasPrefix s p) ps of None \<Rightarrow> s | Some p \<Rightarrow> drop_runes ps (drop (length p) s))"
  by auto
termination
proof (relation "measure (\<lambda>(ps, s). length s)")
  fix ps s p
  assume "find (\<lambda>p. p \<noteq> [] \<and> HasPrefix s p) ps = Some p"
  then have "p \<noteq> []" "HasPrefix s p" by (auto simp: find_Some_iff)
  then show "((ps, drop (length p) s), ps, s) \<in> measure (\<lambda>(ps, s). length s)" using HasPrefix_drop_less [of s p] by simp
qed simp

declare drop_runes.simps [simp del]

definition TrimSpace :: "string \<Rightarrow> string" where
  "TrimSpace s = rev (drop_runes (map (rev \<circ> utf8) space_runes) (rev (drop_runes (map utf8 space_runes) s)))"

lemma drop_runes_clean: "\<forall>p \<in> set ps. p \<noteq> [] \<longrightarrow> \<not> HasPrefix (drop_runes ps s) p"
proof (induction ps s rule: drop_runes.induct)
  case (1 ps s)
  show ?case
  proof (cases "find (\<lambda>p. p \<noteq> [] \<and> HasPrefix s p) ps")
    case None
    then have "drop_runes ps s = s" by (simp add: drop_runes.simps [of ps s])
    then show ?thesis using None by (auto simp: find_None_iff)
  next
    case (Some p)
    then show ?thesis using 1 [OF Some] by (simp add: drop_runes.simps [of ps s])
  qed
qed

section \<open>The version\<close>

record 'w os_lib =
  os_Getenv :: "string \<Rightarrow> 'w \<Rightarrow> string"
  os_Setenv :: "string \<Rightarrow> string \<Rightarrow> 'w \<Rightarrow> error option \<times> 'w"
  os_TempDir :: "'w \<Rightarrow> string"
  os_MkdirAll :: "string \<Rightarrow> nat \<Rightarrow> 'w \<Rightarrow> error option \<times> 'w"
  os_Stat :: "string \<Rightarrow> 'w \<Rightarrow> error option"
  os_Join :: "string list \<Rightarrow> string"
  os_Run :: "string list \<Rightarrow> 'w \<Rightarrow> (error option \<times> string \<times> string) \<times> 'w"
  os_GOOS :: string

definition getK8sVersion :: "'w os_lib \<Rightarrow> 'w \<Rightarrow> string" where
  "getK8sVersion l w =
     (let version = os_Getenv l ''ENVTEST_K8S_VERSION'' w
      in if version = '''' then ''1.32.0''
         else if \<not> Contains_str version ''.'' then version @ ''.0''
         else let parts = Split version (CHR ''.'')
              in if length parts = 2 then version @ ''.0'' else version)"

section \<open>The assets\<close>

definition BinaryAssetsDir :: "'w os_lib \<Rightarrow> 'w \<Rightarrow> string" where
  "BinaryAssetsDir l w = os_Join l [os_TempDir l w, ''.cache'', ''kubebuilder-envtest'']"

definition etcd_path :: "'w os_lib \<Rightarrow> string \<Rightarrow> string" where
  "etcd_path l dir = (let etcdPath = os_Join l [dir, ''etcd''] in if os_GOOS l = ''windows'' then etcdPath @ ''.exe'' else etcdPath)"

definition set_assets :: "'w os_lib \<Rightarrow> string \<Rightarrow> 'w \<Rightarrow> (error, unit) result \<times> 'w" where
  "set_assets l path w =
     (case os_Setenv l ''KUBEBUILDER_ASSETS'' path w of
        (Some err, w1) \<Rightarrow> (Inl (Wrapf ''failed to set KUBEBUILDER_ASSETS: '' err), w1)
      | (None, w1) \<Rightarrow> (Inr (), w1))"

definition validateAndSetEnvPath :: "'w os_lib \<Rightarrow> string \<Rightarrow> 'w \<Rightarrow> (error, unit) result \<times> 'w" where
  "validateAndSetEnvPath l path w =
     (if path = '''' then (Inl (Errorf ''empty path received from setup-envtest''), w)
      else case os_Stat l (etcd_path l path) w of
          Some err \<Rightarrow> (Inl (Wrapf (''etcd binary not found at expected path '' @ etcd_path l path @ '': '') err), w)
        | None \<Rightarrow> set_assets l path w)"

definition setup_envtest :: "string list" where
  "setup_envtest = [''go'', ''run'', ''sigs.k8s.io/controller-runtime/tools/setup-envtest@latest'']"



text \<open>The message of the last panic also wraps the first error, which nobody unwraps.\<close>

definition download :: "'w os_lib \<Rightarrow> string \<Rightarrow> 'w \<Rightarrow> (error, unit) result \<times> 'w" where
  "download l dir w =
     (case os_Run l (setup_envtest @ [''use'', getK8sVersion l w, ''-p'', ''path'', ''--bin-dir'', dir]) w of
        ((None, stdout, stderr), w1) \<Rightarrow> validateAndSetEnvPath l (TrimSpace stdout) w1
      | ((Some err, _, _), w1) \<Rightarrow>
          (case os_Run l (setup_envtest @ [''use'', ''-i'', ''--use-env'', ''-p'', ''path'', ''--bin-dir'', dir]) w1 of
             ((None, stdout, stderr), w2) \<Rightarrow> validateAndSetEnvPath l (TrimSpace stdout) w2
           | ((Some _, stdout, stderr), w2) \<Rightarrow>
               (Inl (Errorf (''failed to download envtest binaries: '' @ err_text err @ [CHR 0x0A] @ ''Stdout: '' @ stdout
                 @ [CHR 0x0A] @ ''Stderr: '' @ stderr)), w2)))"

definition envtest_init :: "'w os_lib \<Rightarrow> 'w \<Rightarrow> (error, unit) result \<times> 'w" where
  "envtest_init l w =
     (let dir = BinaryAssetsDir l w
      in if os_Getenv l ''KUBEBUILDER_ASSETS'' w \<noteq> '''' then (Inr (), w)
         else case os_MkdirAll l dir 493 w of
             (Some err, w1) \<Rightarrow> (Inl (Wrapf ''failed to create envtest directory: '' err), w1)
           | (None, w1) \<Rightarrow>
               (case os_Stat l (etcd_path l dir) w1 of
                  None \<Rightarrow> set_assets l dir w1
                | Some _ \<Rightarrow> download l dir w1))"

section \<open>What the tests find\<close>

text \<open>Trimming leaves no white space at either end that was not cut.\<close>

lemma TrimSpace_end: "p \<in> set (map (rev \<circ> utf8) space_runes) \<Longrightarrow> p \<noteq> [] \<Longrightarrow> \<not> HasPrefix (rev (TrimSpace s)) p"
  using drop_runes_clean by (simp add: TrimSpace_def)

text \<open>The number of fields of the version: a single number gets one more field, not two.\<close>

lemma Split_fields: "length (Split (s @ t) c) + 1 = length (Split s c) + length (Split t c)"
proof (induction s)
  case (Cons x s)
  then show ?case using Split_nonempty [of s c] Split_nonempty [of "s @ t" c] by (auto split: list.splits)
qed simp

lemma Split_one_field: "\<not> Contains_str s [c] \<longleftrightarrow> length (Split s c) = 1"
proof (induction s)
  case (Cons x s)
  then show ?case using Split_nonempty [of s c] by (auto split: list.splits)
qed simp

lemma getK8sVersion_fields:
  fixes l w
  defines "n \<equiv> length (Split (os_Getenv l ''ENVTEST_K8S_VERSION'' w) (CHR ''.''))"
  shows "length (Split (getK8sVersion l w) (CHR ''.'')) =
    (if os_Getenv l ''ENVTEST_K8S_VERSION'' w = '''' then 3 else if n = 1 then 2 else max 3 n)"
proof -
  have two: "length (Split (s @ ''.0'') (CHR ''.'')) = length (Split s (CHR ''.'')) + 1" for s
    using Split_fields [of s "''.0''" "CHR ''.''"] by simp
  have "1 \<le> n" using Split_nonempty by (simp add: n_def Suc_leI)
  then show ?thesis
    using Split_one_field [of "os_Getenv l ''ENVTEST_K8S_VERSION'' w" "CHR ''.''"] two
    by (auto simp: getK8sVersion_def n_def Let_def)
qed

text \<open>The operating system: a variable that is set is seen, and setting it changes no file.\<close>

definition setenv_law :: "'w os_lib \<Rightarrow> bool" where
  "setenv_law l \<longleftrightarrow> (\<forall>key v w w'. os_Setenv l key v w = (None, w') \<longrightarrow> os_Getenv l key w' = v \<and> (\<forall>p. os_Stat l p w' = os_Stat l p w))"

text \<open>
  If the set-up does not panic, the environment names a directory with the binary of etcd, unless
  it named one before, which is not looked at.
\<close>

lemma envtest_init_assets:
  assumes "setenv_law l" and "envtest_init l w = (Inr (), w')" and "os_Getenv l ''KUBEBUILDER_ASSETS'' w = ''''"
  shows "os_Stat l (etcd_path l (os_Getenv l ''KUBEBUILDER_ASSETS'' w')) w' = None"
proof -
  have set: "os_Stat l (etcd_path l (os_Getenv l ''KUBEBUILDER_ASSETS'' v')) v' = None"
    if "set_assets l path v = (Inr (), v')" "os_Stat l (etcd_path l path) v = None" for path v v'
    using that assms(1) by (auto simp: set_assets_def setenv_law_def split: prod.splits option.splits)
  have val: "os_Stat l (etcd_path l (os_Getenv l ''KUBEBUILDER_ASSETS'' v')) v' = None"
    if "validateAndSetEnvPath l path v = (Inr (), v')" for path v v'
    using that by (auto simp: validateAndSetEnvPath_def split: if_splits option.splits intro: set)
  show ?thesis
    using assms(2,3)
    by (auto simp: envtest_init_def download_def Let_def split: prod.splits option.splits intro: set val)
qed

end
