(* ===== verification/Spec2Isabelle.thy ===== *)
theory Spec2Isabelle
  imports Delegation Watches Gauge_Locks Deep_Copy Backoff Envtest
begin

text \<open>
  \<^bold>\<open>A verification of plexaubnet\<close>

  plexaubnet is a Kubernetes operator that hands out IPv4 subnets. A SubnetPool holds a CIDR. A
  SubnetClaim asks for a block of a pool, by size or by CIDR; the SubnetClaim controller chooses
  a block and stores it as a Subnet, whose name encodes pool and CIDR, and sets the claim to
  Bound or Error. The Subnet controller gives every Subnet a phase. The pool status controller
  counts the Subnets of a pool into the status of the pool. A SubnetPoolClaim asks for a pool of
  its own: its controller creates an internal SubnetClaim and, once that is Bound, a child pool
  with the CIDR. The controllers share no memory but the registry of gauges; they meet in the
  objects on the API server.

  \<^bold>\<open>Theories and sources\<close> (paths under \<^verbatim>\<open>src/internal/controller\<close> unless given)

  \<^item> \<open>Prelude\<close>: arithmetic of blocks and bytes, lists, theorem collections.
  \<^item> \<open>Go_Std\<close>, \<open>Go_Net\<close>, \<open>Sha1\<close>: the parts of Go's standard library that the code uses: strings,
    \<open>Atoi\<close>, errors as the datatype \<open>error\<close>, \<open>net.ParseCIDR\<close>, masks and printing, SHA-1. The
    parser of IPv6 addresses runs at most nine rounds, one more than an address has groups.
  \<^item> \<open>Api_Types\<close>: the resources of \<^verbatim>\<open>src/api/v1alpha1\<close> as records, the phases as strings.
  \<^item> \<open>Kube\<close>: the client and the libraries, as the record \<open>kube\<close> of functions on a world \<open>'w\<close>, and
    what is documented of them, as predicates: \<open>exclusive_store\<close> (a single writer reads its
    writes), \<open>retry_law\<close> (\<open>retry.OnError\<close>), \<open>apierrors_laws\<close>, \<open>order_law\<close> (a map is iterated in some
    order) and others. \<open>mem_kube\<close> is an instance on an in-memory store, on which the witnesses
    run. Metrics, events and waits are values of \<open>effect\<close> given to \<open>k_emit\<close>. The locale
    \<open>reconciler\<close> is the contract between a reconciler and its worker.
  \<^item> \<open>Netutil\<close>: \<^verbatim>\<open>src/internal/netutil\<close>. \<open>CIDROverlaps\<close> holds exactly if the networks share an
    address.
  \<^item> \<open>Bitmap\<close>: \<^verbatim>\<open>bitmap.go\<close>. The big integer of a map is an \<open>int\<close>; the locales \<open>bitset\<close> and
    \<open>first_fit\<close> are the contract of a set of bits with a search, interpreted on the code's
    loops. \<open>MarkAllocated\<close> refines union of address sets, \<open>AllocateNextAvailable\<close> returns the
    lowest free aligned block and fails only when there is none.
  \<^item> \<open>Metrics\<close>: \<^verbatim>\<open>metrics.go\<close>, \<^verbatim>\<open>metrics_static.go\<close>, \<^verbatim>\<open>pool_gauge_watcher.go\<close>,
    \<^verbatim>\<open>events.go\<close>, \<^verbatim>\<open>statusutil/metrics.go\<close>: declarations, registration, recording functions
    and the registry of static gauges, an explicit state, with atomic operations. \<open>Gauge_Locks\<close> has
    the code of the registry step by step, with its lock, for any number of goroutines; every
    interleaving refines the atomic registry. The locale \<open>atomic_object\<close> carries an invariant of
    the operations to all interleavings.
  \<^item> \<open>Allocator\<close>: \<^verbatim>\<open>allocator.go\<close>. The locale \<open>marking_loop\<close> carries disjoint CIDRs into the map. For a
    single writer \<open>allocateCIDR\<close> keeps the allocations of a pool disjoint and inside the pool; with
    a stale list it does not, which is shown on an example. \<open>Backoff\<close> holds its waiting time.
  \<^item> \<open>Claim_Reconciler\<close>: \<^verbatim>\<open>reconciler.go\<close> and \<^verbatim>\<open>controller.go\<close>: validation, the allocation loop,
    the status update with its two retry loops. Over any sequence of requests the invariant
    \<open>recon_inv\<close> holds: disjoint pools, Bound claims backed by Subnets. \<open>Claim_Outcome\<close> follows
    one reconciliation from the request to the stored status.
  \<^item> \<open>Subnet_Controller\<close>: \<^verbatim>\<open>subnet_controller.go\<close>, \<^verbatim>\<open>statusutil\<close>. The inductive relation
    \<open>phase_step\<close> is the abstract machine of the phases; the reconciler refines it.
  \<^item> \<open>Statuscalc\<close>, \<open>Pool_Status\<close>: \<^verbatim>\<open>statuscalc\<close>, \<^verbatim>\<open>poolstatus_controller.go\<close>, \<^verbatim>\<open>pager.go\<close>. The paging
    loop may run forever on a bad server, so \<open>list_pages\<close> is a partial function with values in
    \<open>option\<close>; it returns when the tokens make progress, and then with all Subnets. The scan of
    debug builds is here, too.
  \<^item> \<open>Pool_Claim\<close>: \<^verbatim>\<open>poolclaim_controller.go\<close>. A SubnetPoolClaim never owns two internal claims or
    two child pools. \<open>Pool_Claim_Outcome\<close> says what one reconciliation achieves, as the step relation
    \<open>poolclaim_step\<close>, which the reconciler refines on a server that answers.
  \<^item> \<open>Event_Routing\<close>: \<^verbatim>\<open>predicates.go\<close>, \<^verbatim>\<open>init_index.go\<close> and the predicates of the pool status
    controller. \<open>Watches\<close> composes them with the builders of the controllers: which events lead to
    which requests.
  \<^item> \<open>Footprint\<close>: the calls each controller may make, as predicates on the datatype \<open>call\<close>, and the
    inductive relation \<open>reaches\<close>; every reconciliation is a sequence of calls in its footprint.
  \<^item> \<open>System\<close>: the four controllers in any interleaving of reconciliations. \<open>Nested_Pools\<close> shows of the
    same system that child pools lie on allocated ranges, \<open>Delegation\<close> that a SubnetPoolClaim gets one:
    it composes the outcomes of the two controllers that serve it.
  \<^item> \<open>Startup\<close>: \<^verbatim>\<open>src/internal/config\<close>, the set-up of the controllers, the scheme of
    \<^verbatim>\<open>src/api/v1alpha1\<close> and \<^verbatim>\<open>src/cmd/main.go\<close>.
  \<^item> \<open>Deep_Copy\<close>: \<^verbatim>\<open>src/api/v1alpha1/zz_generated.deepcopy.go\<close>. Here a resource is a struct on an
    explicit heap; a deep copy has the value of its original and shares nothing with it, which
    is what lets the other theories pass resources by value. The locale \<open>deep_copier\<close> is the
    contract of a copying function; slices, maps and structs extend it.
  \<^item> \<open>Envtest\<close>: \<^verbatim>\<open>src/internal/testutils\<close>, the set-up of the control plane for tests.

  \<^bold>\<open>Conventions\<close>

  A Go function that returns an error returns \<open>error + 'a\<close> (\<open>Inl\<close> the error) or \<open>error option\<close>; a
  panic, or a loop that does not end, is \<open>None\<close> of an outer \<open>option\<close>. State is passed explicitly: the
  world \<open>'w\<close>, and beside it the registry of gauges. Integers keep their width where it matters:
  bytes and 64-bit shifts are words, other \<open>int\<close>s of the source are small and are \<open>int\<close> or \<open>nat\<close>.
  A function literal of the source that is retried, or a branch that stands in two places, has a
  definition of its own (\<open>update_claim_once\<close>, \<open>pool_patch_once\<close>, \<open>on_allocated\<close>, \<open>finish_status\<close>).
  Retry loops with a fixed number of rounds recurse on the rounds that are left (50 in
  \<open>allocate_loop\<close>, 65 in \<open>process_loop\<close>, 4 in \<open>notfound_loop\<close>), so they always return.

  \<^bold>\<open>Hypotheses\<close>

  The safety theorems of the controllers assume that a controller is the only writer of the
  objects it creates or of the statuses it sets, as its footprint and one worker per controller
  imply, and that it reads its own writes. The second is not given with a cached client: what
  follows without it is shown by \<open>allocateCIDR_stale_list_overlap\<close>. Calls of other controllers may
  happen at any call of the server, since the laws only speak of the view a controller writes;
  \<open>separate_kinds\<close> in \<open>System\<close> says that a call changes objects of its own kind only. Pools
  and requests are IPv4 where address arithmetic is involved, and the CIDR of a pool does not
  change. Every law is shown to hold of an in-memory server that the witnesses use.

  \<^bold>\<open>Not modelled\<close>

  Logging; the help texts and buckets of metrics and measured durations; deletion of objects by
  users and the garbage collector; the queue with its rate limiter, of which only the order of
  requests is kept; how controller-runtime delivers events, which is a parameter of \<open>Watches\<close>
  with its documented behaviour; flag parsing, TLS set-up and the manager itself, which are
  parameters of \<open>main_run\<close>; the preference of \<open>sync.RWMutex\<close> for waiting writers, so that the
  machine of \<open>Gauge_Locks\<close> has all runs of the code and more; the operating system below
  \<open>Envtest\<close>.
\<close>

end
